(* ===== verification/Prelude.thy ===== *)
theory Prelude
  imports
    Main
    "HOL-Library.Word"
    "HOL-Library.Char_ord"
    "HOL-Library.List_Lexorder"
    "HOL-Library.Product_Lexorder"
    "HOL-Library.Multiset"
begin

section \<open>Prelude: shared types, results and string operations\<close>

text \<open>
  What every component of the model shares: the type of the exceptions and failures the
  sources raise, the result type \<open>exn + 'a\<close> with its sequencing combinator, the
  operations of \<open>std::string\<close> and \<open>std::string_view\<close> the sources call, and the
  collections of rules that the component proofs use.
  Byte strings are \<^typ>\<open>string\<close>s (one \<^typ>\<open>char\<close> per byte); \<open>operator<\<close> on
  \<open>std::string_view\<close> compares unsigned bytes lexicographically, which is the order that
  \<^theory_text>\<open>Char_ord\<close> and \<^theory_text>\<open>List_Lexorder\<close> give to \<^typ>\<open>string\<close>.
  Sizes (\<open>std::size_t\<close>) are \<^typ>\<open>nat\<close>.
\<close>

named_theorems res_simps \<open>evaluation of results: sequencing, success and failure\<close>
named_theorems str_simps \<open>string operations on concatenations\<close>

subsection \<open>Exceptions and results\<close>

text \<open>
  \<open>Runtime_Error\<close> is \<open>std::runtime_error\<close> with its message, \<open>Conversion_Error\<close> the
  \<open>std::runtime_error\<close> whose message \<open>createErrorString\<close> makes of an error code and the
  place in the sources, \<open>Out_Of_Range\<close> what
  \<open>substr\<close> throws, \<open>Library_Error\<close> another standard exception of a library, named after
  what failed, \<open>Assertion_Failed\<close> a failed \<open>assert\<close> (the build does not
  define \<open>NDEBUG\<close>), \<open>Undefined_Behaviour\<close> an access outside an array or past the end of
  a buffer, for which the language gives no result.
\<close>

datatype errc = Invalid_Argument | Result_Out_Of_Range | Value_Too_Large

datatype exn =
    Runtime_Error string
  | Conversion_Error errc
  | Out_Of_Range
  | Library_Error string
  | Assertion_Failed
  | Undefined_Behaviour

text \<open>The exceptions that a handler for \<open>std::exception\<close> catches.\<close>

fun std_exception :: "exn \<Rightarrow> bool" where
  "std_exception (Runtime_Error _) = True"
| "std_exception (Conversion_Error _) = True"
| "std_exception Out_Of_Range = True"
| "std_exception (Library_Error _) = True"
| "std_exception Assertion_Failed = False"
| "std_exception Undefined_Behaviour = False"

type_synonym 'a result = "exn + 'a"

definition bindE :: "'a result \<Rightarrow> ('a \<Rightarrow> 'b result) \<Rightarrow> 'b result" where
  "bindE m f = (case m of Inl e \<Rightarrow> Inl e | Inr x \<Rightarrow> f x)"

definition is_ok :: "'a result \<Rightarrow> bool" where
  "is_ok m = (case m of Inl _ \<Rightarrow> False | Inr _ \<Rightarrow> True)"

lemma bindE_simps [simp, res_simps]:
  "bindE (Inl e) f = Inl e"
  "bindE (Inr x) f = f x"
  by (simp_all add: bindE_def)

lemma bindE_Inr_iff: "bindE m f = Inr y \<longleftrightarrow> (\<exists>x. m = Inr x \<and> f x = Inr y)"
  by (cases m) simp_all

lemma bindE_Inl_iff: "bindE m f = Inl e \<longleftrightarrow> m = Inl e \<or> (\<exists>x. m = Inr x \<and> f x = Inl e)"
  by (cases m) simp_all

lemma bindE_InrE [elim]:
  assumes "bindE m f = Inr y"
  obtains x where "m = Inr x" "f x = Inr y"
  using assms by (auto simp: bindE_Inr_iff)

lemma is_ok_simps [simp, res_simps]: "is_ok (Inr x)" "\<not> is_ok (Inl e)"
  by (simp_all add: is_ok_def)

lemma is_ok_iff: "is_ok m \<longleftrightarrow> (\<exists>x. m = Inr x)"
  by (cases m) simp_all

subsection \<open>std::string and std::string\_view\<close>

text \<open>\<open>s.substr(i, n)\<close> for \<open>i \<le> s.size()\<close>: the count is clipped at the end.\<close>

definition substr :: "string \<Rightarrow> nat \<Rightarrow> nat \<Rightarrow> string" where
  "substr s i n = take n (drop i s)"

text \<open>\<open>s.find(c, i)\<close>: the first position at or after \<open>i\<close> that holds \<open>c\<close>.\<close>

definition find_char :: "char \<Rightarrow> string \<Rightarrow> nat \<Rightarrow> nat option" where
  "find_char c s i =
     (let n = length (takeWhile (\<lambda>x. x \<noteq> c) (drop i s))
      in if i + n < length s then Some (i + n) else None)"

text \<open>\<open>s.find(p)\<close> for a string \<open>p\<close>.\<close>

fun starts_with :: "string \<Rightarrow> string \<Rightarrow> bool" where
  "starts_with s [] = True"
| "starts_with [] (p # ps) = False"
| "starts_with (x # xs) (p # ps) = (x = p \<and> starts_with xs ps)"

fun find_str :: "string \<Rightarrow> string \<Rightarrow> nat option" where
  "find_str p [] = (if p = [] then Some 0 else None)"
| "find_str p (x # xs) =
     (if starts_with (x # xs) p then Some 0 else map_option Suc (find_str p xs))"

text \<open>\<open>s.find_first_of(seps, i)\<close> and \<open>s.find_first_not_of(seps, i)\<close>.\<close>

definition find_first_of :: "string \<Rightarrow> string \<Rightarrow> nat \<Rightarrow> nat option" where
  "find_first_of seps s i =
     (let n = length (takeWhile (\<lambda>x. x \<notin> set seps) (drop i s))
      in if i + n < length s then Some (i + n) else None)"

definition find_first_not_of :: "string \<Rightarrow> string \<Rightarrow> nat \<Rightarrow> nat option" where
  "find_first_not_of seps s i =
     (let n = length (takeWhile (\<lambda>x. x \<in> set seps) (drop i s))
      in if i + n < length s then Some (i + n) else None)"

definition ends_with :: "string \<Rightarrow> string \<Rightarrow> bool" where
  "ends_with s e = (length e \<le> length s \<and> drop (length s - length e) s = e)"

text \<open>\<open>s.resize(n)\<close>: cut, or padded with zero bytes.\<close>

definition nul :: char where
  "nul = char_of (0::nat)"

definition resize :: "string \<Rightarrow> nat \<Rightarrow> string" where
  "resize s n = take n s @ replicate (n - length s) nul"

lemma ends_with_append [simp, str_simps]: "ends_with (s @ e) e"
  by (simp add: ends_with_def)

lemma ends_with_iff: "ends_with s e \<longleftrightarrow> (\<exists>p. s = p @ e)"
proof
  assume "ends_with s e"
  then have "s = take (length s - length e) s @ e"
    unfolding ends_with_def by (metis append_take_drop_id)
  then show "\<exists>p. s = p @ e" by blast
qed auto

lemma resize_short [simp, str_simps]: "n \<le> length s \<Longrightarrow> resize s n = take n s"
  by (simp add: resize_def)

lemma length_resize [simp]: "length (resize s n) = n"
  by (simp add: resize_def)

lemma starts_with_iff: "starts_with s p \<longleftrightarrow> take (length p) s = p"
  by (induction s p rule: starts_with.induct) auto

lemma starts_with_append [simp, str_simps]: "starts_with (p @ s) p"
  by (simp add: starts_with_iff)

lemma find_char_Some_iff:
  "find_char c s i = Some n \<longleftrightarrow>
     i \<le> n \<and> n < length s \<and> s ! n = c \<and> (\<forall>k. i \<le> k \<longrightarrow> k < n \<longrightarrow> s ! k \<noteq> c)"
proof -
  let ?t = "takeWhile (\<lambda>x. x \<noteq> c) (drop i s)"
  have nth: "k < length ?t \<Longrightarrow> i + k < length s \<and> s ! (i + k) \<noteq> c" for k
  proof -
    assume k: "k < length ?t"
    have "length ?t \<le> length (drop i s)" by (rule length_takeWhile_le)
    with k have len: "i + k < length s" by simp
    have "drop i s ! k = ?t ! k" using k by (simp add: takeWhile_nth)
    moreover have "?t ! k \<in> set ?t" using k by (rule nth_mem)
    then have "?t ! k \<noteq> c" by (auto dest: set_takeWhileD)
    ultimately show ?thesis using len by simp
  qed
  have stop: "i + length ?t < length s \<Longrightarrow> s ! (i + length ?t) = c"
    using nth_length_takeWhile [of "\<lambda>x. x \<noteq> c" "drop i s"] by simp
  show ?thesis
  proof
    assume "find_char c s i = Some n"
    then have n: "n = i + length ?t" "n < length s"
      by (auto simp: find_char_def Let_def split: if_splits)
    moreover have "s ! k \<noteq> c" if "i \<le> k" "k < n" for k
      using nth [of "k - i"] that n by simp
    ultimately show "i \<le> n \<and> n < length s \<and> s ! n = c \<and> (\<forall>k. i \<le> k \<longrightarrow> k < n \<longrightarrow> s ! k \<noteq> c)"
      using stop by auto
  next
    assume R: "i \<le> n \<and> n < length s \<and> s ! n = c \<and> (\<forall>k. i \<le> k \<longrightarrow> k < n \<longrightarrow> s ! k \<noteq> c)"
    have "\<not> n < i + length ?t"
    proof
      assume "n < i + length ?t"
      with R have "n - i < length ?t" by linarith
      from nth [OF this] R show False by simp
    qed
    moreover have "\<not> i + length ?t < n" using R stop by auto
    ultimately have "n = i + length ?t" by simp
    then show "find_char c s i = Some n" using R by (simp add: find_char_def Let_def)
  qed
qed

lemma find_char_bounds: "find_char c s i = Some n \<Longrightarrow> i \<le> n \<and> n < length s"
  by (simp add: find_char_Some_iff)

lemma find_char_None_iff: "find_char c s i = None \<longleftrightarrow> c \<notin> set (drop i s)"
proof -
  have "find_char c s i = None \<longleftrightarrow> length (drop i s) \<le> length (takeWhile (\<lambda>x. x \<noteq> c) (drop i s))"
    by (auto simp: find_char_def Let_def)
  also have "\<dots> \<longleftrightarrow> takeWhile (\<lambda>x. x \<noteq> c) (drop i s) = drop i s"
    by (metis append_Nil2 append_eq_append_conv dual_order.antisym length_takeWhile_le
        takeWhile_dropWhile_id order_refl)
  also have "\<dots> \<longleftrightarrow> c \<notin> set (drop i s)"
    by (auto simp: takeWhile_eq_all_conv)
  finally show ?thesis .
qed

text \<open>\<open>find_str\<close>: the first occurrence, and what it becomes when the text grows.\<close>

lemma find_str_Some_bound: "find_str p s = Some n \<Longrightarrow> n + length p \<le> length s"
proof (induction s arbitrary: n)
  case (Cons x xs)
  show ?case
  proof (cases "starts_with (x # xs) p")
    case True
    then have "length (take (length p) (x # xs)) = length p" by (simp only: starts_with_iff)
    with Cons.prems True show ?thesis by auto
  next
    case False
    with Cons show ?thesis by fastforce
  qed
qed (simp split: if_splits)

lemma starts_with_extend: "starts_with s p \<Longrightarrow> starts_with (s @ t) p"
  by (induction s p rule: starts_with.induct) auto

lemma starts_with_shorten:
  "starts_with (s @ t) p \<Longrightarrow> length p \<le> length s \<Longrightarrow> starts_with s p"
  by (induction s p rule: starts_with.induct) auto

lemma find_str_extend: "find_str p s = Some n \<Longrightarrow> find_str p (s @ t) = Some n"
proof (induction s arbitrary: n)
  case Nil
  then show ?case by (cases t) (auto split: if_splits)
next
  case (Cons x xs)
  show ?case
  proof (cases "starts_with (x # xs) p")
    case True
    with Cons.prems starts_with_extend [OF True, of t] show ?thesis by simp
  next
    case False
    with Cons.prems obtain m where m: "find_str p xs = Some m" "n = Suc m" by auto
    have "n + length p \<le> length (x # xs)" using Cons.prems by (rule find_str_Some_bound)
    then have "length p \<le> length (x # xs)" by simp
    with False have "\<not> starts_with ((x # xs) @ t) p" using starts_with_shorten by blast
    with Cons.IH [OF m(1)] m(2) show ?thesis by simp
  qed
qed

lemma find_str_prefix_None:
  assumes "find_str p (s @ t) = Some n" and "length s < n + length p"
  shows "find_str p s = None"
  using assms find_str_extend [of p s _ t] find_str_Some_bound [of p s]
  by (cases "find_str p s") auto

lemma ends_with_find_str:
  assumes "ends_with s p" shows "find_str p s \<noteq> None"
proof -
  have "find_str p (q @ p) \<noteq> None" for q
  proof (induction q)
    case Nil
    then show ?case using starts_with_append [of p "[]"] by (cases p) auto
  qed auto
  then show ?thesis using assms by (auto simp: ends_with_iff)
qed

subsection \<open>Lists\<close>

text \<open>\<open>std::copy\<close> of \<open>ys\<close> over an array at position \<open>i\<close>, which must hold it.\<close>

definition overwrite :: "'a list \<Rightarrow> nat \<Rightarrow> 'a list \<Rightarrow> 'a list" where
  "overwrite xs i ys = take i xs @ ys @ drop (i + length ys) xs"

lemma length_overwrite [simp]:
  "i + length ys \<le> length xs \<Longrightarrow> length (overwrite xs i ys) = length xs"
  by (simp add: overwrite_def)

lemma take_overwrite [simp]:
  "i \<le> length xs \<Longrightarrow> take (i + length ys) (overwrite xs i ys) = take i xs @ ys"
  by (simp add: overwrite_def)

lemma fold_append_concat: "fold (\<lambda>x acc. acc @ f x) xs a = a @ concat (map f xs)"
  by (induction xs arbitrary: a) simp_all

lemma map_update_nth: "map f (xs[i := x]) = (map f xs)[i := f x]"
  by (rule map_update)

end
