(* ===== verification/Char_Conv.thy ===== *)
theory Char_Conv
  imports Prelude
begin

section \<open>Numbers and text (common/IOUtility)\<close>

text \<open>
  The integer conversions of \<open>common/IOUtility.h\<close>: \<open>toCharsBoost\<close> (both overloads),
  \<open>fromCharsBoost\<close>, \<open>fromChars\<close> at an unsigned integer type, \<open>removeNonDigits\<close>,
  \<open>operator<<\<close> for integers and for a size key, and \<open>getRequestId\<close>. An unsigned integer
  type of \<open>w\<close> bits is a \<^typ>\<open>nat\<close> below \<open>2 ^ w\<close>, and \<open>from_chars\<close> refuses what does not
  fit, as the library does. The lemmas give the round trips and the widths that the wire
  format relies on.
\<close>

definition TASK_MAX_SIZE :: nat where
  "TASK_MAX_SIZE = 10000"

definition CONV_BUFFER_SIZE :: nat where
  "CONV_BUFFER_SIZE = 32"

definition DEFAULT_NUMSTRING_SIZE :: nat where
  "DEFAULT_NUMSTRING_SIZE = 10"

subsection \<open>Digits\<close>

definition isdigit :: "char \<Rightarrow> bool" where
  "isdigit c = (48 \<le> (of_char c :: nat) \<and> (of_char c :: nat) \<le> 57)"

definition digit_char :: "nat \<Rightarrow> char" where
  "digit_char d = char_of (48 + d)"

definition digit_value :: "char \<Rightarrow> nat" where
  "digit_value c = of_char c - 48"

text \<open>The decimal text that \<open>to_chars\<close> writes for an unsigned value.\<close>

fun to_digits :: "nat \<Rightarrow> string" where
  "to_digits n =
     (if n < 10 then [digit_char n] else to_digits (n div 10) @ [digit_char (n mod 10)])"

declare to_digits.simps [simp del]

definition digits_value :: "string \<Rightarrow> nat" where
  "digits_value ds = foldl (\<lambda>a c. 10 * a + digit_value c) 0 ds"

text \<open>
  \<open>from_chars\<close> for an unsigned type of \<open>w\<close> bits: the longest prefix of digits, an error
  if it is empty or its value does not fit; the rest of the text is returned with the value.
\<close>

definition from_chars :: "nat \<Rightarrow> string \<Rightarrow> errc + nat \<times> string" where
  "from_chars w s =
     (let ds = takeWhile isdigit s in
      if ds = [] then Inl Invalid_Argument
      else if 2 ^ w \<le> digits_value ds then Inl Result_Out_Of_Range
      else Inr (digits_value ds, dropWhile isdigit s))"

lemma isdigit_digit_char [simp]: "d < 10 \<Longrightarrow> isdigit (digit_char d)"
  by (simp add: isdigit_def digit_char_def of_char_of)

lemma digit_value_digit_char [simp]: "d < 10 \<Longrightarrow> digit_value (digit_char d) = d"
  by (simp add: digit_value_def digit_char_def of_char_of)

lemma isdigit_nul [simp]: "\<not> isdigit nul"
  by (simp add: isdigit_def nul_def of_char_of)

lemma to_digits_nonempty [simp]: "to_digits n \<noteq> []"
  by (subst to_digits.simps) simp

lemma to_digits_isdigit: "c \<in> set (to_digits n) \<Longrightarrow> isdigit c"
proof (induction n rule: to_digits.induct)
  case (1 n)
  show ?case
  proof (cases "n < 10")
    case True
    with "1.prems" show ?thesis by (subst (asm) to_digits.simps) simp
  next
    case False
    with "1.prems" have "c \<in> set (to_digits (n div 10)) \<or> c = digit_char (n mod 10)"
      by (subst (asm) to_digits.simps) auto
    with "1.IH" False show ?thesis by auto
  qed
qed

lemma digits_value_snoc: "digits_value (ds @ [c]) = 10 * digits_value ds + digit_value c"
  by (simp add: digits_value_def)

lemma digits_value_to_digits [simp]: "digits_value (to_digits n) = n"
proof (induction n rule: to_digits.induct)
  case (1 n)
  show ?case
  proof (cases "n < 10")
    case True
    then show ?thesis by (subst to_digits.simps) (simp add: digits_value_def)
  next
    case False
    with "1.IH" show ?thesis
      by (subst to_digits.simps) (simp add: digits_value_snoc)
  qed
qed

lemma length_to_digits: "0 < k \<Longrightarrow> n < 10 ^ k \<Longrightarrow> length (to_digits n) \<le> k"
proof (induction n arbitrary: k rule: to_digits.induct)
  case (1 n)
  show ?case
  proof (cases "n < 10")
    case True
    with "1.prems" show ?thesis by (subst to_digits.simps) simp
  next
    case False
    with "1.prems" obtain j where k: "k = Suc j" "0 < j"
      by (cases k; cases "k - 1") auto
    with "1.prems" have "n div 10 < 10 ^ j" by (simp add: less_mult_imp_div_less mult.commute)
    with "1.IH" [of j] False k have "length (to_digits (n div 10)) \<le> j" by simp
    with False k show ?thesis by (subst to_digits.simps) simp
  qed
qed

lemma inj_to_digits: "to_digits m = to_digits n \<longleftrightarrow> m = n"
  by (metis digits_value_to_digits)

lemma takeWhile_digits:
  "(\<And>c. c \<in> set ds \<Longrightarrow> isdigit c) \<Longrightarrow> (rest = [] \<or> \<not> isdigit (hd rest)) \<Longrightarrow>
   takeWhile isdigit (ds @ rest) = ds \<and> dropWhile isdigit (ds @ rest) = rest"
  by (cases rest) (auto simp: takeWhile_append dropWhile_append)

text \<open>Reading back what was written, whatever follows, unless it starts with a digit.\<close>

lemma from_chars_to_digits:
  assumes "n < 2 ^ w" and "rest = [] \<or> \<not> isdigit (hd rest)"
  shows "from_chars w (to_digits n @ rest) = Inr (n, rest)"
  using takeWhile_digits [of "to_digits n" rest] assms to_digits_isdigit
  by (auto simp: from_chars_def Let_def)

subsection \<open>toCharsBoost\<close>

text \<open>
  \<open>boost::charconv::to_chars\<close> writes into a zeroed array of \<open>CONV_BUFFER_SIZE\<close> bytes;
  the result is its first \<open>DEFAULT_NUMSTRING_SIZE\<close> bytes when a fixed size is asked for,
  otherwise the digits. The conversion cannot fail: \<open>to_digits_fits\<close> below.
\<close>

definition toCharsBoost :: "nat \<Rightarrow> bool \<Rightarrow> string" where
  "toCharsBoost value fixedSize =
     (let digits = to_digits value;
          buffer = overwrite (replicate CONV_BUFFER_SIZE nul) 0 digits
      in take (if fixedSize then DEFAULT_NUMSTRING_SIZE else length digits) buffer)"

text \<open>The overload that writes into a caller's buffer.\<close>

definition toCharsBoost_to :: "nat \<Rightarrow> string \<Rightarrow> nat \<Rightarrow> string" where
  "toCharsBoost_to value buffer pos = overwrite buffer pos (to_digits value)"

lemma to_digits_fits: "n < 2 ^ 64 \<Longrightarrow> length (to_digits n) \<le> 20"
  by (rule length_to_digits) simp_all

lemma toCharsBoost_variable [simp]: "toCharsBoost n False = to_digits n"
  by (simp add: toCharsBoost_def overwrite_def Let_def)

lemma toCharsBoost_fixed:
  assumes "n < 10 ^ 10"
  shows "toCharsBoost n True = to_digits n @ replicate (10 - length (to_digits n)) nul"
proof -
  have "length (to_digits n) \<le> 10" using assms by (rule length_to_digits [rotated]) simp
  then show ?thesis
    by (simp add: toCharsBoost_def overwrite_def Let_def DEFAULT_NUMSTRING_SIZE_def
        CONV_BUFFER_SIZE_def)
qed

lemma length_toCharsBoost_fixed [simp]: "length (toCharsBoost n True) = 10"
  by (simp add: toCharsBoost_def overwrite_def Let_def DEFAULT_NUMSTRING_SIZE_def
      CONV_BUFFER_SIZE_def)

subsection \<open>fromCharsBoost and fromChars\<close>

definition fromCharsBoost :: "nat \<Rightarrow> string \<Rightarrow> nat result" where
  "fromCharsBoost w str =
     (case from_chars w str of
        Inl ec \<Rightarrow> Inl (Runtime_Error ''conversion failed'')
      | Inr (value, _) \<Rightarrow> Inr value)"

definition fromChars :: "nat \<Rightarrow> string \<Rightarrow> nat result" where
  "fromChars w str =
     (case from_chars w str of
        Inl ec \<Rightarrow> Inl (Conversion_Error ec)
      | Inr (value, _) \<Rightarrow> Inr value)"

lemma hd_replicate_nul: "replicate k nul = [] \<or> \<not> isdigit (hd (replicate k nul))"
  by (cases k) simp_all

lemma fromCharsBoost_fixed [simp]:
  assumes "n < 10 ^ 10"
  shows "fromCharsBoost 64 (toCharsBoost n True) = Inr n"
proof -
  have "n < 2 ^ 64" using assms by simp
  then have "from_chars 64 (toCharsBoost n True)
      = Inr (n, replicate (10 - length (to_digits n)) nul)"
    unfolding toCharsBoost_fixed [OF assms]
    by (rule from_chars_to_digits) (rule hd_replicate_nul)
  then show ?thesis by (simp add: fromCharsBoost_def)
qed

lemma fromChars_to_digits [simp]: "n < 2 ^ w \<Longrightarrow> fromChars w (to_digits n) = Inr n"
  using from_chars_to_digits [of n w "[]"] by (simp add: fromChars_def)

lemma fromChars_padded: "n < 2 ^ w \<Longrightarrow> fromChars w (to_digits n @ replicate k nul) = Inr n"
  using from_chars_to_digits [OF _ hd_replicate_nul, of n w k] by (simp add: fromChars_def)

subsection \<open>removeNonDigits, operator<< and getRequestId\<close>

definition removeNonDigits :: "string \<Rightarrow> string" where
  "removeNonDigits view = dropWhile (\<lambda>ch. \<not> isdigit ch) view"

text \<open>\<open>SIZETUPLE\<close> and the decimal text of a signed \<open>long\<close>.\<close>

type_synonym size_key = "nat \<times> nat"

definition show_long :: "int \<Rightarrow> string" where
  "show_long n = (if n < 0 then ''-'' @ to_digits (nat (- n)) else to_digits (nat n))"

definition show_size_key :: "size_key \<Rightarrow> string" where
  "show_size_key k =
     toCharsBoost (fst k) False @ ''x'' @ toCharsBoost (snd k) False"

text \<open>
  The table of identifiers \<open>[0]\<close> to \<open>[9999]\<close>, filled on the first call; an index past its
  end is an access outside the array.
\<close>

definition getRequestId :: "nat \<Rightarrow> string result" where
  "getRequestId index =
     (if index < TASK_MAX_SIZE then Inr (''['' @ toCharsBoost index False @ '']'')
      else Inl Undefined_Behaviour)"

lemma removeNonDigits_hd: "removeNonDigits s \<noteq> [] \<Longrightarrow> isdigit (hd (removeNonDigits s))"
  using hd_dropWhile [of "\<lambda>ch. \<not> isdigit ch" s] by (auto simp: removeNonDigits_def)

lemma from_chars_removeNonDigits:
  "from_chars w (removeNonDigits s) = Inl Invalid_Argument \<longleftrightarrow> (\<forall>c \<in> set s. \<not> isdigit c)"
proof -
  have "takeWhile isdigit (removeNonDigits s) = [] \<longleftrightarrow> removeNonDigits s = []"
    using removeNonDigits_hd [of s] by (cases "removeNonDigits s") auto
  also have "\<dots> \<longleftrightarrow> (\<forall>c \<in> set s. \<not> isdigit c)"
    by (simp add: removeNonDigits_def)
  finally show ?thesis by (auto simp: from_chars_def Let_def)
qed

end
