(* ===== verification/Headers.thy ===== *)
theory Headers
  imports Char_Conv
begin

section \<open>Message headers (common/Header)\<close>

text \<open>
  The enumerations of \<open>common/Header.h\<close> with their wire codes, the \<open>HEADER\<close> tuple as a
  record, its accessors, the translations from configuration strings, and the codec
  \<open>serialize\<close> / \<open>deserialize\<close> of the 44-byte text form. Names that the sources qualify with
  the enumeration (\<open>HEADERTYPE::NONE\<close>) carry a prefix here.

  The locale \<open>wire_enum\<close> is the contract of \<open>deserializeEnumeration\<close>, the template whose
  comment says that it works if there are no gaps in the values; it is interpreted for each
  of the four enumerations that travel in a header.
\<close>

definition HEADERTYPE_SIZE :: nat where "HEADERTYPE_SIZE = 1"
definition FIELD1_SIZE :: nat where "FIELD1_SIZE = 10"
definition FIELD2_SIZE :: nat where "FIELD2_SIZE = 10"
definition COMPRESSOR_SIZE :: nat where "COMPRESSOR_SIZE = 1"
definition DIAGNOSTICS_SIZE :: nat where "DIAGNOSTICS_SIZE = 1"
definition STATUS_SIZE :: nat where "STATUS_SIZE = 1"
definition FIELD3_SIZE :: nat where "FIELD3_SIZE = 10"
definition FIELD4_SIZE :: nat where "FIELD4_SIZE = 10"

definition HEADER_SIZE :: nat where
  "HEADER_SIZE = HEADERTYPE_SIZE + FIELD1_SIZE + FIELD2_SIZE + COMPRESSOR_SIZE +
     DIAGNOSTICS_SIZE + STATUS_SIZE + FIELD3_SIZE + FIELD4_SIZE"

lemmas header_sizes = HEADERTYPE_SIZE_def FIELD1_SIZE_def FIELD2_SIZE_def COMPRESSOR_SIZE_def
  DIAGNOSTICS_SIZE_def STATUS_SIZE_def FIELD3_SIZE_def FIELD4_SIZE_def

lemma HEADER_SIZE_44: "HEADER_SIZE = 44"
  by (simp add: HEADER_SIZE_def header_sizes)

subsection \<open>Enumerations\<close>

datatype HEADERTYPE =
    HT_INVALIDLOW | HT_NONE | AUTHENTICATE | DH_HANDSHAKE | HEARTBEAT | SESSION
  | HT_ERROR | HT_INVALIDHIGH

datatype APPTYPE = TESTS | SERVER | CLIENT

datatype CRYPTO = CRYPTOSODIUM | CRYPTOPP | CRYPTO_NONE | CRYPTO_ERROR

datatype COMPRESSORS =
    COMPR_INVALIDLOW | COMPR_NONE | LZ4 | SNAPPY | ZSTD | COMPR_INVALIDHIGH

datatype DIAGNOSTICS = DIAG_INVALIDLOW | DIAG_NONE | DIAG_ENABLED | DIAG_INVALIDHIGH

datatype STATUS =
    ST_INVALIDLOW | ST_NONE | SUBTASK_DONE | TASK_DONE | BAD_HEADER | COMPRESSION_PROBLEM
  | ENCRYPTION_PROBLEM | DECRYPTION_PROBLEM | DECOMPRESSION_PROBLEM | FIFO_PROBLEM
  | TCP_PROBLEM | TCP_TIMEOUT | HEARTBEAT_PROBLEM | HEARTBEAT_TIMEOUT | MAX_TOTAL_OBJECTS
  | MAX_OBJECTS_OF_TYPE | SESSION_STOPPED | STOPPED | ST_ERROR | ST_INVALIDHIGH

datatype CLIENT_TYPE = TCPCLIENT | FIFOCLIENT | CLIENT_ERROR

text \<open>
  The enumerators in the order of their declaration; the first has the code of \<open>'@'\<close>, which
  is 64, and each next one the following code. \<open>std::to_underlying\<close> is the code.
\<close>

definition HEADERTYPE_values :: "HEADERTYPE list" where
  "HEADERTYPE_values = [HT_INVALIDLOW, HT_NONE, AUTHENTICATE, DH_HANDSHAKE, HEARTBEAT, SESSION,
     HT_ERROR, HT_INVALIDHIGH]"

definition COMPRESSORS_values :: "COMPRESSORS list" where
  "COMPRESSORS_values = [COMPR_INVALIDLOW, COMPR_NONE, LZ4, SNAPPY, ZSTD, COMPR_INVALIDHIGH]"

definition DIAGNOSTICS_values :: "DIAGNOSTICS list" where
  "DIAGNOSTICS_values = [DIAG_INVALIDLOW, DIAG_NONE, DIAG_ENABLED, DIAG_INVALIDHIGH]"

definition STATUS_values :: "STATUS list" where
  "STATUS_values = [ST_INVALIDLOW, ST_NONE, SUBTASK_DONE, TASK_DONE, BAD_HEADER,
     COMPRESSION_PROBLEM, ENCRYPTION_PROBLEM, DECRYPTION_PROBLEM, DECOMPRESSION_PROBLEM,
     FIFO_PROBLEM, TCP_PROBLEM, TCP_TIMEOUT, HEARTBEAT_PROBLEM, HEARTBEAT_TIMEOUT,
     MAX_TOTAL_OBJECTS, MAX_OBJECTS_OF_TYPE, SESSION_STOPPED, STOPPED, ST_ERROR,
     ST_INVALIDHIGH]"

definition to_underlying :: "'e list \<Rightarrow> 'e \<Rightarrow> char" where
  "to_underlying values e = char_of (64 + length (takeWhile (\<lambda>x. x \<noteq> e) values))"

text \<open>\<open>char\<close> is signed on the platform of the build, and the range check compares its values.\<close>

definition schar :: "char \<Rightarrow> int" where
  "schar c = (let n = of_char c in if n < 128 then int n else int n - 256)"

definition deserializeEnumeration :: "'e list \<Rightarrow> char \<Rightarrow> 'e option" where
  "deserializeEnumeration values code =
     (if schar code \<le> schar (to_underlying values (hd values)) \<or>
         schar code \<ge> schar (to_underlying values (last values))
      then None
      else Some (values ! (of_char code - 64)))"

subsection \<open>The contract of an enumeration on the wire\<close>

locale wire_enum =
  fixes elems :: "'e list"
  assumes distinct_elems: "distinct elems"
    and covers: "e \<in> set elems"
    and wire_small: "2 \<le> length elems" "length elems \<le> 64"
begin

lemma takeWhile_position:
  assumes "k < length elems"
  shows "length (takeWhile (\<lambda>x. x \<noteq> elems ! k) elems) = k"
proof -
  have "takeWhile (\<lambda>x. x \<noteq> elems ! k) elems = take k elems"
    using assms distinct_elems
    by (intro takeWhile_eq_take_P_nth) (auto simp: nth_eq_iff_index_eq)
  then show ?thesis using assms by simp
qed

lemma to_underlying_nth: "k < length elems \<Longrightarrow> to_underlying elems (elems ! k) = char_of (64 + k)"
  by (simp add: to_underlying_def takeWhile_position)

lemma schar_code: "k < 64 \<Longrightarrow> schar (char_of (64 + k)) = int (64 + k)"
  by (simp add: schar_def of_char_of)

lemma ends_code:
  "schar (to_underlying elems (hd elems)) = 64"
  "schar (to_underlying elems (last elems)) = int (63 + length elems)"
proof -
  have ne: "elems \<noteq> []" using wire_small by auto
  show "schar (to_underlying elems (hd elems)) = 64"
    using to_underlying_nth [of 0] schar_code [of 0] ne wire_small by (simp add: hd_conv_nth)
  show "schar (to_underlying elems (last elems)) = int (63 + length elems)"
    using to_underlying_nth [of "length elems - 1"] schar_code [of "length elems - 1"] ne wire_small
    by (simp add: last_conv_nth)
qed

text \<open>Every enumerator but the two bounds is read back from its own code.\<close>

lemma deserialize_to_underlying:
  assumes "e \<noteq> hd elems" and "e \<noteq> last elems"
  shows "deserializeEnumeration elems (to_underlying elems e) = Some e"
proof -
  have ne: "elems \<noteq> []" using wire_small by auto
  obtain k where k: "k < length elems" "elems ! k = e"
    using covers [of e] by (auto simp: in_set_conv_nth)
  have "0 < k" using k assms(1) ne by (cases k) (auto simp: hd_conv_nth)
  moreover have "k \<noteq> length elems - 1" using k assms(2) ne by (auto simp: last_conv_nth)
  ultimately have "schar (char_of (64 + k)) > 64" "schar (char_of (64 + k)) < int (63 + length elems)"
    using k(1) wire_small schar_code [of k] by auto
  moreover have "(of_char (char_of (64 + k)) :: nat) = 64 + k"
    using k(1) wire_small by (simp add: of_char_of)
  ultimately show ?thesis
    using to_underlying_nth [OF k(1)] k ends_code by (simp add: deserializeEnumeration_def)
qed

text \<open>Nothing else is accepted: a code that is read stands for the enumerator it reads as.\<close>

lemma deserialize_sound:
  assumes "deserializeEnumeration elems code = Some e"
  shows "to_underlying elems e = code \<and> e \<noteq> hd elems \<and> e \<noteq> last elems"
proof -
  let ?k = "of_char code - 64 :: nat"
  have ne: "elems \<noteq> []" using wire_small by auto
  have b: "64 < schar code" "schar code < int (63 + length elems)"
    and e: "e = elems ! ?k"
    using assms ends_code by (auto simp: deserializeEnumeration_def split: if_splits)
  have "(of_char code :: nat) < 128"
  proof (rule ccontr)
    assume "\<not> (of_char code :: nat) < 128"
    then have "schar code = int (of_char code) - 256" by (simp add: schar_def Let_def)
    with b(1) nat_of_char_less_256 [of code] show False by linarith
  qed
  then have sc: "schar code = int (of_char code)" by (simp add: schar_def Let_def)
  then have k: "0 < ?k" "?k < length elems - 1" "64 + ?k = of_char code"
    using b by auto
  then have "to_underlying elems e = code"
    using to_underlying_nth [of ?k] e by simp
  moreover have "e \<noteq> hd elems" "e \<noteq> last elems"
    using k e distinct_elems ne by (auto simp: hd_conv_nth last_conv_nth nth_eq_iff_index_eq)
  ultimately show ?thesis by simp
qed

lemma deserialize_iff:
  "deserializeEnumeration elems code = Some e \<longleftrightarrow>
     e \<noteq> hd elems \<and> e \<noteq> last elems \<and> code = to_underlying elems e"
  using deserialize_sound deserialize_to_underlying by blast

end

interpretation headertype_wire: wire_enum HEADERTYPE_values
proof unfold_locales
  show "e \<in> set HEADERTYPE_values" for e by (cases e) (simp_all add: HEADERTYPE_values_def)
qed (simp_all add: HEADERTYPE_values_def)

interpretation compressors_wire: wire_enum COMPRESSORS_values
proof unfold_locales
  show "e \<in> set COMPRESSORS_values" for e by (cases e) (simp_all add: COMPRESSORS_values_def)
qed (simp_all add: COMPRESSORS_values_def)

interpretation diagnostics_wire: wire_enum DIAGNOSTICS_values
proof unfold_locales
  show "e \<in> set DIAGNOSTICS_values" for e by (cases e) (simp_all add: DIAGNOSTICS_values_def)
qed (simp_all add: DIAGNOSTICS_values_def)

interpretation status_wire: wire_enum STATUS_values
proof unfold_locales
  show "e \<in> set STATUS_values" for e by (cases e) (simp_all add: STATUS_values_def)
qed (simp_all add: STATUS_values_def)

subsection \<open>The header and its accessors\<close>

text \<open>\<open>using HEADER = std::tuple<...>\<close>, its components in the order of the tuple.\<close>

record HEADER =
  header_type :: HEADERTYPE
  field1_size :: nat
  field2_size :: nat
  header_compressor :: COMPRESSORS
  header_diagnostics :: DIAGNOSTICS
  header_status :: STATUS
  field3_size :: nat
  field4_size :: nat

definition extractHeaderType :: "HEADER \<Rightarrow> HEADERTYPE" where
  "extractHeaderType header = header_type header"

definition extractField1Size :: "HEADER \<Rightarrow> nat" where
  "extractField1Size header = field1_size header"

definition extractField2Size :: "HEADER \<Rightarrow> nat" where
  "extractField2Size header = field2_size header"

definition extractCompressor :: "HEADER \<Rightarrow> COMPRESSORS" where
  "extractCompressor header = header_compressor header"

definition isCompressed :: "HEADER \<Rightarrow> bool" where
  "isCompressed header =
     (case extractCompressor header of
        LZ4 \<Rightarrow> True | SNAPPY \<Rightarrow> True | ZSTD \<Rightarrow> True | _ \<Rightarrow> False)"

definition extractDiagnostics :: "HEADER \<Rightarrow> DIAGNOSTICS" where
  "extractDiagnostics header = header_diagnostics header"

definition isDiagnosticsEnabled :: "HEADER \<Rightarrow> bool" where
  "isDiagnosticsEnabled header = (header_diagnostics header = DIAG_ENABLED)"

definition extractStatus :: "HEADER \<Rightarrow> STATUS" where
  "extractStatus header = header_status header"

definition extractField3Size :: "HEADER \<Rightarrow> nat" where
  "extractField3Size header = field3_size header"

definition extractField4Size :: "HEADER \<Rightarrow> nat" where
  "extractField4Size header = field4_size header"

definition isOk :: "HEADER \<Rightarrow> bool" where
  "isOk header =
     (case extractStatus header of
        ST_NONE \<Rightarrow> True | MAX_TOTAL_OBJECTS \<Rightarrow> True | MAX_OBJECTS_OF_TYPE \<Rightarrow> True | _ \<Rightarrow> False)"

lemmas header_accessors = extractHeaderType_def extractField1Size_def extractField2Size_def
  extractCompressor_def extractDiagnostics_def extractStatus_def extractField3Size_def
  extractField4Size_def

subsection \<open>Configuration strings\<close>

definition translateClientType :: "string \<Rightarrow> CLIENT_TYPE" where
  "translateClientType s =
     (if s = ''TCP'' then TCPCLIENT else if s = ''FIFO'' then FIFOCLIENT else CLIENT_ERROR)"

definition translateCryptoString :: "string \<Rightarrow> CRYPTO" where
  "translateCryptoString s =
     (if s = ''CRYPTOSODIUM'' then CRYPTOSODIUM
      else if s = ''CRYPTOPP'' then CRYPTOPP
      else if s = ''NONE'' then CRYPTO_NONE
      else CRYPTO_ERROR)"

definition translateCompressorString :: "string \<Rightarrow> COMPRESSORS" where
  "translateCompressorString s =
     (if s = ''LZ4'' then LZ4
      else if s = ''SNAPPY'' then SNAPPY
      else if s = ''ZSTD'' then ZSTD
      else COMPR_NONE)"

definition translateDiagnosticsString :: "string \<Rightarrow> DIAGNOSTICS" where
  "translateDiagnosticsString s = (if s = ''Enabled'' then DIAG_ENABLED else DIAG_NONE)"

subsection \<open>The codec\<close>

definition serialize :: "HEADER \<Rightarrow> string" where
  "serialize header =
     [to_underlying HEADERTYPE_values (extractHeaderType header)]
     @ toCharsBoost (extractField1Size header) True
     @ toCharsBoost (extractField2Size header) True
     @ [to_underlying COMPRESSORS_values (extractCompressor header)]
     @ [to_underlying DIAGNOSTICS_values (extractDiagnostics header)]
     @ [to_underlying STATUS_values (extractStatus header)]
     @ toCharsBoost (extractField3Size header) True
     @ toCharsBoost (extractField4Size header) True"

text \<open>
  \<open>deserialize\<close> overwrites the header it is given, component by component, so a refused
  buffer leaves the components read before it changed: the result is the header after the
  call and the returned flag. A conversion error is thrown. The function reads
  \<open>HEADER_SIZE\<close> bytes from a raw pointer; a shorter buffer is an access past its end.
  The last component is converted from \<open>strp\<close>, the text of the third size, as the source does.
\<close>

definition deserialize :: "HEADER \<Rightarrow> string \<Rightarrow> (HEADER \<times> bool) result" where
  "deserialize header buffer =
    (if length buffer < HEADER_SIZE then Inl Undefined_Behaviour else
     let offset = 0 in
     (case deserializeEnumeration HEADERTYPE_values (buffer ! offset) of
        None \<Rightarrow> Inr (header, False)
      | Some t \<Rightarrow>
     let header = header\<lparr>header_type := t\<rparr>;
         offset = offset + HEADERTYPE_SIZE;
         strz = substr buffer offset FIELD1_SIZE in
     bindE (fromCharsBoost 64 strz) (\<lambda>f1.
     let header = header\<lparr>field1_size := f1\<rparr>;
         offset = offset + FIELD1_SIZE;
         stru = substr buffer offset FIELD2_SIZE in
     bindE (fromCharsBoost 64 stru) (\<lambda>f2.
     let header = header\<lparr>field2_size := f2\<rparr>;
         offset = offset + FIELD2_SIZE in
     (case deserializeEnumeration COMPRESSORS_values (buffer ! offset) of
        None \<Rightarrow> Inr (header, False)
      | Some c \<Rightarrow>
     let header = header\<lparr>header_compressor := c\<rparr>;
         offset = offset + COMPRESSOR_SIZE in
     (case deserializeEnumeration DIAGNOSTICS_values (buffer ! offset) of
        None \<Rightarrow> Inr (header, False)
      | Some d \<Rightarrow>
     let header = header\<lparr>header_diagnostics := d\<rparr>;
         offset = offset + DIAGNOSTICS_SIZE in
     (case deserializeEnumeration STATUS_values (buffer ! offset) of
        None \<Rightarrow> Inr (header, False)
      | Some st \<Rightarrow>
     let header = header\<lparr>header_status := st\<rparr>;
         offset = offset + STATUS_SIZE;
         strp = substr buffer offset FIELD3_SIZE in
     bindE (fromCharsBoost 64 strp) (\<lambda>f3.
     let header = header\<lparr>field3_size := f3\<rparr>;
         offset = offset + FIELD3_SIZE;
         strq = substr buffer offset FIELD4_SIZE in
     bindE (fromCharsBoost 64 strp) (\<lambda>f4.
     Inr (header\<lparr>field4_size := f4\<rparr>, True))))))))))"

lemma length_serialize [simp]: "length (serialize h) = 44"
  by (simp add: serialize_def)

text \<open>
  The headers the program builds: enumerators other than the bounds, sizes that ten digits hold.
\<close>

definition header_wf :: "HEADER \<Rightarrow> bool" where
  "header_wf h \<longleftrightarrow>
     header_type h \<notin> {HT_INVALIDLOW, HT_INVALIDHIGH} \<and>
     header_compressor h \<notin> {COMPR_INVALIDLOW, COMPR_INVALIDHIGH} \<and>
     header_diagnostics h \<notin> {DIAG_INVALIDLOW, DIAG_INVALIDHIGH} \<and>
     header_status h \<notin> {ST_INVALIDLOW, ST_INVALIDHIGH} \<and>
     field1_size h < 10 ^ 10 \<and> field2_size h < 10 ^ 10 \<and>
     field3_size h < 10 ^ 10 \<and> field4_size h < 10 ^ 10"

text \<open>Reading back one part of the serialized header, whatever follows the header.\<close>

lemma serialize_parts:
  "(serialize h @ rest) ! 0 = to_underlying HEADERTYPE_values (header_type h)"
  "substr (serialize h @ rest) 1 10 = toCharsBoost (field1_size h) True"
  "substr (serialize h @ rest) 11 10 = toCharsBoost (field2_size h) True"
  "(serialize h @ rest) ! 21 = to_underlying COMPRESSORS_values (header_compressor h)"
  "(serialize h @ rest) ! 22 = to_underlying DIAGNOSTICS_values (header_diagnostics h)"
  "(serialize h @ rest) ! 23 = to_underlying STATUS_values (header_status h)"
  "substr (serialize h @ rest) 24 10 = toCharsBoost (field3_size h) True"
  "substr (serialize h @ rest) 34 10 = toCharsBoost (field4_size h) True"
  by (simp_all add: serialize_def substr_def header_accessors nth_append)

lemma deserialize_serialize_rest:
  assumes "header_wf h"
  shows "deserialize h0 (serialize h @ rest) =
    Inr (h0\<lparr>header_type := header_type h, field1_size := field1_size h,
            field2_size := field2_size h, header_compressor := header_compressor h,
            header_diagnostics := header_diagnostics h, header_status := header_status h,
            field3_size := field3_size h, field4_size := field3_size h\<rparr>, True)"
proof -
  have enums:
    "deserializeEnumeration HEADERTYPE_values (to_underlying HEADERTYPE_values (header_type h))
       = Some (header_type h)"
    "deserializeEnumeration COMPRESSORS_values
       (to_underlying COMPRESSORS_values (header_compressor h)) = Some (header_compressor h)"
    "deserializeEnumeration DIAGNOSTICS_values
       (to_underlying DIAGNOSTICS_values (header_diagnostics h)) = Some (header_diagnostics h)"
    "deserializeEnumeration STATUS_values (to_underlying STATUS_values (header_status h))
       = Some (header_status h)"
    using assms
    by (auto simp: header_wf_def HEADERTYPE_values_def COMPRESSORS_values_def
        DIAGNOSTICS_values_def STATUS_values_def
        intro!: headertype_wire.deserialize_to_underlying [unfolded HEADERTYPE_values_def]
          compressors_wire.deserialize_to_underlying [unfolded COMPRESSORS_values_def]
          diagnostics_wire.deserialize_to_underlying [unfolded DIAGNOSTICS_values_def]
          status_wire.deserialize_to_underlying [unfolded STATUS_values_def])
  have sizes: "field1_size h < 10 ^ 10" "field2_size h < 10 ^ 10" "field3_size h < 10 ^ 10"
    using assms by (simp_all add: header_wf_def)
  show ?thesis
    using enums sizes
    by (simp add: deserialize_def HEADER_SIZE_44 header_sizes Let_def serialize_parts
        serialize_parts [unfolded One_nat_def])
qed

subsection \<open>The round trip\<close>

text \<open>
  C11: A header that is written and read again keeps every component but the last: whatever follows it
  and whatever the header held before, the fourth size is the third one.
\<close>

theorem header_roundtrip:
  assumes "header_wf h"
  shows "deserialize h0 (serialize h @ rest) = Inr (h\<lparr>field4_size := field3_size h\<rparr>, True)"
  using deserialize_serialize_rest [OF assms, of h0 rest] by (cases h, cases h0) simp

definition auth_header :: HEADER where
  "auth_header = \<lparr>header_type = AUTHENTICATE, field1_size = 96, field2_size = 44, header_compressor = COMPR_NONE,
     header_diagnostics = DIAG_NONE, header_status = ST_NONE, field3_size = 548, field4_size = 65\<rparr>"

lemma auth_header_wf: "header_wf auth_header"
  by (simp add: header_wf_def auth_header_def)

lemma header_roundtrip_witness:
  "deserialize auth_header (serialize auth_header @ ''abc'') = Inr (auth_header\<lparr>field4_size := 548\<rparr>, True)"
  using header_roundtrip [OF auth_header_wf, of auth_header "''abc''"] by (simp add: auth_header_def)

text \<open>
  The enumerations on the wire: a code is read as the enumerator that has it, and nothing but a
  proper enumerator, one between the two bounds, is ever read.
\<close>

theorem enumerations_read_back:
  "(deserializeEnumeration HEADERTYPE_values c = Some t \<longleftrightarrow>
     t \<noteq> HT_INVALIDLOW \<and> t \<noteq> HT_INVALIDHIGH \<and> c = to_underlying HEADERTYPE_values t) \<and>
   (deserializeEnumeration COMPRESSORS_values c = Some z \<longleftrightarrow>
     z \<noteq> COMPR_INVALIDLOW \<and> z \<noteq> COMPR_INVALIDHIGH \<and> c = to_underlying COMPRESSORS_values z) \<and>
   (deserializeEnumeration DIAGNOSTICS_values c = Some d \<longleftrightarrow>
     d \<noteq> DIAG_INVALIDLOW \<and> d \<noteq> DIAG_INVALIDHIGH \<and> c = to_underlying DIAGNOSTICS_values d) \<and>
   (deserializeEnumeration STATUS_values c = Some st \<longleftrightarrow>
     st \<noteq> ST_INVALIDLOW \<and> st \<noteq> ST_INVALIDHIGH \<and> c = to_underlying STATUS_values st)"
  by (simp_all add: headertype_wire.deserialize_iff compressors_wire.deserialize_iff
      diagnostics_wire.deserialize_iff status_wire.deserialize_iff)
    (simp_all add: HEADERTYPE_values_def COMPRESSORS_values_def DIAGNOSTICS_values_def STATUS_values_def)

end
