(* ===== verification/Logger.thy ===== *)
theory Logger
  imports Headers
begin

section \<open>The logger (Logger)\<close>

text \<open>
  A statement of the program that logs makes a temporary \<open>Logger\<close> with a level, lets it print the
  place in the sources and then the values, and destroys it, which hands the text over to the
  stream. What is below the threshold prints nothing.

  The threshold is static and the text of \<open>printLocation\<close> is a static of each thread: both are in
  the record \<open>logging\<close>. The standard library's text of a value is the argument of \<open>log_value\<close>;
  for an enumerator it is that of its underlying value. A failure of the stream, which both
  functions catch, is not modelled.
\<close>

subsection \<open>Levels\<close>

datatype LOG_LEVEL = TRACE | DEBUG | INFO | WARN | EXPECTED | ERROR | ALWAYS | INVALID

definition LOG_LEVEL_values :: "LOG_LEVEL list" where
  "LOG_LEVEL_values = [TRACE, DEBUG, INFO, WARN, EXPECTED, ERROR, ALWAYS, INVALID]"

definition level_index :: "LOG_LEVEL \<Rightarrow> nat" where
  "level_index level = length (takeWhile (\<lambda>x. x \<noteq> level) LOG_LEVEL_values)"

lemma level_index_simps [simp]:
  "level_index TRACE = 0" "level_index DEBUG = 1" "level_index INFO = 2" "level_index WARN = 3"
  "level_index EXPECTED = 4" "level_index ERROR = 5" "level_index ALWAYS = 6" "level_index INVALID = 7"
  by (simp_all add: level_index_def LOG_LEVEL_values_def)

lemma level_index_inj [simp]: "level_index a = level_index b \<longleftrightarrow> a = b"
  by (cases a; cases b) simp_all

text \<open>Enumerators of a scoped enumeration are compared by their values.\<close>

instantiation LOG_LEVEL :: linorder
begin

definition less_eq_LOG_LEVEL :: "LOG_LEVEL \<Rightarrow> LOG_LEVEL \<Rightarrow> bool" where
  "a \<le> b \<longleftrightarrow> level_index a \<le> level_index b"

definition less_LOG_LEVEL :: "LOG_LEVEL \<Rightarrow> LOG_LEVEL \<Rightarrow> bool" where
  "a < b \<longleftrightarrow> level_index a < level_index b"

instance
  by standard (auto simp: less_eq_LOG_LEVEL_def less_LOG_LEVEL_def intro: antisym)

end

lemmas level_order = less_eq_LOG_LEVEL_def less_LOG_LEVEL_def

definition levelNames :: "string list" where
  "levelNames = [''TRACE'', ''DEBUG'', ''INFO'', ''WARN'', ''EXPECTED'', ''ERROR'', ''ALWAYS'', ''INVALID'']"

text \<open>Another name leaves the threshold as it is.\<close>

definition translateLogThreshold :: "string \<Rightarrow> LOG_LEVEL \<Rightarrow> LOG_LEVEL" where
  "translateLogThreshold configName threshold =
     (if ''TRACE'' = configName then TRACE
      else if ''DEBUG'' = configName then DEBUG
      else if ''INFO'' = configName then INFO
      else if ''WARN'' = configName then WARN
      else if ''EXPECTED'' = configName then EXPECTED
      else if ''ERROR'' = configName then ERROR
      else if ''ALWAYS'' = configName then ALWAYS
      else threshold)"

subsection \<open>Statements that log\<close>

record source_location =
  loc_file :: string
  loc_line :: nat
  loc_function :: string

record logging =
  lt_threshold :: LOG_LEVEL
  lt_output :: string

record logger =
  lg_level :: LOG_LEVEL
  lg_displayLocation :: bool
  lg_stream :: string

definition Logger_new :: "LOG_LEVEL \<Rightarrow> bool \<Rightarrow> logger" where
  "Logger_new level displayLocation =
     \<lparr>lg_level = level, lg_displayLocation = displayLocation, lg_stream = []\<rparr>"

definition location_text :: "LOG_LEVEL \<Rightarrow> source_location \<Rightarrow> string" where
  "location_text level loc =
     ''['' @ levelNames ! level_index level @ '']'' @ '' '' @ loc_file loc @ '':'' @
     to_digits (loc_line loc) @ '' '' @ loc_function loc @ '' ''"

text \<open>The text is appended to what the thread has collected before, and all of it is written.\<close>

definition printLocation :: "source_location \<Rightarrow> logger \<Rightarrow> logging \<Rightarrow> logger \<times> logging" where
  "printLocation loc lg st =
     (if lg_level lg < lt_threshold st \<or> \<not> lg_displayLocation lg then (lg, st)
      else let output = lt_output st @ location_text (lg_level lg) loc
           in (lg\<lparr>lg_stream := lg_stream lg @ output\<rparr>, st\<lparr>lt_output := output\<rparr>))"

definition log_value :: "logging \<Rightarrow> string \<Rightarrow> logger \<Rightarrow> logger" where
  "log_value st v lg = (if lt_threshold st \<le> lg_level lg then lg\<lparr>lg_stream := lg_stream lg @ v\<rparr> else lg)"

datatype log_stream = Clog | Cerr

text \<open>The macros, \<open>LogError\<close> and \<open>Warn\<close> with another stream; at the end the logger is destroyed.\<close>

definition stream_of :: "LOG_LEVEL \<Rightarrow> log_stream" where
  "stream_of level = (if level \<in> {ERROR, WARN} then Cerr else Clog)"

definition log_line ::
  "LOG_LEVEL \<Rightarrow> source_location \<Rightarrow> string list \<Rightarrow> logging \<Rightarrow> (log_stream \<times> string) \<times> logging" where
  "log_line level loc vs st =
     (let (lg, st) = printLocation loc (Logger_new level True) st;
          lg = fold (log_value st) vs lg
      in ((stream_of level, lg_stream lg), st))"

fun log_lines ::
  "(LOG_LEVEL \<times> source_location \<times> string list) list \<Rightarrow> logging \<Rightarrow> (log_stream \<times> string) list \<times> logging" where
  "log_lines [] st = ([], st)"
| "log_lines ((level, loc, vs) # stmts) st =
     (let (line, st) = log_line level loc vs st; (lines, st) = log_lines stmts st in (line # lines, st))"

text \<open>\<open>printTuple\<close> over the texts of the components; past the last one it throws.\<close>

fun printTuple :: "logging \<Rightarrow> string list \<Rightarrow> logger \<Rightarrow> logger result" where
  "printTuple st [] lg = Inl (Runtime_Error ''Out of bounds'')"
| "printTuple st [v] lg = Inr (log_value st [CHR 0x0A] (log_value st v lg))"
| "printTuple st (v # vs) lg = printTuple st vs (log_value st '','' (log_value st v lg))"

definition header_texts :: "HEADER \<Rightarrow> string list" where
  "header_texts h =
     [[to_underlying HEADERTYPE_values (header_type h)], to_digits (field1_size h), to_digits (field2_size h),
      [to_underlying COMPRESSORS_values (header_compressor h)], [to_underlying DIAGNOSTICS_values (header_diagnostics h)],
      [to_underlying STATUS_values (header_status h)], to_digits (field3_size h), to_digits (field4_size h)]"

definition printHeader :: "HEADER \<Rightarrow> LOG_LEVEL \<Rightarrow> logging \<Rightarrow> string result" where
  "printHeader header level st =
     map_sum id lg_stream (printTuple st (header_texts header)
       (log_value st (CHR 0x0A # ''header:'' @ [CHR 0x0A]) (Logger_new level False)))"

subsection \<open>What is printed\<close>

lemma log_value_fields [simp]:
  "lg_level (log_value st v lg) = lg_level lg" "lg_displayLocation (log_value st v lg) = lg_displayLocation lg"
  "lg_stream (log_value st v lg) = lg_stream lg @ (if lt_threshold st \<le> lg_level lg then v else [])"
  by (simp_all add: log_value_def)

lemma log_values [simp]:
  "lg_level (fold (log_value st) vs lg) = lg_level lg"
  "lg_stream (fold (log_value st) vs lg) =
     lg_stream lg @ (if lt_threshold st \<le> lg_level lg then concat vs else [])"
  by (induction vs arbitrary: lg) simp_all

lemma log_line_quiet: "level < lt_threshold st \<Longrightarrow> log_line level loc vs st = ((stream_of level, []), st)"
  by (auto simp: log_line_def printLocation_def Logger_new_def split_beta dest: leD)

lemma log_line_written:
  assumes "lt_threshold st \<le> level"
  shows "log_line level loc vs st =
    ((stream_of level, lt_output st @ location_text level loc @ concat vs),
     st\<lparr>lt_output := lt_output st @ location_text level loc\<rparr>)"
  using assms by (simp add: log_line_def printLocation_def Logger_new_def split_beta Let_def leD not_less)

text \<open>The places of the statements that are not below the threshold.\<close>

definition places :: "LOG_LEVEL \<Rightarrow> (LOG_LEVEL \<times> source_location \<times> string list) list \<Rightarrow> string" where
  "places threshold stmts = concat (map (\<lambda>(level, loc, vs). if threshold \<le> level then location_text level loc else []) stmts)"

lemma log_lines_accumulate:
  "log_lines stmts st =
     (map (\<lambda>i. case stmts ! i of (level, loc, vs) \<Rightarrow>
         (stream_of level,
          if level < lt_threshold st then []
          else lt_output st @ places (lt_threshold st) (take (Suc i) stmts) @ concat vs)) [0..<length stmts],
      st\<lparr>lt_output := lt_output st @ places (lt_threshold st) stmts\<rparr>)"
proof (induction stmts arbitrary: st)
  case (Cons s stmts)
  obtain level loc vs where s: "s = (level, loc, vs)" by (cases s)
  show ?case
  proof (cases "lt_threshold st \<le> level")
    case True
    then show ?thesis unfolding s
      by (simp add: Cons.IH log_line_written leD split_beta places_def map_upt_Suc del: upt_Suc)
  next
    case False
    then show ?thesis unfolding s
      by (simp add: Cons.IH log_line_quiet not_le split_beta places_def map_upt_Suc del: upt_Suc)
  qed
qed (simp add: places_def)

text \<open>
  Of a thread that has logged nothing yet, a statement below the threshold writes nothing; any
  other one writes its values after the places not of itself alone but of all earlier statements
  that were written, one after the other.
\<close>

theorem log_lines_repeat:
  "log_lines stmts \<lparr>lt_threshold = threshold, lt_output = []\<rparr> =
     (map (\<lambda>i. case stmts ! i of (level, loc, vs) \<Rightarrow>
         (stream_of level,
          if level < threshold then [] else places threshold (take (Suc i) stmts) @ concat vs)) [0..<length stmts],
      \<lparr>lt_threshold = threshold, lt_output = places threshold stmts\<rparr>)"
  by (simp add: log_lines_accumulate split_beta)

text \<open>The names of the options are those that are printed; \<open>INVALID\<close> cannot be configured.\<close>

lemma threshold_names:
  "translateLogThreshold (levelNames ! level_index level) threshold = (if level = INVALID then threshold else level)"
  by (cases level) (simp_all add: translateLogThreshold_def levelNames_def numeral_eq_Suc)

lemma printHeader_text:
  assumes "lt_threshold st \<le> level"
  shows "printHeader h level st =
    Inr (CHR 0x0A # ''header:'' @ [CHR 0x0A] @ concat (map (\<lambda>v. v @ '','') (butlast (header_texts h))) @
      last (header_texts h) @ [CHR 0x0A])"
  using assms by (simp add: printHeader_def header_texts_def Logger_new_def)

end
