(* ===== verification/Splitting.thy ===== *)
theory Splitting
  imports Prelude
begin

section \<open>Splitting text (common/Utility.h)\<close>

text \<open>
  The four loops of \<open>common/Utility.h\<close> that cut a text into rows: \<open>split\<close> at a delimiter,
  \<open>splitReversedOrder\<close>, \<open>splitReuseVector\<close> and \<open>split\<close> at a set of separators. Each is
  the source's loop over positions; the container is a list, and for \<open>splitReuseVector\<close>,
  whose rows are objects that keep what the assignment does not write, the assignment of a
  text to a row and the row of the default constructor are arguments. The reference
  \<open>rows_of\<close> works on the remaining text instead of positions.
\<close>

definition ENDOFMESSAGE :: string where
  "ENDOFMESSAGE = ''f65438b3bf504ace8483e6642a84d2fd''"

definition ENDOFMESSAGESZ :: nat where
  "ENDOFMESSAGESZ = length ENDOFMESSAGE"

subsection \<open>The loops\<close>

function split_loop :: "string \<Rightarrow> char \<Rightarrow> nat \<Rightarrow> nat \<Rightarrow> string list \<Rightarrow> string list" where
  "split_loop input delim keepDelim start rows =
     (if start < length input then
        (case find_char delim input start of
           None \<Rightarrow> rows @ [drop start input]
         | Some nxt \<Rightarrow>
             split_loop input delim keepDelim (nxt + 1)
               (rows @ [substr input start (nxt + keepDelim - start)]))
      else rows)"
  by pat_completeness auto
termination
  by (relation "measure (\<lambda>(input, _, _, start, _). length input - start)")
     (auto dest: find_char_bounds)

definition split_delim :: "string \<Rightarrow> string list \<Rightarrow> char \<Rightarrow> nat \<Rightarrow> string list" where
  "split_delim input rows delim keepDelim = split_loop input delim keepDelim 0 rows"

function split_rev_loop :: "string \<Rightarrow> char \<Rightarrow> nat \<Rightarrow> nat \<Rightarrow> string list \<Rightarrow> string list" where
  "split_rev_loop input delim keepDelim start rows =
     (if start < length input then
        (case find_char delim input start of
           None \<Rightarrow> drop start input # rows
         | Some nxt \<Rightarrow>
             split_rev_loop input delim keepDelim (nxt + 1)
               (substr input start (nxt + keepDelim - start) # rows))
      else rows)"
  by pat_completeness auto
termination
  by (relation "measure (\<lambda>(input, _, _, start, _). length input - start)")
     (auto dest: find_char_bounds)

definition splitReversedOrder :: "string \<Rightarrow> string list \<Rightarrow> char \<Rightarrow> nat \<Rightarrow> string list" where
  "splitReversedOrder input rows delim keepDelim = split_rev_loop input delim keepDelim 0 rows"

text \<open>
  The row at \<open>index\<close> is created when the vector is too short, then assigned; the index is
  counted up only after a row that ended at a delimiter, and is what the function returns.
\<close>

function split_reuse_loop ::
  "(string \<Rightarrow> 'r \<Rightarrow> 'r) \<Rightarrow> 'r \<Rightarrow> string \<Rightarrow> char \<Rightarrow> nat \<Rightarrow> nat \<Rightarrow> nat \<Rightarrow> 'r list \<Rightarrow> 'r list \<times> nat" where
  "split_reuse_loop assign fresh input delim keepDelim index start rows =
     (if start < length input then
        (let nxt = find_char delim input start;
             rows = (if index \<ge> length rows then rows @ [fresh] else rows);
             row = (case nxt of None \<Rightarrow> drop start input
                     | Some n \<Rightarrow> substr input start (n + keepDelim - start));
             rows = rows[index := assign row (rows ! index)]
         in (case nxt of
               None \<Rightarrow> (rows, index)
             | Some n \<Rightarrow>
                 split_reuse_loop assign fresh input delim keepDelim (index + 1) (n + 1) rows))
      else (rows, index))"
  by pat_completeness auto
termination
  by (relation "measure (\<lambda>(_, _, input, _, _, _, start, _). length input - start)")
     (auto dest!: find_char_bounds [OF sym])

definition splitReuseVector ::
  "(string \<Rightarrow> 'r \<Rightarrow> 'r) \<Rightarrow> 'r \<Rightarrow> string \<Rightarrow> 'r list \<Rightarrow> char \<Rightarrow> nat \<Rightarrow> 'r list \<times> nat" where
  "splitReuseVector assign fresh input rows delim keepDelim =
     split_reuse_loop assign fresh input delim keepDelim 0 0 rows"

function split_seps_loop :: "string \<Rightarrow> string \<Rightarrow> nat option \<Rightarrow> string list \<Rightarrow> string list" where
  "split_seps_loop input separators beg rows =
     (case beg of
        None \<Rightarrow> rows
      | Some b \<Rightarrow>
          (if b < length input then
             (let pos = find_first_of separators input (b + 1);
                  end' = (case pos of None \<Rightarrow> length input | Some p \<Rightarrow> p)
              in split_seps_loop input separators
                   (find_first_not_of separators input (end' + 1))
                   (rows @ [substr input b (end' - b)]))
           else rows))"
  by pat_completeness auto
termination
  by (relation "measure (\<lambda>(input, _, beg, _). case beg of None \<Rightarrow> 0 | Some b \<Rightarrow> Suc (length input) - b)")
     (auto simp: find_first_of_def find_first_not_of_def Let_def split: option.splits if_splits)

definition split_seps :: "string \<Rightarrow> string list \<Rightarrow> string \<Rightarrow> string list" where
  "split_seps input rows separators =
     split_seps_loop input separators (find_first_not_of separators input 0) rows"

declare split_loop.simps [simp del] split_rev_loop.simps [simp del]
  split_reuse_loop.simps [simp del] split_seps_loop.simps [simp del]

subsection \<open>The reference: rows of the remaining text\<close>

text \<open>
  The rows of a text: each ends at the next delimiter or at the end of the text, a trailing
  delimiter starts no row of its own, and the delimiter is kept when \<open>keep\<close> is set.
\<close>

function rows_of :: "char \<Rightarrow> bool \<Rightarrow> string \<Rightarrow> string list" where
  "rows_of d keep s =
     (if s = [] then []
      else case dropWhile (\<lambda>x. x \<noteq> d) s of
        [] \<Rightarrow> [s]
      | _ # r \<Rightarrow> (takeWhile (\<lambda>x. x \<noteq> d) s @ (if keep then [d] else [])) # rows_of d keep r)"
  by pat_completeness auto
termination
proof (relation "measure (\<lambda>(_, _, s). length s)", simp)
  fix d keep s x r
  assume "s \<noteq> []" "dropWhile (\<lambda>y. y \<noteq> (d :: char)) s = x # r"
  then have "Suc (length r) \<le> length s"
    by (metis length_Cons length_dropWhile_le)
  then show "((d, keep, r), d, keep, s) \<in> measure (\<lambda>(_, _, s). length s)" by simp
qed

declare rows_of.simps [simp del]

text \<open>The rows of a text that is given line by line.\<close>

lemma rows_of_Nil [simp]: "rows_of d keep [] = []"
  by (simp add: rows_of.simps)

lemma rows_of_line:
  assumes "d \<notin> set l"
  shows "rows_of d keep (l @ d # r) = (l @ (if keep then [d] else [])) # rows_of d keep r"
proof -
  have "dropWhile (\<lambda>x. x \<noteq> d) (l @ d # r) = d # r" "takeWhile (\<lambda>x. x \<noteq> d) (l @ d # r) = l"
    using assms by (auto simp: dropWhile_append takeWhile_append)
  then show ?thesis by (subst rows_of.simps) simp
qed

lemma rows_of_last:
  assumes "d \<notin> set l" "l \<noteq> []"
  shows "rows_of d keep l = [l]"
proof -
  have "dropWhile (\<lambda>x. x \<noteq> d) l = []" using assms(1) by auto
  then show ?thesis using assms(2) by (subst rows_of.simps) (simp del: dropWhile_eq_Nil_conv)
qed

text \<open>Cutting a text at its first delimiter, the case split of every proof below.\<close>

lemma line_cases [case_names Empty Last Line]:
  fixes s :: string and d :: char
  obtains "s = []" | "s \<noteq> []" "d \<notin> set s" | l r where "s = l @ d # r" "d \<notin> set l"
  using that split_list_first [of d s] by blast

lemma rows_of_induct [case_names Empty Last Line]:
  assumes "P []"
    and "\<And>l. l \<noteq> [] \<Longrightarrow> d \<notin> set l \<Longrightarrow> P l"
    and "\<And>l r. d \<notin> set l \<Longrightarrow> P r \<Longrightarrow> P (l @ d # r)"
  shows "P (s :: string)"
proof (induction s rule: length_induct)
  case (1 s)
  show ?case by (cases rule: line_cases [where s = s and d = d]) (use 1 assms in auto)
qed

lemma find_char_line:
  assumes "drop i s = l @ d # r" "d \<notin> set l"
  shows "find_char d s i = Some (i + length l)" "substr s i (length l) = l"
    "substr s i (length l + 1) = l @ [d]" "drop (i + length l + 1) s = r"
proof -
  have i: "i \<le> length s"
    by (rule ccontr) (use assms(1) in simp)
  have tw: "takeWhile (\<lambda>x. x \<noteq> d) (drop i s) = l"
    using assms by (auto simp: takeWhile_append)
  have "length (drop i s) = length l + 1 + length r" using assms(1) by simp
  then show "find_char d s i = Some (i + length l)"
    using i by (auto simp: find_char_def tw Let_def)
  show "substr s i (length l) = l" "substr s i (length l + 1) = l @ [d]"
    using assms(1) by (simp_all add: substr_def)
  have "drop (length l + 1) (drop i s) = r" using assms(1) by simp
  then show "drop (i + length l + 1) s = r" by (simp add: add.commute add.left_commute)
qed

lemma find_char_none: "d \<notin> set (drop i s) \<Longrightarrow> find_char d s i = None"
  by (simp add: find_char_None_iff)

text \<open>Each loop, from any position, appends the rows of the text that remains there.\<close>

lemma split_loop_rows:
  assumes "drop start input = s"
  shows "split_loop input d (of_bool keep) start rows = rows @ rows_of d keep s"
  using assms
proof (induction s arbitrary: start rows rule: rows_of_induct [where d = d])
  case Empty
  then show ?case by (subst split_loop.simps) simp
next
  case (Last l)
  then show ?case
    by (subst split_loop.simps) (auto simp: find_char_none rows_of_last)
next
  case (Line l r)
  have "start < length input" using Line.prems by (rule_tac ccontr) simp
  moreover note f = find_char_line [OF Line.prems Line.hyps]
  have "substr input start (start + length l + of_bool keep - start) = l @ (if keep then [d] else [])"
    using f by simp
  moreover have "split_loop input d (of_bool keep) (start + length l + 1) rows' = rows' @ rows_of d keep r"
    for rows' by (rule Line.IH) (use f in simp)
  ultimately show ?case
    by (subst split_loop.simps) (simp add: f(1) rows_of_line [OF Line.hyps])
qed

lemma split_rev_loop_rows:
  assumes "drop start input = s"
  shows "split_rev_loop input d (of_bool keep) start rows = rev (rows_of d keep s) @ rows"
  using assms
proof (induction s arbitrary: start rows rule: rows_of_induct [where d = d])
  case Empty
  then show ?case by (subst split_rev_loop.simps) simp
next
  case (Last l)
  then show ?case
    by (subst split_rev_loop.simps) (auto simp: find_char_none rows_of_last)
next
  case (Line l r)
  have "start < length input" using Line.prems by (rule_tac ccontr) simp
  moreover note f = find_char_line [OF Line.prems Line.hyps]
  have "substr input start (start + length l + of_bool keep - start) = l @ (if keep then [d] else [])"
    using f by simp
  moreover have "split_rev_loop input d (of_bool keep) (start + length l + 1) rows'
      = rev (rows_of d keep r) @ rows'"
    for rows' by (rule Line.IH) (use f in simp)
  ultimately show ?case
    by (subst split_rev_loop.simps) (simp add: f(1) rows_of_line [OF Line.hyps])
qed

lemma split_delim_rows: "split_delim input rows d (of_bool keep) = rows @ rows_of d keep input"
  by (simp add: split_delim_def split_loop_rows)

lemma splitReversedOrder_rows:
  "splitReversedOrder input rows d (of_bool keep) = rev (rows_of d keep input) @ rows"
  by (simp add: splitReversedOrder_def split_rev_loop_rows)

lemma concat_rows_of_keep: "concat (rows_of d True s) = s"
proof (induction s rule: rows_of_induct [where d = d])
  case (Last l)
  then show ?case by (simp add: rows_of_last)
next
  case (Line l r)
  then show ?case by (simp add: rows_of_line)
qed simp

lemma rows_of_no_delim: "row \<in> set (rows_of d False s) \<Longrightarrow> d \<notin> set row"
proof (induction s rule: rows_of_induct [where d = d])
  case (Last l)
  then show ?case by (simp add: rows_of_last)
next
  case (Line l r)
  then show ?case by (auto simp: rows_of_line)
qed simp

lemma rows_of_map_lines:
  "(\<forall>l \<in> set ls. d \<notin> set l) \<Longrightarrow>
   rows_of d keep (concat (map (\<lambda>l. l @ [d]) ls) @ r) =
     map (\<lambda>l. l @ (if keep then [d] else [])) ls @ rows_of d keep r"
proof (induction ls)
  case (Cons l ls)
  then show ?case using rows_of_line [of d l] by simp
qed simp

lemma rows_of_length:
  "length (rows_of d keep s) = count_list s d + (if s = [] \<or> last s = d then 0 else 1)"
proof (induction s rule: rows_of_induct [where d = d])
  case (Last l)
  then show ?case by (auto simp: rows_of_last count_list_0_iff)
next
  case (Line l r)
  then show ?case by (auto simp: rows_of_line count_list_0_iff)
qed simp

text \<open>
  \<open>splitReuseVector\<close>: the returned count is the number of delimiters, the rows before it
  hold the texts that ended at a delimiter (assigned over what the vector held there), and
  the rows before the starting index are not touched.
\<close>

lemma split_reuse_loop_spec:
  assumes "drop start input = s" and "index \<le> length rows"
    and "split_reuse_loop assign fresh input d 0 index start rows = (rows', n)"
  shows "n = index + count_list s d \<and> n \<le> length rows' \<and>
    (\<forall>k < index. rows' ! k = rows ! k) \<and>
    (\<forall>k < count_list s d. rows' ! (index + k) =
       assign (rows_of d False s ! k)
         (if index + k < length rows then rows ! (index + k) else fresh))"
  using assms
proof (induction s arbitrary: start index rows rule: rows_of_induct [where d = d])
  case Empty
  then show ?case by (subst (asm) split_reuse_loop.simps) auto
next
  case (Last l)
  let ?rs = "if index \<ge> length rows then rows @ [fresh] else rows"
  have "start < length input" using Last.prems(1) Last.hyps by (rule_tac ccontr) simp
  then have "split_reuse_loop assign fresh input d 0 index start rows
      = (?rs[index := assign l (?rs ! index)], index)"
    using Last.prems(1) Last.hyps find_char_none [of d start input]
    by (subst split_reuse_loop.simps) (simp add: Let_def)
  with Last.prems(3) have "rows' = ?rs[index := assign l (?rs ! index)] \<and> n = index"
    by (metis Pair_inject)
  moreover have "count_list l d = 0" using Last.hyps by (simp add: count_list_0_iff)
  ultimately show ?case using Last.prems(2) by (auto simp: nth_append)
next
  case (Line l r)
  let ?rs = "if index \<ge> length rows then rows @ [fresh] else rows"
  let ?rs' = "?rs[index := assign l (?rs ! index)]"
  note f = find_char_line [OF Line.prems(1) Line.hyps]
  have "start < length input" using Line.prems(1) by (rule_tac ccontr) simp
  then have run: "split_reuse_loop assign fresh input d 0 (index + 1) (start + length l + 1) ?rs'
      = (rows', n)"
    using Line.prems(3) f by (subst (asm) split_reuse_loop.simps) (simp add: Let_def cong: if_cong)
  have len: "index + 1 \<le> length ?rs'" using Line.prems(2) by auto
  note IH = Line.IH [OF f(4) len run]
  have row: "rows' ! index = assign l (if index < length rows then rows ! index else fresh)"
    using IH Line.prems(2) by (auto simp: nth_append dest: spec [of _ index])
  have later: "rows' ! (index + k) = assign (rows_of d False (l @ d # r) ! k)
      (if index + k < length rows then rows ! (index + k) else fresh)"
    if k: "k < count_list (l @ d # r) d" for k
  proof (cases k)
    case 0
    then show ?thesis using row rows_of_line [OF Line.hyps] by simp
  next
    case (Suc j)
    then have "j < count_list r d" using k Line.hyps by (simp add: count_list_0_iff)
    then have "rows' ! (index + 1 + j) = assign (rows_of d False r ! j)
        (if index + 1 + j < length ?rs' then ?rs' ! (index + 1 + j) else fresh)"
      using IH by blast
    then show ?thesis using Suc Line.prems(2) rows_of_line [OF Line.hyps] by auto
  qed
  have "n = index + count_list (l @ d # r) d"
    using IH Line.hyps by (simp add: count_list_0_iff)
  moreover have "rows' ! k = rows ! k" if "k < index" for k
    using IH that Line.prems(2) by (auto simp: nth_append)
  ultimately show ?case using IH later by simp
qed

lemma splitReuseVector_spec:
  assumes "splitReuseVector assign fresh input rows d 0 = (rows', n)"
  shows "n = count_list input d" "n \<le> length rows'"
    "k < n \<Longrightarrow> rows' ! k =
      assign (rows_of d False input ! k) (if k < length rows then rows ! k else fresh)"
  using split_reuse_loop_spec [of 0 input input 0 rows assign fresh d rows' n] assms
  by (auto simp: splitReuseVector_def)

subsection \<open>Runs between separators\<close>

function words_of :: "string \<Rightarrow> string \<Rightarrow> string list" where
  "words_of seps s =
     (case dropWhile (\<lambda>x. x \<in> set seps) s of
        [] \<Rightarrow> []
      | x # r \<Rightarrow> (x # takeWhile (\<lambda>y. y \<notin> set seps) r)
                 # words_of seps (dropWhile (\<lambda>y. y \<notin> set seps) r))"
  by pat_completeness auto
termination
proof (relation "measure (\<lambda>(_, s). length s)", simp)
  fix seps s x and r :: string
  assume "dropWhile (\<lambda>x. x \<in> set seps) s = x # r"
  then have "Suc (length r) \<le> length s" by (metis length_Cons length_dropWhile_le)
  moreover have "length (dropWhile (\<lambda>y. y \<notin> set seps) r) \<le> length r"
    by (rule length_dropWhile_le)
  ultimately show "((seps, dropWhile (\<lambda>y. y \<notin> set seps) r), seps, s) \<in> measure (\<lambda>(_, s). length s)"
    by simp
qed

declare words_of.simps [simp del]

lemma concat_words_of: "concat (words_of seps s) = filter (\<lambda>c. c \<notin> set seps) s"
proof (induction seps s rule: words_of.induct)
  case (1 seps s)
  have skip: "filter (\<lambda>c. c \<notin> set seps) s = filter (\<lambda>c. c \<notin> set seps) (dropWhile (\<lambda>x. x \<in> set seps) s)"
    by (induction s) auto
  have run: "takeWhile (\<lambda>y. y \<notin> set seps) r @ filter (\<lambda>c. c \<notin> set seps) (dropWhile (\<lambda>y. y \<notin> set seps) r)
      = filter (\<lambda>c. c \<notin> set seps) r" for r
    by (induction r) auto
  show ?case
  proof (cases "dropWhile (\<lambda>x. x \<in> set seps) s")
    case Nil
    then show ?thesis by (subst words_of.simps) (simp add: skip del: dropWhile_eq_Nil_conv)
  next
    case (Cons x r)
    then have "x \<notin> set seps" using hd_dropWhile [of "\<lambda>x. x \<in> set seps" s] by auto
    then show ?thesis
      using 1 [OF Cons] Cons run [of r] by (subst words_of.simps) (simp add: skip)
  qed
qed

lemma words_of_no_sep: "w \<in> set (words_of seps s) \<Longrightarrow> w \<noteq> [] \<and> set w \<inter> set seps = {}"
proof (induction seps s rule: words_of.induct)
  case (1 seps s)
  show ?case
  proof (cases "dropWhile (\<lambda>x. x \<in> set seps) s")
    case Nil
    with "1.prems" show ?thesis by (subst (asm) words_of.simps) (simp del: dropWhile_eq_Nil_conv)
  next
    case (Cons x r)
    then have "x \<notin> set seps" using hd_dropWhile [of "\<lambda>x. x \<in> set seps" s] by auto
    moreover have "w = x # takeWhile (\<lambda>y. y \<notin> set seps) r \<or>
        w \<in> set (words_of seps (dropWhile (\<lambda>y. y \<notin> set seps) r))"
      using "1.prems" Cons by (subst (asm) words_of.simps) simp
    ultimately show ?thesis
      using "1.IH" [OF Cons] by (auto dest: set_takeWhileD)
  qed
qed

lemma find_first_not_of_cases:
  "(find_first_not_of seps s i = None \<longleftrightarrow> dropWhile (\<lambda>x. x \<in> set seps) (drop i s) = [])"
  "find_first_not_of seps s i = Some b \<Longrightarrow>
     b < length s \<and> drop b s = dropWhile (\<lambda>x. x \<in> set seps) (drop i s)"
proof -
  let ?n = "length (takeWhile (\<lambda>x. x \<in> set seps) (drop i s))"
  have dw: "dropWhile (\<lambda>x. x \<in> set seps) (drop i s) = drop (i + ?n) s"
    by (simp add: dropWhile_eq_drop add.commute)
  then show "find_first_not_of seps s i = None \<longleftrightarrow> dropWhile (\<lambda>x. x \<in> set seps) (drop i s) = []"
    by (auto simp: find_first_not_of_def Let_def simp del: dropWhile_eq_Nil_conv)
  show "find_first_not_of seps s i = Some b \<Longrightarrow>
     b < length s \<and> drop b s = dropWhile (\<lambda>x. x \<in> set seps) (drop i s)"
    using dw by (auto simp: find_first_not_of_def Let_def split: if_splits)
qed

lemma split_seps_loop_words:
  assumes "length input - i \<le> m"
  shows "split_seps_loop input seps (find_first_not_of seps input i) rows
     = rows @ words_of seps (drop i input)"
  using assms
proof (induction m arbitrary: i rows rule: less_induct)
  case (less m)
  show ?case
  proof (cases "find_first_not_of seps input i")
    case None
    then have "dropWhile (\<lambda>x. x \<in> set seps) (drop i input) = []"
      using find_first_not_of_cases(1) by blast
    then show ?thesis
      using None by (subst split_seps_loop.simps, subst words_of.simps)
        (simp del: dropWhile_eq_Nil_conv)
  next
    case (Some b)
    then have b: "b < length input" "drop b input = dropWhile (\<lambda>x. x \<in> set seps) (drop i input)"
      using find_first_not_of_cases(2) by blast+
    let ?r = "drop (Suc b) input"
    let ?w = "takeWhile (\<lambda>y. y \<notin> set seps) ?r"
    have dw: "dropWhile (\<lambda>x. x \<in> set seps) (drop i input) = input ! b # ?r"
      using b by (metis Cons_nth_drop_Suc)
    define e where "e = Suc b + length ?w"
    have len: "length ?w \<le> length ?r" by (rule length_takeWhile_le)
    then have e: "e \<le> length input" "b < e" using b(1) by (auto simp: e_def)
    have pos: "(case find_first_of seps input (b + 1) of None \<Rightarrow> length input | Some p \<Rightarrow> p) = e"
      using e by (auto simp: find_first_of_def Let_def e_def)
    have row: "substr input b (e - b) = input ! b # ?w"
    proof -
      have "drop b input = input ! b # ?r" using b(1) by (simp add: Cons_nth_drop_Suc)
      then have "substr input b (e - b) = input ! b # take (length ?w) ?r"
        by (simp add: substr_def e_def)
      also have "take (length ?w) ?r = ?w" by (rule takeWhile_eq_take [symmetric])
      finally show ?thesis .
    qed
    have rest: "dropWhile (\<lambda>y. y \<notin> set seps) ?r = drop e input"
      by (simp add: e_def dropWhile_eq_drop add.commute)
    have tail: "words_of seps (drop e input) = words_of seps (drop (e + 1) input)"
    proof (cases "drop e input")
      case Nil
      then show ?thesis by simp
    next
      case (Cons y ys)
      then have "y \<in> set seps"
        using rest hd_dropWhile [of "\<lambda>y. y \<notin> set seps" ?r] by auto
      moreover have "drop (e + 1) input = ys" using Cons by (metis Suc_eq_plus1 drop_Suc list.sel(3) tl_drop)
      ultimately show ?thesis
        using Cons by (subst (1 2) words_of.simps) simp
    qed
    have smaller: "i \<le> b"
    proof (rule ccontr)
      assume "\<not> i \<le> b"
      then have "length (drop b input) > length (drop i input)" using b(1) by simp
      moreover have "length (drop b input) \<le> length (drop i input)"
        unfolding b(2) by (rule length_dropWhile_le)
      ultimately show False by simp
    qed
    have IH: "split_seps_loop input seps (find_first_not_of seps input (e + 1)) rows'
        = rows' @ words_of seps (drop (e + 1) input)" for rows'
      using less.IH [of "length input - (e + 1)" "e + 1" rows'] less.prems e b smaller by simp
    have "split_seps_loop input seps (Some b) rows
        = rows @ (input ! b # ?w) # words_of seps (drop (e + 1) input)"
      using b(1) pos row IH by (subst split_seps_loop.simps) (simp add: Let_def)
    moreover have "words_of seps (drop i input) = (input ! b # ?w) # words_of seps (drop e input)"
      using dw rest by (subst words_of.simps) simp
    ultimately show ?thesis using Some tail by simp
  qed
qed

lemma split_seps_words: "split_seps input rows seps = rows @ words_of seps input"
  using split_seps_loop_words [of input 0 "length input"] by (simp add: split_seps_def)

text \<open>The runs of a text that is put together from words and separators.\<close>

lemma words_of_Nil [simp, str_simps]: "words_of seps [] = []"
  by (simp add: words_of.simps)

lemma words_of_sep [str_simps]: "c \<in> set seps \<Longrightarrow> words_of seps (c # s) = words_of seps s"
  by (subst (1 2) words_of.simps) simp

lemma words_of_seps [str_simps]: "set p \<subseteq> set seps \<Longrightarrow> words_of seps (p @ s) = words_of seps s"
  by (induction p) (simp_all add: words_of_sep)

lemma words_of_word [str_simps]:
  assumes "w \<noteq> []" and "set w \<inter> set seps = {}" and "rest = [] \<or> hd rest \<in> set seps"
  shows "words_of seps (w @ rest) = w # words_of seps rest"
proof -
  obtain x v where w: "w = x # v" using assms(1) by (cases w) auto
  have v: "takeWhile (\<lambda>y. y \<notin> set seps) (v @ rest) = v"
    "dropWhile (\<lambda>y. y \<notin> set seps) (v @ rest) = rest"
    using assms(2,3) w by (cases rest; auto simp: takeWhile_append dropWhile_append)+
  have "x \<notin> set seps" using assms(2) w by auto
  then show ?thesis using v w by (subst words_of.simps) simp
qed

end
