(* ===== verification/Messages.thy ===== *)
theory Messages
  imports Headers Splitting
begin

section \<open>Messages on the wire (IOUtility::processMessage, Tcp, Fifo)\<close>

text \<open>
  A message is a serialized header, up to four payloads and the end marker. This theory models
  how it is built (\<open>Tcp::sendMessage\<close>, \<open>Fifo::sendMessage\<close> with \<open>writeString\<close>), how it
  is read from a socket or a pipe (\<open>Tcp::readMessage\<close>, \<open>Fifo::readMessage\<close> with
  \<open>readStringBlock\<close> and \<open>readStringNonBlock\<close>) and how it is taken apart
  (\<open>ioutility::processMessage\<close>).

  The socket and the pipe are the operating system's: what the successive calls of
  \<open>read\<close>, \<open>write\<close> and \<open>poll\<close> return is a list given to the model, and a list that
  ends means that the next call does not return.
\<close>

subsection \<open>processMessage\<close>

text \<open>
  The strings of \<open>array\<close> are assigned in place: one whose size is 0 keeps its contents.
  \<open>payload.substr\<close> throws when it starts past the end, and clips a size that runs past it.
\<close>

fun assign_fields :: "string \<Rightarrow> nat list \<Rightarrow> string list \<Rightarrow> nat \<Rightarrow> string list result" where
  "assign_fields payload sizes [] shift = Inr []"
| "assign_fields payload [] (a # as) shift = Inl Undefined_Behaviour"
| "assign_fields payload (sz # szs) (a # as) shift =
     (if sz > 0 then
        (if shift > length payload then Inl Out_Of_Range
         else bindE (assign_fields payload szs as (shift + sz))
                (\<lambda>r. Inr (substr payload shift sz # r)))
      else bindE (assign_fields payload szs as shift) (\<lambda>r. Inr (a # r)))"

definition processMessage ::
  "string \<Rightarrow> HEADER \<Rightarrow> string list \<Rightarrow> (HEADER \<times> string list \<times> bool) result" where
  "processMessage payload header array =
     (if length payload < HEADER_SIZE then Inr (header, array, False)
      else bindE (deserialize header payload) (\<lambda>(header, ok).
        if \<not> ok then Inr (header, array, False)
        else
          let payload = drop HEADER_SIZE payload;
              sizes = [extractField1Size header, extractField2Size header,
                       extractField3Size header, extractField4Size header]
          in bindE (assign_fields payload sizes array 0) (\<lambda>array. Inr (header, array, True))))"

subsection \<open>Tcp\<close>

datatype asio_error =
    Eof | Connection_Refused | Connection_Reset | Broken_Pipe | Operation_Aborted
  | Interrupted | Other_Error

text \<open>The bytes that the six buffers of a gathered write hold.\<close>

definition message_bytes :: "HEADER \<Rightarrow> string \<Rightarrow> string \<Rightarrow> string \<Rightarrow> string \<Rightarrow> string" where
  "message_bytes header payload1 payload2 payload3 payload4 =
     serialize header @ payload1 @ payload2 @ payload3 @ payload4 @ ENDOFMESSAGE"

text \<open>
  \<open>Tcp::sendMessage\<close>: the bytes given to the socket and the returned flag, for the error
  code of the write. Only a code outside the four listed ones is reported.
\<close>

definition tcp_sendMessage ::
  "asio_error option \<Rightarrow> HEADER \<Rightarrow> string \<Rightarrow> string \<Rightarrow> string \<Rightarrow> string \<Rightarrow> string \<times> bool" where
  "tcp_sendMessage ec header payload1 payload2 payload3 payload4 =
     (message_bytes header payload1 payload2 payload3 payload4,
      (case ec of
         None \<Rightarrow> True
       | Some e \<Rightarrow> e \<in> {Eof, Connection_Refused, Connection_Reset, Broken_Pipe}))"

text \<open>
  \<open>boost::asio::read_until\<close> into a dynamic buffer over \<open>payload\<close>: reads are appended until
  the buffer holds the marker; the end of the stream is an error. The result is the buffer,
  what is left of the stream and whether the marker was found.
\<close>

fun read_until :: "string \<Rightarrow> string list \<Rightarrow> string \<times> string list \<times> bool" where
  "read_until payload chunks =
     (if find_str ENDOFMESSAGE payload \<noteq> None then (payload, chunks, True)
      else case chunks of
        [] \<Rightarrow> (payload, [], False)
      | c # cs \<Rightarrow> read_until (payload @ c) cs)"

declare read_until.simps [simp del]

definition tcp_readPayload :: "string \<Rightarrow> string list \<Rightarrow> string \<times> string list \<times> bool" where
  "tcp_readPayload payload chunks =
     (let (payload, chunks, found) = read_until payload chunks in
      if \<not> found then (payload, chunks, False)
      else if ends_with payload ENDOFMESSAGE
        then (resize payload (length payload - ENDOFMESSAGESZ), chunks, True)
      else (payload, chunks, False))"

definition tcp_readMessage ::
  "string list \<Rightarrow> HEADER \<Rightarrow> string list \<Rightarrow> (HEADER \<times> string list \<times> bool) result" where
  "tcp_readMessage chunks header array =
     (let (payload, chunks, ok) = tcp_readPayload [] chunks in
      if \<not> ok then Inr (header, array, False) else processMessage payload header array)"

subsection \<open>Fifo\<close>

text \<open>
  What one \<open>read\<close> on a pipe gives: bytes (at most \<open>BUFFER_SIZE\<close> of them), 0 for no
  writer, \<open>EAGAIN\<close> followed by what \<open>pollFd\<close> makes of the descriptor, or another error.
  \<open>pollFd\<close> returns the expected event, returns something else or throws.
\<close>

datatype poll_result = Poll_Expected | Poll_Other | Poll_Error

datatype read_result = Read_Bytes string | Read_None | Read_Again poll_result | Read_Error

text \<open>\<open>None\<close>: the call has not returned after the given reads.\<close>

fun readStringBlock_loop :: "string \<Rightarrow> read_result list \<Rightarrow> (string \<times> bool) option result" where
  "readStringBlock_loop payload [] = Inr None"
| "readStringBlock_loop payload (Read_Bytes bytes # rs) =
     (let payload = payload @ bytes in
      if ends_with payload ENDOFMESSAGE
      then Inr (Some (resize payload (length payload - ENDOFMESSAGESZ), True))
      else readStringBlock_loop payload rs)"
| "readStringBlock_loop payload (Read_None # rs) = Inr (Some (payload, False))"
| "readStringBlock_loop payload (Read_Again _ # rs) = Inl (Runtime_Error ''read'')"
| "readStringBlock_loop payload (Read_Error # rs) = Inl (Runtime_Error ''read'')"

definition readStringBlock ::
  "bool \<Rightarrow> read_result list \<Rightarrow> string \<Rightarrow> (string \<times> bool) option result" where
  "readStringBlock opened rs payload =
     (if \<not> opened then Inr (Some (payload, False)) else readStringBlock_loop payload rs)"

fun readStringNonBlock_loop :: "string \<Rightarrow> read_result list \<Rightarrow> (string \<times> bool) option result" where
  "readStringNonBlock_loop payload [] = Inr None"
| "readStringNonBlock_loop payload (Read_Again Poll_Expected # rs) =
     readStringNonBlock_loop payload rs"
| "readStringNonBlock_loop payload (Read_Again Poll_Other # rs) = Inr (Some (payload, False))"
| "readStringNonBlock_loop payload (Read_Again Poll_Error # rs) = Inl (Runtime_Error ''poll'')"
| "readStringNonBlock_loop payload (Read_Error # rs) = Inl (Runtime_Error ''read'')"
| "readStringNonBlock_loop payload (Read_Bytes bytes # rs) =
     (let payload = payload @ bytes in
      if ends_with payload ENDOFMESSAGE
      then Inr (Some (resize payload (length payload - ENDOFMESSAGESZ), True))
      else readStringNonBlock_loop payload rs)"
| "readStringNonBlock_loop payload (Read_None # rs) = readStringNonBlock_loop payload rs"

definition readStringNonBlock ::
  "bool \<Rightarrow> read_result list \<Rightarrow> string \<Rightarrow> (string \<times> bool) option result" where
  "readStringNonBlock opened rs payload =
     (if \<not> opened then Inr (Some (payload, False)) else readStringNonBlock_loop payload rs)"

definition fifo_readPayload ::
  "bool \<Rightarrow> bool \<Rightarrow> read_result list \<Rightarrow> string \<Rightarrow> (string \<times> bool) option result" where
  "fifo_readPayload opened block rs payload =
     (if block then readStringBlock opened rs payload else readStringNonBlock opened rs payload)"

definition fifo_readMessage ::
  "bool \<Rightarrow> bool \<Rightarrow> read_result list \<Rightarrow> HEADER \<Rightarrow> string list
     \<Rightarrow> (HEADER \<times> string list \<times> bool) option result" where
  "fifo_readMessage opened block rs header array =
     bindE (fifo_readPayload opened block rs []) (\<lambda>r.
       case r of
         None \<Rightarrow> Inr None
       | Some (payload, ok) \<Rightarrow>
           if \<not> ok then Inr (Some (header, array, False))
           else bindE (processMessage payload header array) (\<lambda>m. Inr (Some m)))"

text \<open>What one \<open>write\<close> gives: a count, \<open>EAGAIN\<close> and what \<open>pollFd\<close> says, or an error.\<close>

datatype write_result = Wrote nat | Write_Again poll_result | Write_Error

text \<open>
  \<open>writeString\<close>: the bytes that went into the pipe, what is left of the list of results and
  the returned flag (\<open>None\<close>: not returned yet).
\<close>

function writeString ::
  "string \<Rightarrow> nat \<Rightarrow> write_result list \<Rightarrow> (string \<times> write_result list \<times> bool) option result" where
  "writeString str written ws =
     (if written < length str then
        (case ws of
           [] \<Rightarrow> Inr None
         | Wrote n # ws' \<Rightarrow> writeString str (written + n) ws'
         | Write_Again Poll_Expected # ws' \<Rightarrow> writeString str written ws'
         | Write_Again Poll_Other # ws' \<Rightarrow> Inr (Some (take written str, ws', False))
         | Write_Again Poll_Error # ws' \<Rightarrow> Inl (Runtime_Error ''poll'')
         | Write_Error # ws' \<Rightarrow> Inl (Runtime_Error ''write''))
      else Inr (Some (take written str, ws, True)))"
  by pat_completeness auto
termination
  by (relation "measure (\<lambda>(_, _, ws). length ws)") auto

declare writeString.simps [simp del]

text \<open>
  \<open>Fifo::sendMessage\<close> writes the header, the payloads and the marker one after the other and
  does not look at what \<open>writeString\<close> returns.
\<close>

fun writeStrings ::
  "string list \<Rightarrow> write_result list \<Rightarrow> (string \<times> write_result list) option result" where
  "writeStrings [] ws = Inr (Some ([], ws))"
| "writeStrings (s # ss) ws =
     bindE (writeString s 0 ws) (\<lambda>r.
       case r of
         None \<Rightarrow> Inr None
       | Some (out, ws', _) \<Rightarrow>
           bindE (writeStrings ss ws') (\<lambda>r'.
             case r' of
               None \<Rightarrow> Inr None
             | Some (outs, ws'') \<Rightarrow> Inr (Some (out @ outs, ws''))))"

definition fifo_sendMessage ::
  "bool \<Rightarrow> write_result list \<Rightarrow> HEADER \<Rightarrow> string \<Rightarrow> string \<Rightarrow> string \<Rightarrow> string
     \<Rightarrow> (string \<times> bool) option result" where
  "fifo_sendMessage opened ws header payload1 payload2 payload3 payload4 =
     (if \<not> opened then Inr (Some ([], False))
      else bindE (writeStrings [serialize header, payload1, payload2, payload3, payload4,
                                ENDOFMESSAGE] ws) (\<lambda>r.
        case r of None \<Rightarrow> Inr None | Some (out, _) \<Rightarrow> Inr (Some (out, True))))"

subsection \<open>Taking a message apart\<close>

lemma assign_fields_exact:
  assumes "length as = length ps" and "list_all2 (\<lambda>p a. p = [] \<longrightarrow> a = []) ps as"
  shows "assign_fields (pre @ concat ps @ rest) (map length ps @ szs) as (length pre) = Inr ps"
  using assms(2,1)
proof (induction ps as arbitrary: pre rule: list_all2_induct)
  case (Cons p ps a as)
  have IH: "assign_fields ((pre @ p) @ concat ps @ rest) (map length ps @ szs) as
      (length (pre @ p)) = Inr ps"
    by (rule Cons.IH) (use Cons.prems in simp)
  then show ?case using Cons.hyps by (auto simp: substr_def)
qed simp

lemma ENDOFMESSAGE_length [simp]: "length ENDOFMESSAGE = 32" "ENDOFMESSAGESZ = 32"
  by (simp_all add: ENDOFMESSAGE_def ENDOFMESSAGESZ_def)

lemma ENDOFMESSAGE_nonempty [simp]: "ENDOFMESSAGE \<noteq> []"
  by (simp add: ENDOFMESSAGE_def)

text \<open>
  The header that the receiver ends up with: the last size is a second copy of the third one.
\<close>

definition received_header :: "HEADER \<Rightarrow> HEADER" where
  "received_header h = h\<lparr>field4_size := field3_size h\<rparr>"

lemma deserialize_serialize:
  "header_wf h \<Longrightarrow> deserialize h0 (serialize h @ rest) = Inr (received_header h, True)"
  by (cases h, cases h0) (simp add: deserialize_serialize_rest received_header_def)

lemma processMessage_serialize:
  assumes "header_wf h"
  shows "processMessage (serialize h @ body) h0 array =
    bindE (assign_fields body [field1_size h, field2_size h, field3_size h, field3_size h] array 0)
      (\<lambda>array. Inr (received_header h, array, True))"
  by (simp add: processMessage_def HEADER_SIZE_44 deserialize_serialize [OF assms]
      header_accessors received_header_def)

lemma processMessage_one:
  assumes "header_wf h" and "field1_size h = length p" and "p = [] \<longrightarrow> a = []"
  shows "processMessage (serialize h @ p) h0 [a] = Inr (received_header h, [p], True)"
  using assms(2,3) by (simp add: processMessage_serialize [OF assms(1)] substr_def)

lemma processMessage_three:
  assumes "header_wf h" and "field1_size h = length p1" "field2_size h = length p2"
    "field3_size h = length p3"
  shows "processMessage (serialize h @ p1 @ p2 @ p3) h0 [[], [], []]
    = Inr (received_header h, [p1, p2, p3], True)"
  using assign_fields_exact [of "[[], [], []]" "[p1, p2, p3]" "[]" "[]" "[field3_size h]"] assms(2-4)
  by (simp add: processMessage_serialize [OF assms(1)])

lemma processMessage_four:
  assumes "header_wf h" and "field1_size h = length p1" "field2_size h = length p2"
    "field3_size h = length p3" and "length p4 \<le> length p3"
  shows "processMessage (serialize h @ p1 @ p2 @ p3 @ p4) h0 [[], [], [], []]
    = Inr (received_header h, [p1, p2, p3, p4], True)"
  using assms(2-5) by (auto simp: processMessage_serialize [OF assms(1)] substr_def)

subsection \<open>Finding the end of a message\<close>

text \<open>A body in which the end marker does not begin before the marker that ends the message.\<close>

definition unmarked :: "string \<Rightarrow> bool" where
  "unmarked m = (find_str ENDOFMESSAGE (m @ ENDOFMESSAGE) = Some (length m))"

lemma unmarked_prefix:
  assumes "unmarked m" and "m @ ENDOFMESSAGE = q @ t" and "t \<noteq> []"
  shows "find_str ENDOFMESSAGE q = None"
proof -
  have "length q < length m + length ENDOFMESSAGE"
    using arg_cong [OF assms(2), of length] assms(3) by (cases t) auto
  then show ?thesis
    using find_str_prefix_None [of ENDOFMESSAGE q t] assms(1,2) by (simp add: unmarked_def)
qed

lemma readStringBlock_loop_chunks:
  assumes "unmarked m" and "payload @ concat cs = m @ ENDOFMESSAGE"
    and "payload \<noteq> m @ ENDOFMESSAGE"
  shows "readStringBlock_loop payload (map Read_Bytes cs) = Inr (Some (m, True))"
  using assms(2,3)
proof (induction cs arbitrary: payload)
  case (Cons c cs)
  show ?case
  proof (cases "payload @ c = m @ ENDOFMESSAGE")
    case True
    then show ?thesis by simp
  next
    case False
    then have "concat cs \<noteq> []"
      using Cons.prems(1) by (metis append.assoc append_Nil2 concat.simps(2))
    then have "find_str ENDOFMESSAGE (payload @ c) = None"
      by (intro unmarked_prefix [OF assms(1), where t = "concat cs"]) (use Cons.prems(1) in simp_all)
    then have "\<not> ends_with (payload @ c) ENDOFMESSAGE" using ends_with_find_str by blast
    moreover have "readStringBlock_loop (payload @ c) (map Read_Bytes cs) = Inr (Some (m, True))"
      by (rule Cons.IH) (use Cons.prems(1) False in auto)
    ultimately show ?thesis by simp
  qed
qed simp

lemma read_until_chunks:
  assumes "unmarked m" and "payload @ concat cs = m @ ENDOFMESSAGE"
  shows "fst (read_until payload cs) = m @ ENDOFMESSAGE \<and> snd (snd (read_until payload cs))"
  using assms(2)
proof (induction cs arbitrary: payload)
  case Nil
  have "find_str ENDOFMESSAGE (m @ ENDOFMESSAGE) \<noteq> None" using ends_with_find_str by simp
  with Nil show ?case by (subst (1 2) read_until.simps) simp
next
  case (Cons c cs)
  show ?case
  proof (cases "find_str ENDOFMESSAGE payload")
    case None
    with Cons show ?thesis by (subst (1 2) read_until.simps) simp
  next
    case (Some n)
    then have "c @ concat cs = []"
      using unmarked_prefix [OF assms(1), of payload "c @ concat cs"] Cons.prems by fastforce
    with Some Cons.prems show ?thesis by (subst (1 2) read_until.simps) simp
  qed
qed

lemma fifo_readMessage_chunks:
  assumes "unmarked m" and "concat cs = m @ ENDOFMESSAGE"
  shows "fifo_readMessage True True (map Read_Bytes cs) h0 array =
    bindE (processMessage m h0 array) (\<lambda>r. Inr (Some r))"
  using readStringBlock_loop_chunks [OF assms(1), of "[]" cs] assms(2)
  by (simp add: fifo_readMessage_def fifo_readPayload_def readStringBlock_def)

lemma tcp_readMessage_chunks:
  assumes "unmarked m" and "concat cs = m @ ENDOFMESSAGE"
  shows "tcp_readMessage cs h0 array = processMessage m h0 array"
proof -
  obtain r where "read_until [] cs = (m @ ENDOFMESSAGE, r, True)"
    using read_until_chunks [OF assms(1), of "[]" cs] assms(2)
    by (metis append_Nil prod.collapse)
  then show ?thesis by (simp add: tcp_readMessage_def tcp_readPayload_def)
qed

subsection \<open>Writing to a pipe\<close>

lemma writeString_complete:
  assumes "Write_Again Poll_Other \<notin> set ws" and "writeString str n ws = Inr (Some (out, ws', ok))"
  shows "out = str \<and> ok \<and> Write_Again Poll_Other \<notin> set ws'"
  using assms
proof (induction str n ws rule: writeString.induct)
  case (1 str n ws)
  show ?case
  proof (cases "n < length str")
    case False
    with "1.prems" show ?thesis by (subst (asm) writeString.simps) auto
  next
    case True
    with "1.prems" obtain w ws1 where ws: "ws = w # ws1"
      by (cases ws) (subst (asm) writeString.simps, auto)
    have other: "Write_Again Poll_Other \<notin> set ws1" using "1.prems"(1) ws by simp
    show ?thesis
    proof (cases w)
      case (Wrote k)
      with "1.prems"(2) True ws have run: "writeString str (n + k) ws1 = Inr (Some (out, ws', ok))"
        by (simp add: writeString.simps [of str n])
      from "1.IH"(1) [OF True ws Wrote other run] show ?thesis .
    next
      case (Write_Again p)
      with "1.prems"(2) ws have run: "writeString str n (Write_Again p # ws1) = Inr (Some (out, ws', ok))"
        by simp
      have p: "p = Poll_Expected"
        using run "1.prems"(1) ws Write_Again True
        by (cases p) (simp_all add: writeString.simps [of str n "Write_Again Poll_Error # ws1"])
      with run True have run: "writeString str n ws1 = Inr (Some (out, ws', ok))"
        by (simp add: writeString.simps [of str n "Write_Again Poll_Expected # ws1"])
      from "1.IH"(2) [OF True ws Write_Again p other run] show ?thesis .
    next
      case Write_Error
      with "1.prems"(2) True ws show ?thesis by (simp add: writeString.simps [of str n])
    qed
  qed
qed

lemma writeStrings_complete:
  assumes "Write_Again Poll_Other \<notin> set ws" and "writeStrings ss ws = Inr (Some (out, ws'))"
  shows "out = concat ss"
  using assms
proof (induction ss arbitrary: ws out ws')
  case (Cons s ss)
  then obtain r where r: "writeString s 0 ws = Inr (Some r)"
    by (auto simp: bindE_Inr_iff split: option.splits)
  obtain o1 ws1 ok where r': "r = (o1, ws1, ok)" by (cases r)
  with r Cons.prems(1) have w: "o1 = s" "Write_Again Poll_Other \<notin> set ws1"
    using writeString_complete by blast+
  from Cons.prems(2) r r' obtain o2 ws2 where "writeStrings ss ws1 = Inr (Some (o2, ws2))" "out = o1 @ o2"
    by (auto simp: bindE_Inr_iff split: option.splits)
  with Cons.IH w show ?case by simp
qed simp

lemma fifo_sendMessage_complete:
  assumes "Write_Again Poll_Other \<notin> set ws"
    and "fifo_sendMessage opened ws h p1 p2 p3 p4 = Inr (Some (out, True))"
  shows "out = message_bytes h p1 p2 p3 p4"
proof -
  from assms(2) obtain ws' where
    "writeStrings [serialize h, p1, p2, p3, p4, ENDOFMESSAGE] ws = Inr (Some (out, ws'))"
    by (auto simp: fifo_sendMessage_def bindE_Inr_iff simp del: writeStrings.simps
        split: if_splits option.splits)
  from writeStrings_complete [OF assms(1) this] show ?thesis by (simp add: message_bytes_def)
qed

subsection \<open>Delivery\<close>

text \<open>
  C12: A message of three payloads that went into the pipe without a refused poll comes out of it in
  whatever pieces it is read: the header but for its last size, and the three payloads.
\<close>

theorem fifo_delivery:
  assumes "fifo_sendMessage opened ws h p1 p2 p3 [] = Inr (Some (sent, True))" "Write_Again Poll_Other \<notin> set ws"
    and "header_wf h" "field1_size h = length p1" "field2_size h = length p2" "field3_size h = length p3"
    and "unmarked (serialize h @ p1 @ p2 @ p3)" "concat cs = sent"
  shows "fifo_readMessage True True (map Read_Bytes cs) h0 [[], [], []] =
    Inr (Some (h\<lparr>field4_size := field3_size h\<rparr>, [p1, p2, p3], True))"
  using fifo_sendMessage_complete [OF assms(2,1)] fifo_readMessage_chunks [OF assms(7), of cs h0]
    processMessage_three [OF assms(3-6), of h0] assms(8)
  by (simp add: message_bytes_def received_header_def)

text \<open>
  The same for the four payloads of a client's first message over TCP; the fourth is cut off at
  the size of the third, since its own size is lost.
\<close>

theorem tcp_delivery:
  assumes "tcp_sendMessage ec h p1 p2 p3 p4 = (sent, True)"
    and "header_wf h" "field1_size h = length p1" "field2_size h = length p2" "field3_size h = length p3"
    and "unmarked (serialize h @ p1 @ p2 @ p3 @ p4)" "concat cs = sent"
  shows "tcp_readMessage cs h0 [[], [], [], []] =
    Inr (h\<lparr>field4_size := field3_size h\<rparr>, [p1, p2, p3, if p3 = [] then [] else take (length p3) p4], True)"
proof -
  have "concat cs = (serialize h @ p1 @ p2 @ p3 @ p4) @ ENDOFMESSAGE"
    using assms(1,7) by (simp add: tcp_sendMessage_def message_bytes_def)
  from tcp_readMessage_chunks [OF assms(6) this] show ?thesis
    using assms(3-5)
    by (auto simp: processMessage_serialize [OF assms(2)] substr_def received_header_def)
qed

definition hello_header :: HEADER where
  "hello_header = \<lparr>header_type = DH_HANDSHAKE, field1_size = 2, field2_size = 1, header_compressor = COMPR_NONE,
     header_diagnostics = DIAG_NONE, header_status = ST_NONE, field3_size = 3, field4_size = 0\<rparr>"

lemma hello_header_wf: "header_wf hello_header"
  by (simp add: header_wf_def hello_header_def)

lemma hello_unmarked: "unmarked (serialize hello_header @ ''17'' @ ''k'' @ ''key'')"
  "unmarked (serialize hello_header @ ''17'' @ ''k'' @ ''key'' @ ''keyx'')"
  by code_simp+

lemma fifo_delivery_witness:
  "fifo_readMessage True True (map Read_Bytes
     [serialize hello_header @ ''17k'', ''key'' @ ENDOFMESSAGE]) hello_header [[], [], []] =
   Inr (Some (hello_header\<lparr>field4_size := 3\<rparr>, [''17'', ''k'', ''key''], True))"
proof -
  have "fifo_sendMessage True (replicate 6 (Wrote 44)) hello_header ''17'' ''k'' ''key'' [] =
      Inr (Some (message_bytes hello_header ''17'' ''k'' ''key'' [], True))"
    by code_simp
  from fifo_delivery [OF this _ hello_header_wf _ _ _ hello_unmarked(1),
      of "[serialize hello_header @ ''17k'', ''key'' @ ENDOFMESSAGE]" hello_header]
  show ?thesis by (simp add: message_bytes_def hello_header_def)
qed

lemma tcp_delivery_witness:
  "tcp_readMessage [serialize hello_header @ ''17k'', ''keykeyx'' @ ENDOFMESSAGE] hello_header [[], [], [], []] =
   Inr (hello_header\<lparr>field4_size := 3\<rparr>, [''17'', ''k'', ''key'', ''key''], True)"
  using tcp_delivery [of None hello_header "''17''" "''k''" "''key''" "''keyx''" _
      "[serialize hello_header @ ''17k'', ''keykeyx'' @ ENDOFMESSAGE]" hello_header]
    hello_unmarked(2) hello_header_wf
  by (simp add: tcp_sendMessage_def message_bytes_def hello_header_def)

end
