(* ===== verification/Compression.thy ===== *)
theory Compression
  imports Headers
begin

section \<open>Compression (common/CompressionLZ4, CompressionSnappy, CompressionZSTD)\<close>

text \<open>
  The three wrappers around the compression libraries. The functions of the libraries are the
  record \<open>compress_lib\<close>, an argument of the model; \<open>compress_lib_ok\<close> states what their
  documentation promises: what is compressed into a buffer of the bound's size is restored.
  The buffer and the data are the two strings that the wrappers change; the capacity of the
  buffer is what the wrapper reserved.
\<close>

record compress_lib =
  LZ4_compressBound :: "nat \<Rightarrow> nat"
  LZ4_compress_default :: "string \<Rightarrow> nat \<Rightarrow> string option"
  LZ4_decompress_safe :: "string \<Rightarrow> nat \<Rightarrow> string option"
  snappy_Compress :: "string \<Rightarrow> string option"
  snappy_IsValidCompressedBuffer :: "string \<Rightarrow> bool"
  snappy_Uncompress :: "string \<Rightarrow> string option"
  ZSTD_compressBound :: "nat \<Rightarrow> nat"
  ZSTD_compress :: "string \<Rightarrow> nat \<Rightarrow> int \<Rightarrow> string option"
  ZSTD_getFrameContentSize :: "string \<Rightarrow> nat option"
  ZSTD_decompress :: "string \<Rightarrow> string \<Rightarrow> string"

definition compress_lib_ok :: "compress_lib \<Rightarrow> bool" where
  "compress_lib_ok lib \<longleftrightarrow>
     (\<forall>s n. LZ4_compressBound lib (length s) \<le> n \<longrightarrow>
        (\<exists>c. LZ4_compress_default lib s n = Some c \<and> length c \<le> n \<and> c \<noteq> [] \<and>
           LZ4_decompress_safe lib c (length s) = Some s)) \<and>
     (\<forall>s. \<exists>c. snappy_Compress lib s = Some c \<and> snappy_IsValidCompressedBuffer lib c \<and>
        snappy_Uncompress lib c = Some s) \<and>
     (\<forall>s n level. ZSTD_compressBound lib (length s) \<le> n \<longrightarrow>
        (\<exists>c. ZSTD_compress lib s n level = Some c \<and> ZSTD_getFrameContentSize lib c = Some (length s) \<and>
           (\<forall>buffer. length buffer = length s \<longrightarrow> ZSTD_decompress lib buffer c = s)))"

subsection \<open>LZ4\<close>

text \<open>
  The size of the original follows the compressed data, as digits in a block of
  \<open>CONV_BUFFER_SIZE\<close> zero bytes.
\<close>

definition lz4_compress :: "compress_lib \<Rightarrow> string \<Rightarrow> string \<Rightarrow> (string \<times> string) result" where
  "lz4_compress lib buffer data =
     (let uncompressedSize = length data;
          requiredCapacity = LZ4_compressBound lib uncompressedSize + CONV_BUFFER_SIZE;
          buffer = resize buffer requiredCapacity
      in case LZ4_compress_default lib data (length buffer) of
          None \<Rightarrow> Inl (Runtime_Error ''compress failed'')
        | Some compressed \<Rightarrow>
            if compressed = [] then Inl (Runtime_Error ''compress failed'')
            else Inr (data, toCharsBoost_to uncompressedSize
                   (compressed @ replicate CONV_BUFFER_SIZE nul) (length compressed)))"

definition lz4_uncompress :: "compress_lib \<Rightarrow> string \<Rightarrow> string \<Rightarrow> (string \<times> string) result" where
  "lz4_uncompress lib buffer data =
     (if length data < CONV_BUFFER_SIZE then Inl Out_Of_Range
      else
        let metadata = drop (length data - CONV_BUFFER_SIZE) data in
        bindE (fromChars 64 metadata) (\<lambda>uncomprSize.
          let data = take (length data - length metadata) data in
          case LZ4_decompress_safe lib data uncomprSize of
            None \<Rightarrow> Inl (Runtime_Error ''uncompress failed'')
          | Some restored \<Rightarrow> Inr (restored, restored)))"

subsection \<open>Snappy\<close>

text \<open>A compression that fails is logged and leaves the data as it is.\<close>

definition snappy_compress :: "compress_lib \<Rightarrow> string \<Rightarrow> string \<Rightarrow> (string \<times> string) result" where
  "snappy_compress lib buffer data =
     (case snappy_Compress lib data of
        Some compressed \<Rightarrow> Inr (compressed, compressed)
      | None \<Rightarrow> Inr (buffer, data))"

definition snappy_uncompress :: "compress_lib \<Rightarrow> string \<Rightarrow> string \<Rightarrow> (string \<times> string) result" where
  "snappy_uncompress lib buffer data =
     (if \<not> snappy_IsValidCompressedBuffer lib data then Inl (Runtime_Error ''data is not valid.'')
      else
        case snappy_Uncompress lib data of
          Some restored \<Rightarrow> Inr (data, restored)
        | None \<Rightarrow> Inr (buffer, data))"

subsection \<open>ZSTD\<close>

text \<open>
  The result of \<open>ZSTD_decompress\<close> is not looked at: whatever is in the buffer is the data.
\<close>

definition zstd_compress :: "compress_lib \<Rightarrow> string \<Rightarrow> string \<Rightarrow> int \<Rightarrow> (string \<times> string) result" where
  "zstd_compress lib buffer data level =
     (let dstSize = ZSTD_compressBound lib (length data) in
      case ZSTD_compress lib data dstSize level of
        None \<Rightarrow> Inl (Runtime_Error ''ZSTD_compress'')
      | Some compressed \<Rightarrow> Inr (resize buffer dstSize, compressed))"

definition zstd_uncompress :: "compress_lib \<Rightarrow> string \<Rightarrow> string \<Rightarrow> (string \<times> string) result" where
  "zstd_uncompress lib buffer data =
     (case ZSTD_getFrameContentSize lib data of
        None \<Rightarrow> Inl (Runtime_Error ''ZSTD_getFrameContentSize'')
      | Some decompressedSize \<Rightarrow>
          let buffer = ZSTD_decompress lib (resize buffer decompressedSize) data
          in Inr (data, buffer))"

subsection \<open>The choice of the compressor\<close>

text \<open>The \<open>switch\<close> that all four operations of \<open>CryptoOperations\<close> have.\<close>

definition compress_by ::
  "compress_lib \<Rightarrow> COMPRESSORS \<Rightarrow> int \<Rightarrow> string \<Rightarrow> string \<Rightarrow> (string \<times> string) result" where
  "compress_by lib c level buffer data =
     (case c of
        LZ4 \<Rightarrow> lz4_compress lib buffer data
      | SNAPPY \<Rightarrow> snappy_compress lib buffer data
      | ZSTD \<Rightarrow> zstd_compress lib buffer data level
      | _ \<Rightarrow> Inr (buffer, data))"

definition uncompress_by ::
  "compress_lib \<Rightarrow> COMPRESSORS \<Rightarrow> string \<Rightarrow> string \<Rightarrow> (string \<times> string) result" where
  "uncompress_by lib c buffer data =
     (case c of
        LZ4 \<Rightarrow> lz4_uncompress lib buffer data
      | SNAPPY \<Rightarrow> snappy_uncompress lib buffer data
      | ZSTD \<Rightarrow> zstd_uncompress lib buffer data
      | _ \<Rightarrow> Inr (buffer, data))"

subsection \<open>Round trip\<close>

lemma lz4_metadata:
  assumes "n < 2 ^ 64"
  shows "toCharsBoost_to n (c @ replicate CONV_BUFFER_SIZE nul) (length c) =
    c @ to_digits n @ replicate (CONV_BUFFER_SIZE - length (to_digits n)) nul"
  using to_digits_fits [OF assms]
  by (simp add: toCharsBoost_to_def overwrite_def CONV_BUFFER_SIZE_def)

lemma lz4_roundtrip:
  assumes ok: "compress_lib_ok lib" and len: "length data < 2 ^ 64"
  shows "\<exists>b c. lz4_compress lib buffer data = Inr (b, c) \<and>
    (\<forall>buffer'. \<exists>b'. lz4_uncompress lib buffer' c = Inr (b', data))"
proof -
  let ?n = "LZ4_compressBound lib (length data) + CONV_BUFFER_SIZE"
  obtain c where c: "LZ4_compress_default lib data ?n = Some c" "c \<noteq> []"
    "LZ4_decompress_safe lib c (length data) = Some data"
    using ok unfolding compress_lib_ok_def by (meson le_add1)
  let ?m = "to_digits (length data) @ replicate (CONV_BUFFER_SIZE - length (to_digits (length data))) nul"
  have m: "length ?m = CONV_BUFFER_SIZE"
    using to_digits_fits [OF len] by (simp add: CONV_BUFFER_SIZE_def)
  have "lz4_compress lib buffer data = Inr (data, c @ ?m)"
    using c lz4_metadata [OF len, of c] by (simp add: lz4_compress_def Let_def)
  moreover have "fromChars 64 ?m = Inr (length data)" by (rule fromChars_padded [OF len])
  then have "lz4_uncompress lib buffer' (c @ ?m) = Inr (data, data)" for buffer'
    using m c(3) by (simp add: lz4_uncompress_def Let_def)
  ultimately show ?thesis by blast
qed

lemma compress_by_roundtrip:
  assumes "compress_lib_ok lib" and "length data < 2 ^ 64"
  shows "\<exists>b c. compress_by lib compressor level buffer data = Inr (b, c) \<and>
    (\<forall>buffer'. \<exists>b'. uncompress_by lib compressor buffer' c = Inr (b', data))"
proof (cases compressor)
  case LZ4
  then show ?thesis using lz4_roundtrip [OF assms] by (simp add: compress_by_def uncompress_by_def)
next
  case SNAPPY
  obtain c where "snappy_Compress lib data = Some c" "snappy_IsValidCompressedBuffer lib c"
    "snappy_Uncompress lib c = Some data"
    using assms(1) unfolding compress_lib_ok_def by blast
  then show ?thesis
    using SNAPPY by (simp add: compress_by_def uncompress_by_def snappy_compress_def snappy_uncompress_def)
next
  case ZSTD
  obtain c where "ZSTD_compress lib data (ZSTD_compressBound lib (length data)) level = Some c"
    "ZSTD_getFrameContentSize lib c = Some (length data)"
    "\<And>buffer. length buffer = length data \<Longrightarrow> ZSTD_decompress lib buffer c = data"
    using assms(1) unfolding compress_lib_ok_def by (meson order_refl)
  then show ?thesis
    using ZSTD by (simp add: compress_by_def uncompress_by_def zstd_compress_def zstd_uncompress_def Let_def)
qed (simp_all add: compress_by_def uncompress_by_def)

text \<open>
  Whatever the compressor, what was compressed is restored.
\<close>

theorem compress_roundtrip:
  assumes "compress_lib_ok lib" and "length data < 2 ^ 64"
  shows "\<exists>b c. compress_by lib compressor level buffer data = Inr (b, c) \<and>
    (\<forall>buffer'. \<exists>b'. uncompress_by lib compressor buffer' c = Inr (b', data))"
  by (rule compress_by_roundtrip [OF assms])

text \<open>A library for which the hypothesis holds: one that stores the data behind a byte.\<close>

definition store_lib :: compress_lib where
  "store_lib = \<lparr>LZ4_compressBound = (\<lambda>n. n + 1), LZ4_compress_default = (\<lambda>s n. Some (nul # s)),
     LZ4_decompress_safe = (\<lambda>s n. Some (tl s)), snappy_Compress = Some,
     snappy_IsValidCompressedBuffer = (\<lambda>_. True), snappy_Uncompress = Some,
     ZSTD_compressBound = (\<lambda>n. n), ZSTD_compress = (\<lambda>s n level. Some s),
     ZSTD_getFrameContentSize = (\<lambda>s. Some (length s)), ZSTD_decompress = (\<lambda>b s. s)\<rparr>"

lemma store_lib_ok: "compress_lib_ok store_lib"
  by (simp add: compress_lib_ok_def store_lib_def)

lemma compress_roundtrip_witness:
  "\<exists>b c. compress_by store_lib LZ4 3 [] ''ab'' = Inr (b, c) \<and>
    (\<forall>buffer'. \<exists>b'. uncompress_by store_lib LZ4 buffer' c = Inr (b', ''ab''))"
  by (rule compress_roundtrip [OF store_lib_ok]) simp

end
