(* ===== verification/Crypto.thy ===== *)
theory Crypto
  imports Headers
begin

section \<open>Encryptors (common/CryptoBase, CryptoSodium, CryptoPlPl)\<close>

text \<open>
  Both encryptors have the same life: the client makes a key pair and signs a message, the
  session verifies the signature and derives the session key from the client's public key, and
  the client derives it from the session's. A message is encrypted with its header in front; the
  receiver tells an encrypted message from a plain one by whether it starts with a header. The
  key is kept XORed with random bytes and taken out for every use.

  What the two libraries compute is a record of functions each, an argument of the model, with
  their documented properties as a predicate. Random bytes are arguments. The terminal that a
  process was started from decides who may use an encryptor.
\<close>

type_synonym bytes = "8 word list"

subsection \<open>Access\<close>

text \<open>
  \<open>Utility.cpp\<close>: the value of the environment variable now (\<open>None\<close> when it is not set: a
  string made of a null pointer) and the values saved for the three programs.
\<close>

record terminals =
  term_env :: "string option"
  serverTerminal :: string
  clientTerminal :: string
  testbinTerminal :: string

definition setServerTerminal :: "string \<Rightarrow> terminals \<Rightarrow> terminals" where
  "setServerTerminal terminal t = t\<lparr>serverTerminal := terminal\<rparr>"

definition setClientTerminal :: "string \<Rightarrow> terminals \<Rightarrow> terminals" where
  "setClientTerminal terminal t = t\<lparr>clientTerminal := terminal\<rparr>"

definition setTestbinTerminal :: "string \<Rightarrow> terminals \<Rightarrow> terminals" where
  "setTestbinTerminal terminal t = t\<lparr>testbinTerminal := terminal\<rparr>"

definition removeAccess :: "terminals \<Rightarrow> terminals" where
  "removeAccess t = t\<lparr>serverTerminal := [], clientTerminal := []\<rparr>"

definition isTerminal :: "(terminals \<Rightarrow> string) \<Rightarrow> terminals \<Rightarrow> bool result" where
  "isTerminal saved t =
     (case term_env t of None \<Rightarrow> Inl Undefined_Behaviour | Some e \<Rightarrow> Inr (e = saved t))"

definition checkAccess :: "terminals \<Rightarrow> bool \<Rightarrow> bool \<Rightarrow> bool result" where
  "checkAccess t verifiedSignature signatureSent =
     bindE (isTerminal serverTerminal t) (\<lambda>server.
       if server then Inr verifiedSignature
       else bindE (isTerminal clientTerminal t) (\<lambda>client.
         if client then Inr signatureSent
         else isTerminal testbinTerminal t))"

text \<open>\<open>CryptoBase::isEncrypted\<close>.\<close>

definition isEncrypted :: "HEADER \<Rightarrow> string \<Rightarrow> bool result" where
  "isEncrypted fresh input =
     (if input = [] then Inr False
      else if length input < HEADER_SIZE then Inl Assertion_Failed
      else case deserialize fresh input of
          Inl (Runtime_Error _) \<Rightarrow> Inr True
        | Inl (Conversion_Error _) \<Rightarrow> Inr True
        | Inl e \<Rightarrow> Inl e
        | Inr (_, ok) \<Rightarrow> Inr (\<not> ok))"

subsection \<open>The hidden key\<close>

record key_handler =
  kh_size :: nat
  kh_obfuscator :: bytes
  kh_obfuscated :: bool

definition key_handler_new :: "nat \<Rightarrow> key_handler" where
  "key_handler_new n = \<lparr>kh_size = n, kh_obfuscator = replicate n 0, kh_obfuscated = False\<rparr>"

text \<open>The loops \<open>key[i] ^= obfuscator[i]\<close>.\<close>

fun xor_bytes :: "nat \<Rightarrow> bytes \<Rightarrow> bytes \<Rightarrow> bytes" where
  "xor_bytes 0 key obf = key"
| "xor_bytes (Suc n) (k # ks) (b # bs) = (xor k b) # xor_bytes n ks bs"
| "xor_bytes (Suc n) key obf = key"

definition hideKey :: "bytes \<Rightarrow> bytes \<Rightarrow> key_handler \<Rightarrow> bytes \<times> key_handler" where
  "hideKey random key h =
     (if kh_obfuscated h then (key, h)
      else (xor_bytes (kh_size h) key random, h\<lparr>kh_obfuscator := random, kh_obfuscated := True\<rparr>))"

definition recoverKey :: "bytes \<Rightarrow> key_handler \<Rightarrow> bytes \<times> key_handler" where
  "recoverKey key h =
     (if kh_obfuscated h
      then (xor_bytes (kh_size h) key (kh_obfuscator h),
            h\<lparr>kh_obfuscated := False, kh_obfuscator := replicate (kh_size h) 0\<rparr>)
      else (key, h))"

text \<open>\<open>setAESKey\<close> and \<open>setAESmodule\<close>: recover, copy, hide with new random bytes.\<close>

definition take_key :: "bytes \<Rightarrow> bytes \<Rightarrow> key_handler \<Rightarrow> bytes \<times> bytes \<times> key_handler" where
  "take_key random key h =
     (let (key, h) = recoverKey key h; copy = key; (key, h) = hideKey random key h
      in (copy, key, h))"

definition plain_key :: "bytes \<Rightarrow> key_handler \<Rightarrow> bytes" where
  "plain_key key h = fst (recoverKey key h)"

lemma xor_bytes_twice [simp]: "xor_bytes n (xor_bytes n key obf) obf = key"
  by (induction n key obf rule: xor_bytes.induct) (simp_all add: xor.assoc)

lemma length_xor_bytes [simp]: "length (xor_bytes n key obf) = length key"
  by (induction n key obf rule: xor_bytes.induct) simp_all

text \<open>However often the key is used and hidden anew, its holder gets the same key.\<close>

lemma take_key_plain:
  assumes "take_key random key h = (copy, key', h')"
  shows "copy = plain_key key h \<and> plain_key key' h' = plain_key key h \<and> kh_obfuscated h'"
  using assms
  by (auto simp: take_key_def plain_key_def recoverKey_def hideKey_def Let_def split: if_splits)

lemma hideKey_plain:
  "hideKey random key h = (key', h') \<Longrightarrow> plain_key key' h' = plain_key key h \<and> kh_obfuscated h'"
  by (auto simp: plain_key_def recoverKey_def hideKey_def split: if_splits)

subsection \<open>CryptoSodium\<close>

definition crypto_kx_PUBLICKEYBYTES :: nat where "crypto_kx_PUBLICKEYBYTES = 32"
definition crypto_kx_SESSIONKEYBYTES :: nat where "crypto_kx_SESSIONKEYBYTES = 32"
definition crypto_sign_BYTES :: nat where "crypto_sign_BYTES = 64"
definition crypto_sign_PUBLICKEYBYTES :: nat where "crypto_sign_PUBLICKEYBYTES = 32"
definition crypto_aead_ABYTES :: nat where "crypto_aead_ABYTES = 16"
definition crypto_aead_NPUBBYTES :: nat where "crypto_aead_NPUBBYTES = 12"

text \<open>The functions of the library; a secret key and the public key of it are made from a seed.\<close>

record sodium =
  kx_public :: "bytes \<Rightarrow> string"
  kx_server_key :: "string \<Rightarrow> bytes \<Rightarrow> string \<Rightarrow> bytes option"
  kx_client_key :: "string \<Rightarrow> bytes \<Rightarrow> string \<Rightarrow> bytes option"
  sign_public :: "bytes \<Rightarrow> string"
  sign_detached :: "string \<Rightarrow> bytes \<Rightarrow> string"
  sign_verify :: "string \<Rightarrow> string \<Rightarrow> string \<Rightarrow> bool"
  bin2base64 :: "string \<Rightarrow> string"
  base642bin :: "string \<Rightarrow> string option"
  generichash :: "string \<Rightarrow> string"
  aead_encrypt :: "bytes \<Rightarrow> string \<Rightarrow> string \<Rightarrow> string option"
  aead_decrypt :: "bytes \<Rightarrow> string \<Rightarrow> string \<Rightarrow> string option"

definition sodium_ok :: "sodium \<Rightarrow> bool" where
  "sodium_ok lib \<longleftrightarrow>
     (\<forall>seed. length (kx_public lib seed) = crypto_kx_PUBLICKEYBYTES) \<and>
     (\<forall>server client. \<exists>k. length k = crypto_kx_SESSIONKEYBYTES \<and>
        kx_server_key lib (kx_public lib server) server (kx_public lib client) = Some k \<and>
        kx_client_key lib (kx_public lib client) client (kx_public lib server) = Some k) \<and>
     (\<forall>seed. length (sign_public lib seed) = crypto_sign_PUBLICKEYBYTES) \<and>
     (\<forall>m seed. length (sign_detached lib m seed) = crypto_sign_BYTES \<and>
        sign_verify lib (sign_detached lib m seed) m (sign_public lib seed)) \<and>
     (\<forall>s. base642bin lib (bin2base64 lib s) = Some s) \<and>
     (\<forall>k n m. length n = crypto_aead_NPUBBYTES \<longrightarrow> (\<exists>c. aead_encrypt lib k n m = Some c \<and>
        length c = length m + crypto_aead_ABYTES \<and> aead_decrypt lib k n c = Some m))"

record encryptor =
  en_key :: bytes
  en_handler :: key_handler
  en_seed :: bytes
  en_pubKeyAes :: string
  en_encodedPubKeyAes :: string
  en_signatureWithPubKeySign :: string
  en_msgHash :: string
  en_verifiedSignature :: bool
  en_keysExchanged :: bool
  en_signatureSent :: bool

text \<open>\<open>hashMessage\<close>: the message is copied into an array of the size of a hash.\<close>

definition hashMessage :: "sodium \<Rightarrow> string \<Rightarrow> string result" where
  "hashMessage lib message =
     (if 32 < length message then Inl Undefined_Behaviour
      else Inr (generichash lib (resize message 32)))"

definition base64_decode :: "sodium \<Rightarrow> string \<Rightarrow> string result" where
  "base64_decode lib encoded =
     (case base642bin lib encoded of None \<Rightarrow> Inl (Runtime_Error ''sodium_base642bin failed'') | Some s \<Rightarrow> Inr s)"

definition CryptoSodium_client ::
  "sodium \<Rightarrow> string \<Rightarrow> bytes \<Rightarrow> bytes \<Rightarrow> encryptor result" where
  "CryptoSodium_client lib authMessage kxSeed signSeed =
     bindE (hashMessage lib authMessage) (\<lambda>msgHash.
       let pub = kx_public lib kxSeed in
       Inr \<lparr>en_key = replicate crypto_kx_SESSIONKEYBYTES 0,
            en_handler = key_handler_new crypto_kx_SESSIONKEYBYTES, en_seed = kxSeed,
            en_pubKeyAes = pub, en_encodedPubKeyAes = bin2base64 lib pub,
            en_signatureWithPubKeySign = sign_detached lib msgHash signSeed @ sign_public lib signSeed,
            en_msgHash = msgHash, en_verifiedSignature = False, en_keysExchanged = False,
            en_signatureSent = False\<rparr>)"

text \<open>
  The constructor of the session copies what the client sent into arrays of fixed sizes before
  anything is verified; what does not fit is written past their ends.
\<close>

definition CryptoSodium_session ::
  "sodium \<Rightarrow> string \<Rightarrow> bytes \<Rightarrow> bytes \<Rightarrow> string \<Rightarrow> string \<Rightarrow> encryptor result" where
  "CryptoSodium_session lib authMessage kxSeed random encodedPeerAesPubKey signatureWithPubKeySign =
     bindE (hashMessage lib authMessage) (\<lambda>msgHash.
     bindE (base64_decode lib encodedPeerAesPubKey) (\<lambda>peer.
         if crypto_kx_PUBLICKEYBYTES < length peer then Inl Undefined_Behaviour
         else
           let peer = resize peer crypto_kx_PUBLICKEYBYTES; pub = kx_public lib kxSeed in
           if length signatureWithPubKeySign < crypto_sign_BYTES \<or>
              crypto_sign_BYTES + crypto_sign_PUBLICKEYBYTES < length signatureWithPubKeySign
           then Inl Undefined_Behaviour
           else
             let signature = take crypto_sign_BYTES signatureWithPubKeySign;
                 peerKey = resize (drop crypto_sign_BYTES signatureWithPubKeySign) crypto_sign_PUBLICKEYBYTES
             in if \<not> sign_verify lib signature msgHash peerKey
                then Inl (Runtime_Error ''authentication failed'')
                else case kx_server_key lib pub kxSeed peer of
                    None \<Rightarrow> Inl (Runtime_Error ''Server-side key exchange failed'')
                  | Some key \<Rightarrow>
                      let (key, h) = hideKey random key (key_handler_new crypto_kx_SESSIONKEYBYTES)
                      in Inr \<lparr>en_key = key, en_handler = h, en_seed = [],
                              en_pubKeyAes = pub, en_encodedPubKeyAes = bin2base64 lib pub,
                              en_signatureWithPubKeySign = [], en_msgHash = msgHash,
                              en_verifiedSignature = True, en_keysExchanged = True,
                              en_signatureSent = False\<rparr>))"

definition sodium_clientKeyExchange ::
  "sodium \<Rightarrow> bytes \<Rightarrow> string \<Rightarrow> encryptor \<Rightarrow> encryptor result" where
  "sodium_clientKeyExchange lib random encodedPeerPubKeyAes e =
     (if en_keysExchanged e then Inr e
      else bindE (base64_decode lib encodedPeerPubKeyAes) (\<lambda>peer.
            if crypto_kx_PUBLICKEYBYTES < length peer then Inl Undefined_Behaviour
            else case kx_client_key lib (en_pubKeyAes e) (en_seed e) (resize peer crypto_kx_PUBLICKEYBYTES) of
                None \<Rightarrow> Inl (Runtime_Error ''Client-side key exchange failed'')
              | Some key \<Rightarrow>
                  let (key, h) = hideKey random key (en_handler e)
                  in Inr (e\<lparr>en_key := key, en_handler := h, en_keysExchanged := True\<rparr>)))"

definition sodium_sendSignature :: "encryptor \<Rightarrow> encryptor" where
  "sodium_sendSignature e = e\<lparr>en_signatureSent := True,
     en_signatureWithPubKeySign := replicate (length (en_signatureWithPubKeySign e)) nul,
     en_encodedPubKeyAes := replicate (length (en_encodedPubKeyAes e)) nul\<rparr>"

definition take_encryptor_key :: "bytes \<Rightarrow> encryptor \<Rightarrow> bytes \<times> encryptor" where
  "take_encryptor_key random e =
     (let (copy, key, h) = take_key random (en_key e) (en_handler e)
      in (copy, e\<lparr>en_key := key, en_handler := h\<rparr>))"

text \<open>
  \<open>encrypt\<close>: \<open>input\<close> is thread-local and keeps its contents; it is overwritten by the header,
  so without a header the data is appended to what an earlier call left there.
\<close>

definition sodium_encrypt ::
  "sodium \<Rightarrow> terminals \<Rightarrow> bytes \<Rightarrow> string \<Rightarrow> encryptor \<Rightarrow> string \<Rightarrow> HEADER option \<Rightarrow> string \<Rightarrow>
   (string \<times> encryptor \<times> string) result" where
  "sodium_encrypt lib t random nonce e input header data =
     bindE (checkAccess t (en_verifiedSignature e) (en_signatureSent e)) (\<lambda>access.
       if \<not> access then Inl (Runtime_Error ''access denied'')
       else
         let input = (case header of None \<Rightarrow> input | Some h \<Rightarrow> serialize h) @ data;
             (key, e) = take_encryptor_key random e
         in case aead_encrypt lib key nonce input of
             None \<Rightarrow> Inl (Runtime_Error ''encrypt failed'')
           | Some buffer \<Rightarrow> Inr (buffer @ nonce, e, input))"

text \<open>\<open>decrypt\<close> leaves a message that starts with a header as it is.\<close>

definition sodium_decrypt ::
  "sodium \<Rightarrow> terminals \<Rightarrow> HEADER \<Rightarrow> bytes \<Rightarrow> encryptor \<Rightarrow> string \<Rightarrow> (string \<times> encryptor) result" where
  "sodium_decrypt lib t fresh random e data =
     bindE (checkAccess t (en_verifiedSignature e) (en_signatureSent e)) (\<lambda>access.
       if \<not> access then Inl (Runtime_Error ''access denied'')
       else bindE (isEncrypted fresh data) (\<lambda>encrypted.
         if \<not> encrypted then Inr (data, e)
         else
           let n = length data - crypto_aead_NPUBBYTES;
               (key, e) = take_encryptor_key random e
           in case aead_decrypt lib key (drop n data) (take n data) of
               None \<Rightarrow> Inl (Runtime_Error ''decrypt failed'')
             | Some m \<Rightarrow> Inr (m, e)))"

subsection \<open>CryptoPlPl\<close>

definition RSA_KEY_SIZE :: nat where "RSA_KEY_SIZE = 2048"
definition PublicKeyLength :: nat where "PublicKeyLength = 65"
definition AgreedValueLength :: nat where "AgreedValueLength = 32"
definition AES_BLOCKSIZE :: nat where "AES_BLOCKSIZE = 16"

text \<open>
  The functions of Crypto++: Diffie-Hellman on the curve, RSA signatures with the DER encoding of
  the public key, the hash in hexadecimal, AES in CBC mode.
\<close>

record cryptopp =
  dh_public :: "bytes \<Rightarrow> string"
  dh_Agree :: "bytes \<Rightarrow> string \<Rightarrow> bytes option"
  rsa_DEREncode :: "bytes \<Rightarrow> string option"
  rsa_Load :: "string \<Rightarrow> bool"
  rsa_sign :: "bytes \<Rightarrow> string \<Rightarrow> string"
  rsa_VerifyMessage :: "string \<Rightarrow> string \<Rightarrow> string \<Rightarrow> bool"
  sha256_hex :: "string \<Rightarrow> string"
  cbc_encrypt :: "bytes \<Rightarrow> string \<Rightarrow> string \<Rightarrow> string"
  cbc_decrypt :: "bytes \<Rightarrow> string \<Rightarrow> string \<Rightarrow> string option"

definition cryptopp_ok :: "cryptopp \<Rightarrow> bool" where
  "cryptopp_ok lib \<longleftrightarrow>
     (\<forall>seed. length (dh_public lib seed) = PublicKeyLength) \<and>
     (\<forall>a b. \<exists>k. length k = AgreedValueLength \<and> dh_Agree lib a (dh_public lib b) = Some k \<and>
        dh_Agree lib b (dh_public lib a) = Some k) \<and>
     (\<forall>seed. \<exists>der. rsa_DEREncode lib seed = Some der \<and> rsa_Load lib der \<and>
        (\<forall>m. length (rsa_sign lib seed m) = RSA_KEY_SIZE div 8 \<and>
           rsa_VerifyMessage lib der m (rsa_sign lib seed m))) \<and>
     (\<forall>k iv m. length iv = AES_BLOCKSIZE \<longrightarrow> cbc_decrypt lib k iv (cbc_encrypt lib k iv m) = Some m)"

definition encodeRsaPublicKey :: "cryptopp \<Rightarrow> bytes \<Rightarrow> bool \<times> string" where
  "encodeRsaPublicKey lib rsaSeed =
     (case rsa_DEREncode lib rsaSeed of Some serialized \<Rightarrow> (True, serialized) | None \<Rightarrow> (False, []))"

definition decodePeerRsaPublicKey :: "cryptopp \<Rightarrow> string \<Rightarrow> string result" where
  "decodePeerRsaPublicKey lib serialized =
     (if \<not> rsa_Load lib serialized then Inl (Runtime_Error ''rsa key decode failed'') else Inr serialized)"

definition signMessage :: "cryptopp \<Rightarrow> bytes \<Rightarrow> string \<Rightarrow> string \<Rightarrow> string" where
  "signMessage lib rsaSeed msgHash serializedRsaPubKey = rsa_sign lib rsaSeed msgHash @ serializedRsaPubKey"

definition verifySignature :: "cryptopp \<Rightarrow> string \<Rightarrow> string \<Rightarrow> string \<Rightarrow> bool \<Rightarrow> bool result" where
  "verifySignature lib peerRsaPubKey msgHash signature verified =
     (if \<not> verified \<and> \<not> rsa_VerifyMessage lib peerRsaPubKey msgHash signature
      then Inl (Runtime_Error ''Failed to verify signature'') else Inr True)"

definition CryptoPlPl_client ::
  "cryptopp \<Rightarrow> string \<Rightarrow> bytes \<Rightarrow> bytes \<Rightarrow> encryptor result" where
  "CryptoPlPl_client lib authMessage dhSeed rsaSeed =
     (let msgHash = sha256_hex lib authMessage; pub = dh_public lib dhSeed in
      case encodeRsaPublicKey lib rsaSeed of (success, der) \<Rightarrow>
        if \<not> success then Inl (Runtime_Error ''rsa key encode failed'')
        else
          Inr \<lparr>en_key = replicate AgreedValueLength 0, en_handler = key_handler_new AgreedValueLength,
               en_seed = dhSeed, en_pubKeyAes = pub, en_encodedPubKeyAes = pub,
               en_signatureWithPubKeySign = signMessage lib rsaSeed msgHash der,
               en_msgHash = msgHash, en_verifiedSignature = False, en_keysExchanged = False,
               en_signatureSent = False\<rparr>)"

text \<open>
  The key of the client is read from its address, as many bytes as a key has; so is the
  signature.
\<close>

definition CryptoPlPl_session ::
  "cryptopp \<Rightarrow> string \<Rightarrow> bytes \<Rightarrow> bytes \<Rightarrow> string \<Rightarrow> string \<Rightarrow> encryptor result" where
  "CryptoPlPl_session lib authMessage dhSeed random encodedPeerAesPubKey signatureWithPubKey =
     (let msgHash = sha256_hex lib authMessage; pub = dh_public lib dhSeed in
      if length encodedPeerAesPubKey < PublicKeyLength then Inl Undefined_Behaviour
      else case dh_Agree lib dhSeed (take PublicKeyLength encodedPeerAesPubKey) of
          None \<Rightarrow> Inl (Runtime_Error ''Server-side DiffieHellman Failed'')
        | Some key \<Rightarrow>
            let (key, h) = hideKey random key (key_handler_new AgreedValueLength) in
            if length signatureWithPubKey < RSA_KEY_SIZE div 8 then Inl Undefined_Behaviour
            else
              let signature = take (RSA_KEY_SIZE div 8) signatureWithPubKey;
                  der = drop (RSA_KEY_SIZE div 8) signatureWithPubKey
              in bindE (decodePeerRsaPublicKey lib der) (\<lambda>peerRsaPubKey.
                 bindE (verifySignature lib peerRsaPubKey msgHash signature False) (\<lambda>verified.
                 if \<not> verified then Inl (Runtime_Error ''signature verification failed.'')
                 else Inr \<lparr>en_key = key, en_handler = h, en_seed = dhSeed,
                           en_pubKeyAes = pub, en_encodedPubKeyAes = pub,
                           en_signatureWithPubKeySign = signatureWithPubKey, en_msgHash = msgHash,
                           en_verifiedSignature = True, en_keysExchanged = True,
                           en_signatureSent = False\<rparr>)))"

lemmas rsa_defs = encodeRsaPublicKey_def decodePeerRsaPublicKey_def signMessage_def verifySignature_def

definition cryptopp_clientKeyExchange ::
  "cryptopp \<Rightarrow> bytes \<Rightarrow> string \<Rightarrow> encryptor \<Rightarrow> encryptor result" where
  "cryptopp_clientKeyExchange lib random encodedPeerPubKeyAes e =
     (if en_keysExchanged e then Inr e
      else if length encodedPeerPubKeyAes < PublicKeyLength then Inl Undefined_Behaviour
      else case dh_Agree lib (en_seed e) encodedPeerPubKeyAes of
          None \<Rightarrow> Inl (Runtime_Error ''Client-side key exchange failed'')
        | Some key \<Rightarrow>
            let (key, h) = hideKey random key (en_handler e)
            in Inr (e\<lparr>en_key := key, en_handler := h, en_keysExchanged := True\<rparr>))"

text \<open>The key that the other side needs is left in place here.\<close>

definition cryptopp_sendSignature :: "encryptor \<Rightarrow> encryptor" where
  "cryptopp_sendSignature e = e\<lparr>en_signatureSent := True,
     en_signatureWithPubKeySign := replicate (length (en_signatureWithPubKeySign e)) nul\<rparr>"

definition cryptopp_encrypt ::
  "cryptopp \<Rightarrow> terminals \<Rightarrow> bytes \<Rightarrow> string \<Rightarrow> encryptor \<Rightarrow> HEADER option \<Rightarrow> string \<Rightarrow>
   (string \<times> encryptor) result" where
  "cryptopp_encrypt lib t random iv e header data =
     bindE (checkAccess t (en_verifiedSignature e) (en_signatureSent e)) (\<lambda>access.
       if \<not> access then Inl (Runtime_Error ''access denied'')
       else
         let (key, e) = take_encryptor_key random e;
             input = (case header of None \<Rightarrow> [] | Some h \<Rightarrow> serialize h) @ data
         in Inr (cbc_encrypt lib key iv input @ iv, e))"

definition cryptopp_decrypt ::
  "cryptopp \<Rightarrow> terminals \<Rightarrow> HEADER \<Rightarrow> bytes \<Rightarrow> encryptor \<Rightarrow> string \<Rightarrow> (string \<times> encryptor) result" where
  "cryptopp_decrypt lib t fresh random e data =
     bindE (checkAccess t (en_verifiedSignature e) (en_signatureSent e)) (\<lambda>access.
       if \<not> access then Inl (Runtime_Error ''access denied'')
       else bindE (isEncrypted fresh data) (\<lambda>encrypted.
         if \<not> encrypted then Inr (data, e)
         else
           let n = length data - AES_BLOCKSIZE; (key, e) = take_encryptor_key random e
           in case cbc_decrypt lib key (drop n data) (take n data) of
               None \<Rightarrow> Inl (Runtime_Error ''StreamTransformationFilter: invalid PKCS #7 block padding found'')
             | Some m \<Rightarrow> Inr (m, e)))"

subsection \<open>Destruction\<close>

text \<open>
  The destructors overwrite what must not stay in memory; the members with the handler are
  destroyed after the body. \<open>en_seed\<close> stands for the private key.
\<close>

definition key_handler_end :: "key_handler \<Rightarrow> key_handler" where
  "key_handler_end h = h\<lparr>kh_obfuscator := replicate (length (kh_obfuscator h)) 0\<rparr>"

definition wiped :: "string \<Rightarrow> string" where
  "wiped s = replicate (length s) nul"

definition CryptoSodium_end :: "encryptor \<Rightarrow> encryptor" where
  "CryptoSodium_end e = e\<lparr>en_key := replicate (length (en_key e)) 0, en_seed := replicate (length (en_seed e)) 0,
     en_msgHash := wiped (en_msgHash e), en_signatureWithPubKeySign := wiped (en_signatureWithPubKeySign e),
     en_handler := key_handler_end (en_handler e)\<rparr>"

definition CryptoPlPl_end :: "encryptor \<Rightarrow> encryptor" where
  "CryptoPlPl_end e = e\<lparr>en_key := replicate (length (en_key e)) 0, en_msgHash := wiped (en_msgHash e),
     en_seed := replicate (length (en_seed e)) 0, en_pubKeyAes := wiped (en_pubKeyAes e),
     en_signatureWithPubKeySign := wiped (en_signatureWithPubKeySign e),
     en_handler := key_handler_end (en_handler e)\<rparr>"

lemma xor_bytes_zero: "xor_bytes n (replicate k 0) (replicate m 0) = replicate k 0"
proof (induction n arbitrary: k m)
  case (Suc n)
  then show ?case by (cases k; cases m) simp_all
qed simp

subsection \<open>Handshake\<close>

definition encryptor_key :: "encryptor \<Rightarrow> bytes" where
  "encryptor_key e = plain_key (en_key e) (en_handler e)"

lemma take_encryptor_key_plain:
  assumes "take_encryptor_key random e = (copy, e')"
  shows "copy = encryptor_key e" and "encryptor_key e' = encryptor_key e"
    and "en_verifiedSignature e' = en_verifiedSignature e" "en_signatureSent e' = en_signatureSent e"
proof -
  obtain key h where k: "take_key random (en_key e) (en_handler e) = (copy, key, h)"
    "e' = e\<lparr>en_key := key, en_handler := h\<rparr>"
    using assms by (auto simp: take_encryptor_key_def split: prod.splits)
  then show "copy = encryptor_key e" "encryptor_key e' = encryptor_key e"
    "en_verifiedSignature e' = en_verifiedSignature e" "en_signatureSent e' = en_signatureSent e"
    using take_key_plain [OF k(1)] by (simp_all add: encryptor_key_def)
qed

text \<open>Whether the key was hidden or not, nothing of it can be recovered from a destroyed encryptor.\<close>

lemma destroyed_key:
  "encryptor_key (CryptoSodium_end e) = replicate (length (en_key e)) 0"
  "encryptor_key (CryptoPlPl_end e) = replicate (length (en_key e)) 0"
  by (simp_all add: encryptor_key_def plain_key_def recoverKey_def CryptoSodium_end_def CryptoPlPl_end_def
      key_handler_end_def xor_bytes_zero)

lemma plain_key_fresh: "hideKey r key (key_handler_new n) = (key', h) \<Longrightarrow> plain_key key' h = key"
  by (auto simp: hideKey_def key_handler_new_def plain_key_def recoverKey_def)

lemma resize_id: "length s = n \<Longrightarrow> resize s n = s"
  by (simp add: resize_def)

lemma sodium_handshake_aux:
  assumes "sodium_ok lib" and "length authMessage \<le> 32"
  shows "\<exists>client session client'. CryptoSodium_client lib authMessage cs ss = Inr client \<and>
    CryptoSodium_session lib authMessage ks r1 (en_encodedPubKeyAes client)
      (en_signatureWithPubKeySign client) = Inr session \<and>
    sodium_clientKeyExchange lib r2 (en_encodedPubKeyAes session) client = Inr client' \<and>
    en_verifiedSignature session \<and> encryptor_key client' = encryptor_key session"
proof -
  let ?h = "generichash lib (resize authMessage 32)"
  let ?sig = "sign_detached lib ?h ss @ sign_public lib ss"
  obtain client where c: "CryptoSodium_client lib authMessage cs ss = Inr client"
    "en_encodedPubKeyAes client = bin2base64 lib (kx_public lib cs)" "en_seed client = cs"
    "en_pubKeyAes client = kx_public lib cs" "en_signatureWithPubKeySign client = ?sig"
    "en_handler client = key_handler_new crypto_kx_SESSIONKEYBYTES" "\<not> en_keysExchanged client"
    using assms(2) by (simp add: CryptoSodium_client_def hashMessage_def Let_def)
  obtain k where k: "kx_server_key lib (kx_public lib ks) ks (kx_public lib cs) = Some k"
    "kx_client_key lib (kx_public lib cs) cs (kx_public lib ks) = Some k"
    using assms(1) unfolding sodium_ok_def by blast
  have ok: "base642bin lib (bin2base64 lib s) = Some s" "length (kx_public lib seed) = crypto_kx_PUBLICKEYBYTES"
    "length (sign_public lib seed) = crypto_sign_PUBLICKEYBYTES"
    "length (sign_detached lib m seed) = crypto_sign_BYTES"
    "sign_verify lib (sign_detached lib m seed) m (sign_public lib seed)" for s seed m
    using assms(1) unfolding sodium_ok_def by blast+
  obtain key1 h1 where 1: "hideKey r1 k (key_handler_new crypto_kx_SESSIONKEYBYTES) = (key1, h1)" by force
  obtain key2 h2 where 2: "hideKey r2 k (key_handler_new crypto_kx_SESSIONKEYBYTES) = (key2, h2)" by force
  obtain session where s: "CryptoSodium_session lib authMessage ks r1 (en_encodedPubKeyAes client)
      (en_signatureWithPubKeySign client) = Inr session"
    "en_verifiedSignature session" "en_key session = key1" "en_handler session = h1"
    "en_encodedPubKeyAes session = bin2base64 lib (kx_public lib ks)"
    using assms(2) c k ok 1
    by (simp add: CryptoSodium_session_def base64_decode_def hashMessage_def resize_id Let_def)
  have "sodium_clientKeyExchange lib r2 (en_encodedPubKeyAes session) client =
      Inr (client\<lparr>en_key := key2, en_handler := h2, en_keysExchanged := True\<rparr>)"
    using c s ok k 2 by (simp add: sodium_clientKeyExchange_def base64_decode_def resize_id)
  moreover have "encryptor_key (client\<lparr>en_key := key2, en_handler := h2, en_keysExchanged := True\<rparr>) =
      encryptor_key session"
    using s plain_key_fresh [OF 1] plain_key_fresh [OF 2] by (simp add: encryptor_key_def)
  ultimately show ?thesis using c(1) s by blast
qed

text \<open>
  A client and the session that is made from what it sends hold the same key, and the session
  has verified the client's signature.
\<close>

theorem sodium_handshake:
  assumes "sodium_ok lib" and "length authMessage \<le> 32"
  shows "\<exists>client session client'. CryptoSodium_client lib authMessage cs ss = Inr client \<and>
    CryptoSodium_session lib authMessage ks r1 (en_encodedPubKeyAes client)
      (en_signatureWithPubKeySign client) = Inr session \<and>
    sodium_clientKeyExchange lib r2 (en_encodedPubKeyAes session) client = Inr client' \<and>
    en_verifiedSignature session \<and> encryptor_key client' = encryptor_key session"
  by (rule sodium_handshake_aux [OF assms])

lemma cryptopp_handshake_aux:
  assumes "cryptopp_ok lib"
  shows "\<exists>client session client'. CryptoPlPl_client lib authMessage cs rs = Inr client \<and>
    CryptoPlPl_session lib authMessage ks r1 (en_encodedPubKeyAes client)
      (en_signatureWithPubKeySign client) = Inr session \<and>
    cryptopp_clientKeyExchange lib r2 (en_encodedPubKeyAes session) client = Inr client' \<and>
    en_verifiedSignature session \<and> encryptor_key client' = encryptor_key session"
proof -
  let ?h = "sha256_hex lib authMessage"
  obtain der where der: "rsa_DEREncode lib rs = Some der" "rsa_Load lib der"
    "\<And>m. length (rsa_sign lib rs m) = RSA_KEY_SIZE div 8"
    "\<And>m. rsa_VerifyMessage lib der m (rsa_sign lib rs m)"
    using assms unfolding cryptopp_ok_def by blast
  obtain client where c: "CryptoPlPl_client lib authMessage cs rs = Inr client"
    "en_encodedPubKeyAes client = dh_public lib cs" "en_seed client = cs"
    "en_signatureWithPubKeySign client = rsa_sign lib rs ?h @ der"
    "en_handler client = key_handler_new AgreedValueLength" "\<not> en_keysExchanged client"
    using der(1) by (simp add: CryptoPlPl_client_def rsa_defs Let_def)
  obtain k where k: "dh_Agree lib ks (dh_public lib cs) = Some k" "dh_Agree lib cs (dh_public lib ks) = Some k"
    using assms unfolding cryptopp_ok_def by blast
  have len: "length (dh_public lib seed) = PublicKeyLength" for seed
    using assms unfolding cryptopp_ok_def by blast
  obtain key1 h1 where 1: "hideKey r1 k (key_handler_new AgreedValueLength) = (key1, h1)" by force
  obtain key2 h2 where 2: "hideKey r2 k (key_handler_new AgreedValueLength) = (key2, h2)" by force
  obtain session where s: "CryptoPlPl_session lib authMessage ks r1 (en_encodedPubKeyAes client)
      (en_signatureWithPubKeySign client) = Inr session"
    "en_verifiedSignature session" "en_key session = key1" "en_handler session = h1"
    "en_encodedPubKeyAes session = dh_public lib ks"
    using c k len der 1 by (simp add: CryptoPlPl_session_def rsa_defs Let_def)
  have "cryptopp_clientKeyExchange lib r2 (en_encodedPubKeyAes session) client =
      Inr (client\<lparr>en_key := key2, en_handler := h2, en_keysExchanged := True\<rparr>)"
    using c s len k 2 by (simp add: cryptopp_clientKeyExchange_def)
  moreover have "encryptor_key (client\<lparr>en_key := key2, en_handler := h2, en_keysExchanged := True\<rparr>) =
      encryptor_key session"
    using s plain_key_fresh [OF 1] plain_key_fresh [OF 2] by (simp add: encryptor_key_def)
  ultimately show ?thesis using c(1) s by blast
qed

theorem cryptopp_handshake:
  assumes "cryptopp_ok lib"
  shows "\<exists>client session client'. CryptoPlPl_client lib authMessage cs rs = Inr client \<and>
    CryptoPlPl_session lib authMessage ks r1 (en_encodedPubKeyAes client)
      (en_signatureWithPubKeySign client) = Inr session \<and>
    cryptopp_clientKeyExchange lib r2 (en_encodedPubKeyAes session) client = Inr client' \<and>
    en_verifiedSignature session \<and> encryptor_key client' = encryptor_key session"
  by (rule cryptopp_handshake_aux [OF assms])

lemma sodium_authentication_aux:
  assumes "CryptoSodium_session lib authMessage ks r peer sig = Inr session"
  shows "hashMessage lib authMessage = Inr (en_msgHash session) \<and> en_verifiedSignature session \<and>
    sign_verify lib (take crypto_sign_BYTES sig) (en_msgHash session)
      (resize (drop crypto_sign_BYTES sig) crypto_sign_PUBLICKEYBYTES) \<and>
    (\<exists>p. base642bin lib peer = Some p \<and>
      kx_server_key lib (kx_public lib ks) ks (resize p crypto_kx_PUBLICKEYBYTES) = Some (encryptor_key session))"
proof -
  obtain h where h: "hashMessage lib authMessage = Inr h"
    using assms by (auto simp: CryptoSodium_session_def bindE_Inr_iff)
  obtain p where p: "base642bin lib peer = Some p"
    using assms h by (cases "base642bin lib peer") (simp_all add: CryptoSodium_session_def base64_decode_def)
  obtain k where k: "kx_server_key lib (kx_public lib ks) ks (resize p crypto_kx_PUBLICKEYBYTES) = Some k"
    using assms h p
    by (cases "kx_server_key lib (kx_public lib ks) ks (resize p crypto_kx_PUBLICKEYBYTES)")
      (auto simp: CryptoSodium_session_def base64_decode_def Let_def split: if_splits)
  obtain key hd where hk: "hideKey r k (key_handler_new crypto_kx_SESSIONKEYBYTES) = (key, hd)" by force
  have "sign_verify lib (take crypto_sign_BYTES sig) h
      (resize (drop crypto_sign_BYTES sig) crypto_sign_PUBLICKEYBYTES)"
    and "en_msgHash session = h" "en_verifiedSignature session" "en_key session = key" "en_handler session = hd"
    using assms h p k hk by (auto simp: CryptoSodium_session_def base64_decode_def Let_def split: if_splits)
  then show ?thesis using h p k plain_key_fresh [OF hk] by (simp add: encryptor_key_def)
qed

text \<open>
  C28: No session without authentication: a session that is made has verified a signature of its own
  hash of the message, with the key that came along, and only then derived its key.
\<close>

theorem sodium_authentication:
  assumes "CryptoSodium_session lib authMessage ks r peer sig = Inr session"
  shows "hashMessage lib authMessage = Inr (en_msgHash session) \<and> en_verifiedSignature session \<and>
    sign_verify lib (take crypto_sign_BYTES sig) (en_msgHash session)
      (resize (drop crypto_sign_BYTES sig) crypto_sign_PUBLICKEYBYTES) \<and>
    (\<exists>p. base642bin lib peer = Some p \<and>
      kx_server_key lib (kx_public lib ks) ks (resize p crypto_kx_PUBLICKEYBYTES) = Some (encryptor_key session))"
  by (rule sodium_authentication_aux [OF assms])

subsection \<open>Libraries that the hypotheses hold for\<close>

text \<open>They hide nothing; all their keys are the same.\<close>

definition demo_sodium :: sodium where
  "demo_sodium = \<lparr>kx_public = (\<lambda>_. replicate 32 nul),
     kx_server_key = (\<lambda>_ _ _. Some (replicate 32 0)), kx_client_key = (\<lambda>_ _ _. Some (replicate 32 0)),
     sign_public = (\<lambda>_. replicate 32 nul), sign_detached = (\<lambda>_ _. replicate 64 nul),
     sign_verify = (\<lambda>_ _ _. True), bin2base64 = (\<lambda>s. s), base642bin = Some, generichash = (\<lambda>s. s),
     aead_encrypt = (\<lambda>_ _ m. Some (replicate 16 nul @ m)), aead_decrypt = (\<lambda>_ _ c. Some (drop 16 c))\<rparr>"

definition demo_cryptopp :: cryptopp where
  "demo_cryptopp = \<lparr>dh_public = (\<lambda>_. replicate 65 nul), dh_Agree = (\<lambda>_ _. Some (replicate 32 0)),
     rsa_DEREncode = (\<lambda>_. Some []), rsa_Load = (\<lambda>_. True), rsa_sign = (\<lambda>_ _. replicate 256 nul),
     rsa_VerifyMessage = (\<lambda>_ _ _. True), sha256_hex = (\<lambda>s. s),
     cbc_encrypt = (\<lambda>_ _ m. nul # m), cbc_decrypt = (\<lambda>_ _ c. Some (tl c))\<rparr>"

lemma demo_sodium_ok: "sodium_ok demo_sodium"
  by (simp add: sodium_ok_def demo_sodium_def crypto_kx_PUBLICKEYBYTES_def crypto_kx_SESSIONKEYBYTES_def
      crypto_sign_PUBLICKEYBYTES_def crypto_sign_BYTES_def crypto_aead_ABYTES_def)

lemma demo_cryptopp_ok: "cryptopp_ok demo_cryptopp"
  by (simp add: cryptopp_ok_def demo_cryptopp_def PublicKeyLength_def AgreedValueLength_def RSA_KEY_SIZE_def)


lemma sodium_handshake_witness:
  "\<exists>client session client'. CryptoSodium_client demo_sodium ''hello'' [1] [2] = Inr client \<and>
    CryptoSodium_session demo_sodium ''hello'' [3] [4] (en_encodedPubKeyAes client)
      (en_signatureWithPubKeySign client) = Inr session \<and>
    sodium_clientKeyExchange demo_sodium [5] (en_encodedPubKeyAes session) client = Inr client' \<and>
    en_verifiedSignature session \<and> encryptor_key client' = encryptor_key session"
  by (rule sodium_handshake [OF demo_sodium_ok]) simp

lemma cryptopp_handshake_witness:
  "\<exists>client session client'. CryptoPlPl_client demo_cryptopp ''hello'' [1] [2] = Inr client \<and>
    CryptoPlPl_session demo_cryptopp ''hello'' [3] [4] (en_encodedPubKeyAes client)
      (en_signatureWithPubKeySign client) = Inr session \<and>
    cryptopp_clientKeyExchange demo_cryptopp [5] (en_encodedPubKeyAes session) client = Inr client' \<and>
    en_verifiedSignature session \<and> encryptor_key client' = encryptor_key session"
  by (rule cryptopp_handshake [OF demo_cryptopp_ok])

lemma sodium_authentication_witness:
  "\<exists>session. CryptoSodium_session demo_sodium ''hello'' [3] [4] (replicate 32 nul) (replicate 96 nul) = Inr session \<and>
    hashMessage demo_sodium ''hello'' = Inr (en_msgHash session) \<and> en_verifiedSignature session"
proof -
  have "is_ok (CryptoSodium_session demo_sodium ''hello'' [3] [4] (replicate 32 nul) (replicate 96 nul))"
    by code_simp
  then show ?thesis using sodium_authentication by (auto simp: is_ok_iff)
qed

end
