(* ===== verification/Crypto_Operations.thy ===== *)
theory Crypto_Operations
  imports Messages Compression Crypto
begin

section \<open>Compression and encryption of messages (common/CryptoOperations)\<close>

text \<open>
  What is sent is the header and the data, compressed as the header says and encrypted by one
  encryptor, by both one after the other, or not at all; the receiver undoes it. The weak
  pointers of the tuple may have expired: then an operation does nothing with that encryptor.
  \<open>tu_input\<close> is the thread-local string of \<open>CryptoSodium::encrypt\<close>.

  What both encryptors promise the operations here is the locale \<open>cipher\<close>, interpreted on
  each of them.
\<close>

record crypto_libs =
  cl_sodium :: sodium
  cl_cryptopp :: cryptopp
  cl_compress :: compress_lib

text \<open>The random bytes that an operation draws: for hiding the key and for the message.\<close>

record crypto_random =
  rn_key0 :: bytes
  rn_nonce :: string
  rn_key1 :: bytes
  rn_iv :: string

record crypto_tuple =
  tu_sodium :: "encryptor option"
  tu_cryptopp :: "encryptor option"
  tu_input :: string

subsection \<open>One encryptor\<close>

definition encrypt_sodium ::
  "crypto_libs \<Rightarrow> terminals \<Rightarrow> crypto_random \<Rightarrow> HEADER option \<Rightarrow> string \<Rightarrow> encryptor \<Rightarrow> crypto_tuple \<Rightarrow>
   (string \<times> crypto_tuple) result" where
  "encrypt_sodium lib t rn header source e tu =
     bindE (sodium_encrypt (cl_sodium lib) t (rn_key0 rn) (rn_nonce rn) e (tu_input tu) header source)
       (\<lambda>(res, e, input). Inr (res, tu\<lparr>tu_sodium := Some e, tu_input := input\<rparr>))"

definition encrypt_cryptopp ::
  "crypto_libs \<Rightarrow> terminals \<Rightarrow> crypto_random \<Rightarrow> HEADER option \<Rightarrow> string \<Rightarrow> encryptor \<Rightarrow> crypto_tuple \<Rightarrow>
   (string \<times> crypto_tuple) result" where
  "encrypt_cryptopp lib t rn header source e tu =
     bindE (cryptopp_encrypt (cl_cryptopp lib) t (rn_key1 rn) (rn_iv rn) e header source)
       (\<lambda>(res, e). Inr (res, tu\<lparr>tu_cryptopp := Some e\<rparr>))"

definition decrypt_sodium ::
  "crypto_libs \<Rightarrow> terminals \<Rightarrow> HEADER \<Rightarrow> crypto_random \<Rightarrow> string \<Rightarrow> crypto_tuple \<Rightarrow>
   (string \<times> crypto_tuple) result" where
  "decrypt_sodium lib t fresh rn data tu =
     (case tu_sodium tu of
        None \<Rightarrow> Inr (data, tu)
      | Some e \<Rightarrow> bindE (sodium_decrypt (cl_sodium lib) t fresh (rn_key0 rn) e data)
          (\<lambda>(data, e). Inr (data, tu\<lparr>tu_sodium := Some e\<rparr>)))"

definition decrypt_cryptopp ::
  "crypto_libs \<Rightarrow> terminals \<Rightarrow> HEADER \<Rightarrow> crypto_random \<Rightarrow> string \<Rightarrow> crypto_tuple \<Rightarrow>
   (string \<times> crypto_tuple) result" where
  "decrypt_cryptopp lib t fresh rn data tu =
     (case tu_cryptopp tu of
        None \<Rightarrow> Inr (data, tu)
      | Some e \<Rightarrow> bindE (cryptopp_decrypt (cl_cryptopp lib) t fresh (rn_key1 rn) e data)
          (\<lambda>(data, e). Inr (data, tu\<lparr>tu_cryptopp := Some e\<rparr>)))"

text \<open>An encryptor that is gone gives the empty string, and so does a wrong \<open>crypto\<close>.\<close>

definition singleEncrypt ::
  "crypto_libs \<Rightarrow> terminals \<Rightarrow> crypto_random \<Rightarrow> CRYPTO \<Rightarrow> HEADER \<Rightarrow> string \<Rightarrow> crypto_tuple \<Rightarrow>
   (string \<times> crypto_tuple) result" where
  "singleEncrypt lib t rn crypto header source tu =
     (case crypto of
        CRYPTOSODIUM \<Rightarrow>
          (case tu_sodium tu of
             Some e \<Rightarrow> encrypt_sodium lib t rn (Some header) source e tu
           | None \<Rightarrow> Inr ([], tu))
      | CRYPTOPP \<Rightarrow>
          (case tu_cryptopp tu of
             Some e \<Rightarrow> encrypt_cryptopp lib t rn (Some header) source e tu
           | None \<Rightarrow> Inr ([], tu))
      | _ \<Rightarrow> Inr ([], tu))"

definition singleDecrypt ::
  "crypto_libs \<Rightarrow> terminals \<Rightarrow> HEADER \<Rightarrow> crypto_random \<Rightarrow> CRYPTO \<Rightarrow> HEADER \<Rightarrow> string \<Rightarrow> crypto_tuple \<Rightarrow>
   (HEADER \<times> string \<times> crypto_tuple) result" where
  "singleDecrypt lib t fresh rn crypto header data tu =
     bindE (case crypto of
              CRYPTOSODIUM \<Rightarrow> decrypt_sodium lib t fresh rn data tu
            | CRYPTOPP \<Rightarrow> decrypt_cryptopp lib t fresh rn data tu
            | _ \<Rightarrow> Inr (data, tu))
       (\<lambda>(data, tu). bindE (deserialize header data) (\<lambda>(header, ok).
          if \<not> ok then Inl (Runtime_Error ''deserialize failed'')
          else Inr (header, drop HEADER_SIZE data, tu)))"

subsection \<open>Both encryptors\<close>

text \<open>
  The first encryptor takes the header; the second one encrypts what the first one made, and
  if there was no first one, nothing.
\<close>

definition doubleEncrypt ::
  "crypto_libs \<Rightarrow> terminals \<Rightarrow> crypto_random \<Rightarrow> HEADER \<Rightarrow> string \<Rightarrow> crypto_tuple \<Rightarrow>
   (string \<times> crypto_tuple) result" where
  "doubleEncrypt lib t rn header source tu =
     bindE (case tu_sodium tu of
              Some e \<Rightarrow> encrypt_sodium lib t rn (Some header) source e tu
            | None \<Rightarrow> Inr ([], tu))
       (\<lambda>(encrypted, tu).
          case tu_cryptopp tu of
            Some e \<Rightarrow> encrypt_cryptopp lib t rn None encrypted e tu
          | None \<Rightarrow> Inr (encrypted, tu))"

definition doubleDecrypt ::
  "crypto_libs \<Rightarrow> terminals \<Rightarrow> HEADER \<Rightarrow> crypto_random \<Rightarrow> HEADER \<Rightarrow> string \<Rightarrow> crypto_tuple \<Rightarrow>
   (HEADER \<times> string \<times> crypto_tuple) result" where
  "doubleDecrypt lib t fresh rn header data tu =
     bindE (decrypt_cryptopp lib t fresh rn data tu) (\<lambda>(data, tu).
     bindE (decrypt_sodium lib t fresh rn data tu) (\<lambda>(data, tu).
     bindE (deserialize header data) (\<lambda>(header, ok).
       if \<not> ok then Inl (Runtime_Error ''doubleDecrypt failure.'') else Inr (header, data, tu))))"

subsection \<open>With compression\<close>

text \<open>
  \<open>buffer\<close> is what the scratch string holds when the compressor gets it. The results are what
  the functions return and the encryptors afterwards; the data that they also change is not used
  again by their callers.
\<close>

text \<open>The level when a caller names none, as the task builder does.\<close>

definition defaultCompressionLevel :: int where "defaultCompressionLevel = 3"

definition compress_data ::
  "crypto_libs \<Rightarrow> HEADER \<Rightarrow> int \<Rightarrow> string \<Rightarrow> string \<Rightarrow> string result" where
  "compress_data lib header level buffer data =
     (if isCompressed header
      then bindE (compress_by (cl_compress lib) (extractCompressor header) level buffer data) (\<lambda>(_, data). Inr data)
      else Inr data)"

definition uncompress_data :: "crypto_libs \<Rightarrow> HEADER \<Rightarrow> string \<Rightarrow> string \<Rightarrow> string result" where
  "uncompress_data lib header buffer data =
     (if isCompressed header
      then bindE (uncompress_by (cl_compress lib) (extractCompressor header) buffer data) (\<lambda>(_, data). Inr data)
      else Inr data)"

definition compressSingleEncrypt ::
  "crypto_libs \<Rightarrow> terminals \<Rightarrow> crypto_random \<Rightarrow> CRYPTO \<Rightarrow> string \<Rightarrow> HEADER \<Rightarrow> bool \<Rightarrow> int \<Rightarrow> string \<Rightarrow>
   crypto_tuple \<Rightarrow> (string \<times> crypto_tuple) result" where
  "compressSingleEncrypt lib t rn crypto buffer header doEncrypt level data tu =
     bindE (compress_data lib header level buffer data) (\<lambda>data.
       if doEncrypt then singleEncrypt lib t rn crypto header data tu
       else Inr (serialize header @ data, tu))"

definition singleDecryptDecompress ::
  "crypto_libs \<Rightarrow> terminals \<Rightarrow> HEADER \<Rightarrow> crypto_random \<Rightarrow> CRYPTO \<Rightarrow> string \<Rightarrow> HEADER \<Rightarrow> string \<Rightarrow>
   crypto_tuple \<Rightarrow> (HEADER \<times> string \<times> crypto_tuple) result" where
  "singleDecryptDecompress lib t fresh rn crypto buffer header data tu =
     bindE (singleDecrypt lib t fresh rn crypto header data tu) (\<lambda>(header, data, tu).
     bindE (uncompress_data lib header buffer data) (\<lambda>data. Inr (header, data, tu)))"

definition compressDoubleEncrypt ::
  "crypto_libs \<Rightarrow> terminals \<Rightarrow> crypto_random \<Rightarrow> string \<Rightarrow> HEADER \<Rightarrow> bool \<Rightarrow> int \<Rightarrow> string \<Rightarrow>
   crypto_tuple \<Rightarrow> (string \<times> crypto_tuple) result" where
  "compressDoubleEncrypt lib t rn buffer header doEncrypt level data tu =
     bindE (compress_data lib header level buffer data) (\<lambda>data.
       if doEncrypt then doubleEncrypt lib t rn header data tu
       else Inr (serialize header @ data, tu))"

definition doubleDecryptDecompress ::
  "crypto_libs \<Rightarrow> terminals \<Rightarrow> HEADER \<Rightarrow> crypto_random \<Rightarrow> string \<Rightarrow> HEADER \<Rightarrow> string \<Rightarrow>
   crypto_tuple \<Rightarrow> (HEADER \<times> string \<times> crypto_tuple) result" where
  "doubleDecryptDecompress lib t fresh rn buffer header data tu =
     bindE (doubleDecrypt lib t fresh rn header data tu) (\<lambda>(header, data, tu).
     bindE (uncompress_data lib header buffer (drop HEADER_SIZE data)) (\<lambda>data. Inr (header, data, tu)))"

subsection \<open>What the encryptors promise\<close>

definition may_use :: "terminals \<Rightarrow> encryptor \<Rightarrow> bool" where
  "may_use t e \<longleftrightarrow> checkAccess t (en_verifiedSignature e) (en_signatureSent e) = Inr True"

definition framed :: "HEADER option \<Rightarrow> string \<Rightarrow> string" where
  "framed header data = (case header of None \<Rightarrow> [] | Some h \<Rightarrow> serialize h) @ data"

locale cipher =
  fixes ok :: "'l \<Rightarrow> bool" and nonce_ok :: "string \<Rightarrow> bool"
    and enc :: "'l \<Rightarrow> terminals \<Rightarrow> bytes \<Rightarrow> string \<Rightarrow> encryptor \<Rightarrow> string \<Rightarrow> HEADER option \<Rightarrow> string \<Rightarrow>
      (string \<times> encryptor \<times> string) result"
    and dec :: "'l \<Rightarrow> terminals \<Rightarrow> HEADER \<Rightarrow> bytes \<Rightarrow> encryptor \<Rightarrow> string \<Rightarrow> (string \<times> encryptor) result"
  assumes enc_total: "ok lib \<Longrightarrow> nonce_ok n \<Longrightarrow> may_use t e \<Longrightarrow>
      \<exists>res e2 inp. enc lib t r n e input header data = Inr (res, e2, inp)"
    and enc_keeps: "enc lib t r n e input header data = Inr (res, e2, inp) \<Longrightarrow>
      encryptor_key e2 = encryptor_key e \<and> may_use t e2"
    and dec_enc: "ok lib \<Longrightarrow> nonce_ok n \<Longrightarrow> may_use t' e' \<Longrightarrow> encryptor_key e' = encryptor_key e \<Longrightarrow>
      header \<noteq> None \<or> input = [] \<Longrightarrow>
      enc lib t r n e input header data = Inr (res, e2, inp) \<Longrightarrow> isEncrypted fresh res = Inr True \<Longrightarrow>
      \<exists>e3. dec lib t' fresh r' e' res = Inr (framed header data, e3) \<and> encryptor_key e3 = encryptor_key e'"
    and dec_plain: "may_use t e \<Longrightarrow> isEncrypted fresh d = Inr False \<Longrightarrow> dec lib t fresh r e d = Inr (d, e)"
begin

text \<open>A message with a header in front is opened by the peer, which reads the header from it.\<close>

lemma dec_enc_header:
  assumes "ok lib" "nonce_ok n" "may_use t' e'" "encryptor_key e' = encryptor_key e"
    and "enc lib t r n e input (Some h) data = Inr (res, e2, inp)" "isEncrypted fresh res = Inr True"
    and "header_wf h"
  shows "\<exists>m e3. dec lib t' fresh r' e' res = Inr (m, e3) \<and> encryptor_key e3 = encryptor_key e' \<and>
    deserialize h0 m = Inr (received_header h, True) \<and> drop HEADER_SIZE m = data"
proof -
  obtain e3 where "dec lib t' fresh r' e' res = Inr (framed (Some h) data, e3)"
    "encryptor_key e3 = encryptor_key e'"
    using dec_enc [OF assms(1-4) _ assms(5,6)] by blast
  then show ?thesis using deserialize_serialize [OF assms(7)] by (simp add: framed_def HEADER_SIZE_44)
qed

text \<open>A message that was sent with its header in the clear passes through.\<close>

lemma dec_header:
  assumes "may_use t e" "header_wf h"
  shows "dec lib t fresh r e (serialize h @ data) = Inr (serialize h @ data, e)"
proof (rule dec_plain [OF assms(1)])
  have "serialize h @ data \<noteq> []" using length_serialize [of h] by (cases "serialize h") auto
  then show "isEncrypted fresh (serialize h @ data) = Inr False"
    by (simp add: isEncrypted_def HEADER_SIZE_44 deserialize_serialize [OF assms(2)])
qed

end

lemma take_encryptor_key_access:
  assumes "take_encryptor_key random e = (copy, e')"
  shows "may_use t e' = may_use t e"
  using take_encryptor_key_plain [OF assms] by (simp add: may_use_def)

interpretation sodium_cipher: cipher sodium_ok "\<lambda>n. length n = crypto_aead_NPUBBYTES" sodium_encrypt sodium_decrypt
proof (unfold_locales, goal_cases)
  case (1 lib n t e r input header data)
  obtain key e2 where k: "take_encryptor_key r e = (key, e2)" by force
  let ?m = "(case header of None \<Rightarrow> input | Some h \<Rightarrow> serialize h) @ data"
  obtain c where "aead_encrypt lib key n ?m = Some c"
    using 1(1,2) unfolding sodium_ok_def by blast
  then show ?case using 1(3) k by (simp add: sodium_encrypt_def may_use_def Let_def)
next
  case (2 lib t r n e input header data res e2 inp)
  obtain key e' where k: "take_encryptor_key r e = (key, e')" by force
  have "may_use t e" "e2 = e'"
    using 2 k by (auto simp: sodium_encrypt_def may_use_def bindE_Inr_iff Let_def split: if_splits option.splits)
  then show ?case using take_encryptor_key_plain(2) [OF k] take_encryptor_key_access [OF k] by simp
next
  case (3 lib n t' e' e header input t r data res e2 inp fresh r')
  obtain key e4 where k: "take_encryptor_key r e = (key, e4)" by force
  obtain key' e5 where k': "take_encryptor_key r' e' = (key', e5)" by force
  have keys: "key' = key" "encryptor_key e5 = encryptor_key e'"
    using take_encryptor_key_plain(1,2) [OF k] take_encryptor_key_plain(1,2) [OF k'] 3(4) by simp_all
  let ?m = "(case header of None \<Rightarrow> input | Some h \<Rightarrow> serialize h) @ data"
  obtain c where c: "aead_encrypt (lib) key n ?m = Some c" "aead_decrypt lib key n c = Some ?m"
    using 3(1,2) unfolding sodium_ok_def by blast
  have res: "res = c @ n"
    using 3(6) k c(1) by (auto simp: sodium_encrypt_def bindE_Inr_iff Let_def split: if_splits)
  have "?m = framed header data" using 3(5) by (auto simp: framed_def split: option.splits)
  then have "sodium_decrypt lib t' fresh r' e' res = Inr (framed header data, e5)"
    using 3(2,3,7) k' keys c(2) res by (simp add: sodium_decrypt_def may_use_def Let_def)
  then show ?case using keys by blast
next
  case (4 t e fresh d lib r)
  then show ?case by (simp add: sodium_decrypt_def may_use_def)
qed

text \<open>\<open>CryptoPlPl::encrypt\<close> has no thread-local input of its own.\<close>

definition cryptopp_encrypt_input ::
  "cryptopp \<Rightarrow> terminals \<Rightarrow> bytes \<Rightarrow> string \<Rightarrow> encryptor \<Rightarrow> string \<Rightarrow> HEADER option \<Rightarrow> string \<Rightarrow>
   (string \<times> encryptor \<times> string) result" where
  "cryptopp_encrypt_input lib t r iv e input header data =
     bindE (cryptopp_encrypt lib t r iv e header data) (\<lambda>(res, e). Inr (res, e, input))"

interpretation cryptopp_cipher:
  cipher cryptopp_ok "\<lambda>n. length n = AES_BLOCKSIZE" cryptopp_encrypt_input cryptopp_decrypt
proof (unfold_locales, goal_cases)
  case (1 lib n t e r input header data)
  obtain key e2 where k: "take_encryptor_key r e = (key, e2)" by force
  show ?case using 1 k
    by (simp add: cryptopp_encrypt_input_def cryptopp_encrypt_def may_use_def Let_def)
next
  case (2 lib t r n e input header data res e2 inp)
  obtain key e' where k: "take_encryptor_key r e = (key, e')" by force
  have "may_use t e" "e2 = e'"
    using 2 k by (auto simp: cryptopp_encrypt_input_def cryptopp_encrypt_def may_use_def bindE_Inr_iff Let_def
        split: if_splits)
  then show ?case using take_encryptor_key_plain(2) [OF k] take_encryptor_key_access [OF k] by simp
next
  case (3 lib n t' e' e header input t r data res e2 inp fresh r')
  obtain key e4 where k: "take_encryptor_key r e = (key, e4)" by force
  obtain key' e5 where k': "take_encryptor_key r' e' = (key', e5)" by force
  have keys: "key' = key" "encryptor_key e5 = encryptor_key e'"
    using take_encryptor_key_plain(1,2) [OF k] take_encryptor_key_plain(1,2) [OF k'] 3(4) by simp_all
  have res: "res = cbc_encrypt lib key n (framed header data) @ n"
    using 3(6) k by (auto simp: cryptopp_encrypt_input_def cryptopp_encrypt_def bindE_Inr_iff Let_def framed_def
        split: if_splits)
  have "cbc_decrypt lib key n (cbc_encrypt lib key n (framed header data)) = Some (framed header data)"
    using 3(1,2) unfolding cryptopp_ok_def by blast
  then have "cryptopp_decrypt lib t' fresh r' e' res = Inr (framed header data, e5)"
    using 3(2,3,7) k' keys res by (simp add: cryptopp_decrypt_def may_use_def Let_def)
  then show ?case using keys by blast
next
  case (4 t e fresh d lib r)
  then show ?case by (simp add: cryptopp_decrypt_def may_use_def)
qed

subsection \<open>Round trips\<close>

definition crypto_libs_ok :: "crypto_libs \<Rightarrow> bool" where
  "crypto_libs_ok lib \<longleftrightarrow>
     sodium_ok (cl_sodium lib) \<and> cryptopp_ok (cl_cryptopp lib) \<and> compress_lib_ok (cl_compress lib)"

definition crypto_random_ok :: "crypto_random \<Rightarrow> bool" where
  "crypto_random_ok rn \<longleftrightarrow>
     length (rn_nonce rn) = crypto_aead_NPUBBYTES \<and> length (rn_iv rn) = AES_BLOCKSIZE"

text \<open>The encryptors of a client and of its session: alive, usable, with the same keys.\<close>

definition tuple_peers :: "terminals \<Rightarrow> crypto_tuple \<Rightarrow> terminals \<Rightarrow> crypto_tuple \<Rightarrow> bool" where
  "tuple_peers t tu t' tu' \<longleftrightarrow>
     (\<exists>e e'. tu_sodium tu = Some e \<and> tu_sodium tu' = Some e' \<and> may_use t e \<and> may_use t' e' \<and>
        encryptor_key e' = encryptor_key e) \<and>
     (\<exists>e e'. tu_cryptopp tu = Some e \<and> tu_cryptopp tu' = Some e' \<and> may_use t e \<and> may_use t' e' \<and>
        encryptor_key e' = encryptor_key e)"

lemma tuple_peers_sym: "tuple_peers t tu t' tu' \<Longrightarrow> tuple_peers t' tu' t tu"
  unfolding tuple_peers_def by metis

lemma compress_data_roundtrip:
  assumes "compress_lib_ok (cl_compress lib)" and "length data < 2 ^ 64"
  obtains c where "compress_data lib h level buffer data = Inr c"
    and "\<And>buffer'. uncompress_data lib (received_header h) buffer' c = Inr data"
proof -
  obtain b c where 1: "compress_by (cl_compress lib) (extractCompressor h) level buffer data = Inr (b, c)"
    and 2: "\<And>buffer'. \<exists>b'. uncompress_by (cl_compress lib) (extractCompressor h) buffer' c = Inr (b', data)"
    using compress_by_roundtrip [OF assms, of "extractCompressor h" level buffer] by blast
  have "isCompressed (received_header h) = isCompressed h"
    "extractCompressor (received_header h) = extractCompressor h"
    by (simp_all add: isCompressed_def extractCompressor_def received_header_def)
  then show ?thesis
    using that [of "if isCompressed h then c else data"] 1 2
    by (simp add: compress_data_def uncompress_data_def) (metis bindE_simps(2) case_prod_conv)
qed

lemma crypto_libs_ok_compress: "crypto_libs_ok lib \<Longrightarrow> compress_lib_ok (cl_compress lib)"
  by (simp add: crypto_libs_ok_def)

lemma decrypt_sodium_header:
  assumes "tu_sodium tu = Some e" "may_use t e" "header_wf h"
  shows "decrypt_sodium lib t fresh rn (serialize h @ data) tu = Inr (serialize h @ data, tu)"
  using sodium_cipher.dec_header [OF assms(2,3)] assms(1) by (simp add: decrypt_sodium_def)

lemma decrypt_cryptopp_header:
  assumes "tu_cryptopp tu = Some e" "may_use t e" "header_wf h"
  shows "decrypt_cryptopp lib t fresh rn (serialize h @ data) tu = Inr (serialize h @ data, tu)"
  using cryptopp_cipher.dec_header [OF assms(2,3)] assms(1) by (simp add: decrypt_cryptopp_def)

lemma sodium_layer:
  assumes "sodium_ok (cl_sodium lib)" "crypto_random_ok rn" "tuple_peers t tu t' tu'" "header_wf h"
  obtains e res tu2 where "tu_sodium tu = Some e"
    "encrypt_sodium lib t rn (Some h) data e tu = Inr (res, tu2)" "tuple_peers t tu2 t' tu'"
    "tu_cryptopp tu2 = tu_cryptopp tu"
    "\<And>fresh rn'. isEncrypted fresh res = Inr True \<Longrightarrow> \<exists>m tu3.
       decrypt_sodium lib t' fresh rn' res tu' = Inr (m, tu3) \<and> tuple_peers t tu2 t' tu3 \<and>
       (\<forall>h0. deserialize h0 m = Inr (received_header h, True)) \<and> drop HEADER_SIZE m = data"
proof -
  obtain e e' where e: "tu_sodium tu = Some e" "tu_sodium tu' = Some e'" "may_use t e" "may_use t' e'"
    "encryptor_key e' = encryptor_key e"
    using assms(3) unfolding tuple_peers_def by blast
  have n: "length (rn_nonce rn) = crypto_aead_NPUBBYTES" using assms(2) by (simp add: crypto_random_ok_def)
  obtain res e2 inp where enc: "sodium_encrypt (cl_sodium lib) t (rn_key0 rn) (rn_nonce rn) e (tu_input tu)
      (Some h) data = Inr (res, e2, inp)"
    using sodium_cipher.enc_total [OF assms(1) n e(3)] by blast
  note keeps = sodium_cipher.enc_keeps [OF enc]
  let ?tu2 = "tu\<lparr>tu_sodium := Some e2, tu_input := inp\<rparr>"
  show ?thesis
  proof (rule that [OF e(1), of res ?tu2])
    show "encrypt_sodium lib t rn (Some h) data e tu = Inr (res, ?tu2)"
      using enc by (simp add: encrypt_sodium_def)
    show "tuple_peers t ?tu2 t' tu'" using assms(3) e keeps by (simp add: tuple_peers_def)
    show "tu_cryptopp ?tu2 = tu_cryptopp tu" by simp
    fix fresh and rn' :: crypto_random assume enc': "isEncrypted fresh res = Inr True"
    obtain e3 where d: "sodium_decrypt (cl_sodium lib) t' fresh (rn_key0 rn') e' res = Inr (framed (Some h) data, e3)"
      "encryptor_key e3 = encryptor_key e'"
      using sodium_cipher.dec_enc [OF assms(1) n e(4,5) _ enc enc'] by blast
    obtain k e4 where k: "take_encryptor_key (rn_key0 rn') e' = (k, e4)" by force
    have "may_use t' e3"
      using d(1) e(4) enc' k take_encryptor_key_access [OF k]
      by (auto simp: sodium_decrypt_def bindE_Inr_iff Let_def split: if_splits option.splits)
    then have "tuple_peers t ?tu2 t' (tu'\<lparr>tu_sodium := Some e3\<rparr>)"
      using assms(3) e keeps d(2) by (simp add: tuple_peers_def)
    moreover have "decrypt_sodium lib t' fresh rn' res tu' =
        Inr (framed (Some h) data, tu'\<lparr>tu_sodium := Some e3\<rparr>)"
      using d(1) e(2) by (simp add: decrypt_sodium_def)
    ultimately show "\<exists>m tu3. decrypt_sodium lib t' fresh rn' res tu' = Inr (m, tu3) \<and>
       tuple_peers t ?tu2 t' tu3 \<and>
       (\<forall>h0. deserialize h0 m = Inr (received_header h, True)) \<and> drop HEADER_SIZE m = data"
      using deserialize_serialize [OF assms(4)] by (auto simp: framed_def HEADER_SIZE_44)
  qed
qed

lemma cryptopp_layer:
  assumes "cryptopp_ok (cl_cryptopp lib)" "crypto_random_ok rn" "tuple_peers t tu t' tu'"
  obtains e res tu2 where "tu_cryptopp tu = Some e"
    "encrypt_cryptopp lib t rn header data e tu = Inr (res, tu2)" "tuple_peers t tu2 t' tu'"
    "\<And>fresh rn'. isEncrypted fresh res = Inr True \<Longrightarrow> \<exists>tu3.
       decrypt_cryptopp lib t' fresh rn' res tu' = Inr (framed header data, tu3) \<and> tuple_peers t tu2 t' tu3 \<and>
       tu_sodium tu3 = tu_sodium tu'"
proof -
  obtain e e' where e: "tu_cryptopp tu = Some e" "tu_cryptopp tu' = Some e'" "may_use t e" "may_use t' e'"
    "encryptor_key e' = encryptor_key e"
    using assms(3) unfolding tuple_peers_def by blast
  have n: "length (rn_iv rn) = AES_BLOCKSIZE" using assms(2) by (simp add: crypto_random_ok_def)
  obtain res e2 inp where enc: "cryptopp_encrypt_input (cl_cryptopp lib) t (rn_key1 rn) (rn_iv rn) e []
      header data = Inr (res, e2, inp)"
    using cryptopp_cipher.enc_total [OF assms(1) n e(3)] by blast
  note keeps = cryptopp_cipher.enc_keeps [OF enc]
  let ?tu2 = "tu\<lparr>tu_cryptopp := Some e2\<rparr>"
  show ?thesis
  proof (rule that [OF e(1), of res ?tu2])
    show "encrypt_cryptopp lib t rn header data e tu = Inr (res, ?tu2)"
      using enc by (auto simp: encrypt_cryptopp_def cryptopp_encrypt_input_def bindE_Inr_iff)
    show "tuple_peers t ?tu2 t' tu'" using assms(3) e keeps by (simp add: tuple_peers_def)
    fix fresh and rn' :: crypto_random assume enc': "isEncrypted fresh res = Inr True"
    obtain e3 where d: "cryptopp_decrypt (cl_cryptopp lib) t' fresh (rn_key1 rn') e' res = Inr (framed header data, e3)"
      "encryptor_key e3 = encryptor_key e'"
      using cryptopp_cipher.dec_enc [OF assms(1) n e(4,5) _ enc enc'] by blast
    obtain k e4 where k: "take_encryptor_key (rn_key1 rn') e' = (k, e4)" by force
    have "may_use t' e3"
      using d(1) e(4) enc' k take_encryptor_key_access [OF k]
      by (auto simp: cryptopp_decrypt_def bindE_Inr_iff Let_def split: if_splits option.splits)
    then have "tuple_peers t ?tu2 t' (tu'\<lparr>tu_cryptopp := Some e3\<rparr>)"
      using assms(3) e keeps d(2) by (simp add: tuple_peers_def)
    moreover have "decrypt_cryptopp lib t' fresh rn' res tu' =
        Inr (framed header data, tu'\<lparr>tu_cryptopp := Some e3\<rparr>)"
      using d(1) e(2) by (simp add: decrypt_cryptopp_def)
    ultimately show "\<exists>tu3. decrypt_cryptopp lib t' fresh rn' res tu' = Inr (framed header data, tu3) \<and>
       tuple_peers t ?tu2 t' tu3 \<and> tu_sodium tu3 = tu_sodium tu'"
      by simp
  qed
qed

lemma deserialize_header_drop:
  "header_wf h \<Longrightarrow> deserialize h0 (serialize h @ data) = Inr (received_header h, True) \<and>
    drop HEADER_SIZE (serialize h @ data) = data"
  by (simp add: deserialize_serialize HEADER_SIZE_44)

lemma single_layer:
  assumes "crypto_libs_ok lib" "crypto_random_ok rn" "tuple_peers t tu t' tu'" "header_wf h"
    and "crypto \<in> {CRYPTOSODIUM, CRYPTOPP}"
  obtains res tu2 where "singleEncrypt lib t rn crypto h data tu = Inr (res, tu2)" "tuple_peers t tu2 t' tu'"
    "\<And>fresh rn' h0. isEncrypted fresh res = Inr True \<Longrightarrow> \<exists>tu3.
       singleDecrypt lib t' fresh rn' crypto h0 res tu' = Inr (received_header h, data, tu3) \<and>
       tuple_peers t tu2 t' tu3"
proof (cases "crypto = CRYPTOSODIUM")
  case True
  have ok: "sodium_ok (cl_sodium lib)" using assms(1) by (simp add: crypto_libs_ok_def)
  obtain e res tu2 where l: "tu_sodium tu = Some e"
    "encrypt_sodium lib t rn (Some h) data e tu = Inr (res, tu2)" "tuple_peers t tu2 t' tu'"
    and d: "\<And>fresh rn'. isEncrypted fresh res = Inr True \<Longrightarrow> \<exists>m tu3.
       decrypt_sodium lib t' fresh rn' res tu' = Inr (m, tu3) \<and> tuple_peers t tu2 t' tu3 \<and>
       (\<forall>h0. deserialize h0 m = Inr (received_header h, True)) \<and> drop HEADER_SIZE m = data"
    by (rule sodium_layer [OF ok assms(2-4)]) blast
  show ?thesis
  proof (rule that [of res tu2])
    show "singleEncrypt lib t rn crypto h data tu = Inr (res, tu2)"
      using True l by (simp add: singleEncrypt_def)
    fix fresh and rn' :: crypto_random and h0 assume "isEncrypted fresh res = Inr True"
    from d [OF this, of rn'] show "\<exists>tu3. singleDecrypt lib t' fresh rn' crypto h0 res tu' =
        Inr (received_header h, data, tu3) \<and> tuple_peers t tu2 t' tu3"
      using True by (auto simp: singleDecrypt_def)
  qed (rule l(3))
next
  case False
  then have crypto: "crypto = CRYPTOPP" using assms(5) by simp
  have ok: "cryptopp_ok (cl_cryptopp lib)" using assms(1) by (simp add: crypto_libs_ok_def)
  obtain e res tu2 where l: "tu_cryptopp tu = Some e"
    "encrypt_cryptopp lib t rn (Some h) data e tu = Inr (res, tu2)" "tuple_peers t tu2 t' tu'"
    and d: "\<And>fresh rn'. isEncrypted fresh res = Inr True \<Longrightarrow> \<exists>tu3.
       decrypt_cryptopp lib t' fresh rn' res tu' = Inr (framed (Some h) data, tu3) \<and> tuple_peers t tu2 t' tu3 \<and>
       tu_sodium tu3 = tu_sodium tu'"
    by (rule cryptopp_layer [OF ok assms(2,3)]) blast
  show ?thesis
  proof (rule that [of res tu2])
    show "singleEncrypt lib t rn crypto h data tu = Inr (res, tu2)"
      using crypto l by (simp add: singleEncrypt_def)
    fix fresh and rn' :: crypto_random and h0 assume "isEncrypted fresh res = Inr True"
    from d [OF this, of rn'] show "\<exists>tu3. singleDecrypt lib t' fresh rn' crypto h0 res tu' =
        Inr (received_header h, data, tu3) \<and> tuple_peers t tu2 t' tu3"
      using crypto deserialize_header_drop [OF assms(4)] by (auto simp: singleDecrypt_def framed_def)
  qed (rule l(3))
qed

lemma single_plain:
  assumes "tuple_peers t tu t' tu'" "header_wf h" "crypto \<in> {CRYPTOSODIUM, CRYPTOPP}"
  shows "singleDecrypt lib t' fresh rn' crypto h0 (serialize h @ c) tu' = Inr (received_header h, c, tu')"
proof -
  obtain e1 e2 where e: "tu_sodium tu' = Some e1" "may_use t' e1" "tu_cryptopp tu' = Some e2" "may_use t' e2"
    using assms(1) unfolding tuple_peers_def by blast
  show ?thesis
    using assms(3) decrypt_sodium_header [OF e(1,2) assms(2)] decrypt_cryptopp_header [OF e(3,4) assms(2)]
      deserialize_header_drop [OF assms(2)]
    by (auto simp: singleDecrypt_def)
qed

lemma single_message:
  assumes "crypto_libs_ok lib" "crypto_random_ok rn" "tuple_peers t tu t' tu'" "header_wf h"
    and "length data < 2 ^ 64" "crypto \<in> {CRYPTOSODIUM, CRYPTOPP}"
  shows "\<exists>res tu2. compressSingleEncrypt lib t rn crypto buffer h doEncrypt level data tu = Inr (res, tu2) \<and>
    tuple_peers t tu2 t' tu' \<and>
    ((doEncrypt \<longrightarrow> isEncrypted fresh res = Inr True) \<longrightarrow>
      (\<exists>tu3. singleDecryptDecompress lib t' fresh rn' crypto buffer' h0 res tu' =
         Inr (received_header h, data, tu3) \<and> tuple_peers t tu2 t' tu3))"
proof -
  obtain c where c: "compress_data lib h level buffer data = Inr c"
    "\<And>buffer'. uncompress_data lib (received_header h) buffer' c = Inr data"
    by (rule compress_data_roundtrip [OF crypto_libs_ok_compress [OF assms(1)] assms(5), of h level buffer]) blast
  show ?thesis
  proof (cases doEncrypt)
    case True
    obtain res tu2 where l: "singleEncrypt lib t rn crypto h c tu = Inr (res, tu2)" "tuple_peers t tu2 t' tu'"
      and d: "\<And>fresh rn' h0. isEncrypted fresh res = Inr True \<Longrightarrow> \<exists>tu3.
       singleDecrypt lib t' fresh rn' crypto h0 res tu' = Inr (received_header h, c, tu3) \<and> tuple_peers t tu2 t' tu3"
      by (rule single_layer [OF assms(1-4,6)]) blast
    have "\<exists>tu3. singleDecryptDecompress lib t' fresh rn' crypto buffer' h0 res tu' =
         Inr (received_header h, data, tu3) \<and> tuple_peers t tu2 t' tu3" if "isEncrypted fresh res = Inr True"
      using d [OF that, of rn' h0] c(2) by (auto simp: singleDecryptDecompress_def)
    then show ?thesis using True c(1) l by (simp add: compressSingleEncrypt_def)
  next
    case False
    then show ?thesis
      using single_plain [OF assms(3,4,6)] c assms(3)
      by (simp add: compressSingleEncrypt_def singleDecryptDecompress_def)
  qed
qed

lemma double_layer:
  assumes "crypto_libs_ok lib" "crypto_random_ok rn" "tuple_peers t tu t' tu'" "header_wf h"
  obtains mid tu1 res tu2 where "singleEncrypt lib t rn CRYPTOSODIUM h data tu = Inr (mid, tu1)"
    "doubleEncrypt lib t rn h data tu = Inr (res, tu2)" "tuple_peers t tu2 t' tu'"
    "\<And>fresh rn' h0. isEncrypted fresh mid = Inr True \<Longrightarrow> isEncrypted fresh res = Inr True \<Longrightarrow> \<exists>m tu3.
       doubleDecrypt lib t' fresh rn' h0 res tu' = Inr (received_header h, m, tu3) \<and>
       drop HEADER_SIZE m = data \<and> tuple_peers t tu2 t' tu3"
proof -
  have ok: "sodium_ok (cl_sodium lib)" "cryptopp_ok (cl_cryptopp lib)"
    using assms(1) by (simp_all add: crypto_libs_ok_def)
  obtain e mid tu1 where l: "tu_sodium tu = Some e"
    "encrypt_sodium lib t rn (Some h) data e tu = Inr (mid, tu1)" "tuple_peers t tu1 t' tu'"
    and d: "\<And>fresh rn'. isEncrypted fresh mid = Inr True \<Longrightarrow> \<exists>m tu3.
       decrypt_sodium lib t' fresh rn' mid tu' = Inr (m, tu3) \<and> tuple_peers t tu1 t' tu3 \<and>
       (\<forall>h0. deserialize h0 m = Inr (received_header h, True)) \<and> drop HEADER_SIZE m = data"
    by (rule sodium_layer [OF ok(1) assms(2-4)]) blast
  obtain e' res tu2 where l': "tu_cryptopp tu1 = Some e'"
    "encrypt_cryptopp lib t rn None mid e' tu1 = Inr (res, tu2)" "tuple_peers t tu2 t' tu'"
    and d': "\<And>fresh rn'. isEncrypted fresh res = Inr True \<Longrightarrow> \<exists>tu3.
       decrypt_cryptopp lib t' fresh rn' res tu' = Inr (framed None mid, tu3) \<and> tuple_peers t tu2 t' tu3 \<and>
       tu_sodium tu3 = tu_sodium tu'"
    by (rule cryptopp_layer [OF ok(2) assms(2) l(3)]) blast
  show ?thesis
  proof (rule that [of mid tu1 res tu2])
    show "singleEncrypt lib t rn CRYPTOSODIUM h data tu = Inr (mid, tu1)"
      using l by (simp add: singleEncrypt_def)
    show "doubleEncrypt lib t rn h data tu = Inr (res, tu2)"
      using l l' by (simp add: doubleEncrypt_def)
    fix fresh and rn' :: crypto_random and h0
    assume enc: "isEncrypted fresh mid = Inr True" "isEncrypted fresh res = Inr True"
    obtain tu3 where 3: "decrypt_cryptopp lib t' fresh rn' res tu' = Inr (mid, tu3)" "tuple_peers t tu2 t' tu3"
      "tu_sodium tu3 = tu_sodium tu'"
      using d' [OF enc(2), of rn'] by (auto simp: framed_def)
    obtain m tu4 where 4: "decrypt_sodium lib t' fresh rn' mid tu' = Inr (m, tu4)" "tuple_peers t tu1 t' tu4"
       "\<And>h0. deserialize h0 m = Inr (received_header h, True)" "drop HEADER_SIZE m = data"
      using d [OF enc(1), of rn'] by blast
    obtain x e5 where 5: "tu_sodium tu' = Some x" "sodium_decrypt (cl_sodium lib) t' fresh (rn_key0 rn') x mid = Inr (m, e5)"
      "tu4 = tu'\<lparr>tu_sodium := Some e5\<rparr>"
      using 4(1) l(3) by (auto simp: decrypt_sodium_def tuple_peers_def split: option.splits)
    have dec: "decrypt_sodium lib t' fresh rn' mid tu3 = Inr (m, tu3\<lparr>tu_sodium := Some e5\<rparr>)"
      using 5 3(3) by (simp add: decrypt_sodium_def)
    moreover have "tuple_peers t tu2 t' (tu3\<lparr>tu_sodium := Some e5\<rparr>)"
    proof -
      have "tu_sodium tu2 = tu_sodium tu1"
        using l'(2) by (auto simp: encrypt_cryptopp_def)
      then show ?thesis using 4(2) 5(3) 3(2) by (simp add: tuple_peers_def)
    qed
    ultimately show "\<exists>m tu3. doubleDecrypt lib t' fresh rn' h0 res tu' = Inr (received_header h, m, tu3) \<and>
       drop HEADER_SIZE m = data \<and> tuple_peers t tu2 t' tu3"
      using 3(1) 4(3,4) by (simp add: doubleDecrypt_def)
  qed (rule l'(3))
qed

lemma double_message:
  assumes "crypto_libs_ok lib" "crypto_random_ok rn" "tuple_peers t tu t' tu'" "header_wf h"
    and "length data < 2 ^ 64"
  shows "\<exists>c mid tu1 res tu2. compress_data lib h level buffer data = Inr c \<and>
    singleEncrypt lib t rn CRYPTOSODIUM h c tu = Inr (mid, tu1) \<and>
    compressDoubleEncrypt lib t rn buffer h doEncrypt level data tu = Inr (res, tu2) \<and>
    tuple_peers t tu2 t' tu' \<and>
    ((doEncrypt \<longrightarrow> isEncrypted fresh mid = Inr True \<and> isEncrypted fresh res = Inr True) \<longrightarrow>
      (\<exists>tu3. doubleDecryptDecompress lib t' fresh rn' buffer' h0 res tu' =
         Inr (received_header h, data, tu3) \<and> tuple_peers t tu2 t' tu3))"
proof -
  obtain c where c: "compress_data lib h level buffer data = Inr c"
    "\<And>buffer'. uncompress_data lib (received_header h) buffer' c = Inr data"
    by (rule compress_data_roundtrip [OF crypto_libs_ok_compress [OF assms(1)] assms(5), of h level buffer]) blast
  obtain mid tu1 res tu2 where l: "singleEncrypt lib t rn CRYPTOSODIUM h c tu = Inr (mid, tu1)"
    "doubleEncrypt lib t rn h c tu = Inr (res, tu2)" "tuple_peers t tu2 t' tu'"
    and d: "\<And>fresh rn' h0. isEncrypted fresh mid = Inr True \<Longrightarrow> isEncrypted fresh res = Inr True \<Longrightarrow> \<exists>m tu3.
       doubleDecrypt lib t' fresh rn' h0 res tu' = Inr (received_header h, m, tu3) \<and>
       drop HEADER_SIZE m = c \<and> tuple_peers t tu2 t' tu3"
    by (rule double_layer [OF assms(1-4)]) blast
  show ?thesis
  proof (cases doEncrypt)
    case True
    have "\<exists>tu3. doubleDecryptDecompress lib t' fresh rn' buffer' h0 res tu' =
         Inr (received_header h, data, tu3) \<and> tuple_peers t tu2 t' tu3"
      if "isEncrypted fresh mid = Inr True" "isEncrypted fresh res = Inr True"
      using d [OF that, of rn' h0] c(2) by (auto simp: doubleDecryptDecompress_def)
    then show ?thesis using True c(1) l by (simp add: compressDoubleEncrypt_def)
  next
    case False
    obtain e1 e2 where e: "tu_sodium tu' = Some e1" "may_use t' e1" "tu_cryptopp tu' = Some e2" "may_use t' e2"
      using assms(3) unfolding tuple_peers_def by blast
    have "doubleDecryptDecompress lib t' fresh rn' buffer' h0 (serialize h @ c) tu' =
        Inr (received_header h, data, tu')"
      using decrypt_sodium_header [OF e(1,2) assms(4)] decrypt_cryptopp_header [OF e(3,4) assms(4)]
        deserialize_header_drop [OF assms(4)] c(2)
      by (simp add: doubleDecryptDecompress_def doubleDecrypt_def)
    then show ?thesis using False c(1) l(1) assms(3) by (simp add: compressDoubleEncrypt_def)
  qed
qed

text \<open>
  Senders and receivers choose between one and two encryptors by an option. A receiver takes a
  message for an encrypted one when it does not start with a header: \<open>recognised\<close> says that
  what the sender's encryptors make does not look like a header by chance.
\<close>

definition message_out ::
  "bool \<Rightarrow> crypto_libs \<Rightarrow> terminals \<Rightarrow> crypto_random \<Rightarrow> CRYPTO \<Rightarrow> string \<Rightarrow> HEADER \<Rightarrow> bool \<Rightarrow> int \<Rightarrow> string \<Rightarrow>
   crypto_tuple \<Rightarrow> (string \<times> crypto_tuple) result" where
  "message_out double lib t rn crypto buffer header doEncrypt level data tu =
     (if double then compressDoubleEncrypt lib t rn buffer header doEncrypt level data tu
      else compressSingleEncrypt lib t rn crypto buffer header doEncrypt level data tu)"

definition message_in ::
  "bool \<Rightarrow> crypto_libs \<Rightarrow> terminals \<Rightarrow> HEADER \<Rightarrow> crypto_random \<Rightarrow> CRYPTO \<Rightarrow> string \<Rightarrow> HEADER \<Rightarrow> string \<Rightarrow>
   crypto_tuple \<Rightarrow> (HEADER \<times> string \<times> crypto_tuple) result" where
  "message_in double lib t fresh rn crypto buffer header data tu =
     (if double then doubleDecryptDecompress lib t fresh rn buffer header data tu
      else singleDecryptDecompress lib t fresh rn crypto buffer header data tu)"

definition looks_encrypted :: "HEADER \<Rightarrow> (string \<times> crypto_tuple) result \<Rightarrow> bool" where
  "looks_encrypted fresh m = (case m of Inl _ \<Rightarrow> False | Inr (s, _) \<Rightarrow> isEncrypted fresh s = Inr True)"

definition recognised ::
  "HEADER \<Rightarrow> bool \<Rightarrow> crypto_libs \<Rightarrow> terminals \<Rightarrow> crypto_random \<Rightarrow> CRYPTO \<Rightarrow> string \<Rightarrow> HEADER \<Rightarrow> bool \<Rightarrow> int \<Rightarrow>
   string \<Rightarrow> crypto_tuple \<Rightarrow> bool" where
  "recognised fresh double lib t rn crypto buffer header doEncrypt level data tu \<longleftrightarrow>
     \<not> doEncrypt \<or>
     looks_encrypted fresh (message_out double lib t rn crypto buffer header True level data tu) \<and>
     (double \<longrightarrow> looks_encrypted fresh (bindE (compress_data lib header level buffer data)
        (\<lambda>c. singleEncrypt lib t rn CRYPTOSODIUM header c tu)))"

lemma message_roundtrip:
  assumes "crypto_libs_ok lib" "crypto_random_ok rn" "tuple_peers t tu t' tu'" "header_wf h"
    and "length data < 2 ^ 64" "crypto \<in> {CRYPTOSODIUM, CRYPTOPP}"
    and "recognised fresh double lib t rn crypto buffer h doEncrypt level data tu"
  shows "\<exists>res tu2. message_out double lib t rn crypto buffer h doEncrypt level data tu = Inr (res, tu2) \<and>
    tuple_peers t tu2 t' tu' \<and>
    (\<forall>rn' buffer' h0. \<exists>tu3. message_in double lib t' fresh rn' crypto buffer' h0 res tu' =
       Inr (received_header h, data, tu3) \<and> tuple_peers t tu2 t' tu3)"
proof (cases double)
  case True
  have r: "looks_encrypted fresh (compressDoubleEncrypt lib t rn buffer h True level data tu)"
    "looks_encrypted fresh (bindE (compress_data lib h level buffer data)
        (\<lambda>c. singleEncrypt lib t rn CRYPTOSODIUM h c tu))" if doEncrypt
    using assms(7) that True by (simp_all add: recognised_def message_out_def)
  note m = double_message [OF assms(1-5), of level buffer doEncrypt]
  from m obtain res tu2 where res: "compressDoubleEncrypt lib t rn buffer h doEncrypt level data tu = Inr (res, tu2)"
    "tuple_peers t tu2 t' tu'" by blast
  have "\<exists>tu3. doubleDecryptDecompress lib t' fresh rn' buffer' h0 res tu' =
       Inr (received_header h, data, tu3) \<and> tuple_peers t tu2 t' tu3" for rn' buffer' h0
    using m [of fresh rn' buffer' h0] r res(1) by (auto simp: looks_encrypted_def)
  then show ?thesis using True res by (simp add: message_out_def message_in_def)
next
  case False
  have r: "looks_encrypted fresh (compressSingleEncrypt lib t rn crypto buffer h True level data tu)" if doEncrypt
    using assms(7) that False by (simp add: recognised_def message_out_def)
  note m = single_message [OF assms(1-6), of buffer doEncrypt level]
  from m obtain res tu2 where res: "compressSingleEncrypt lib t rn crypto buffer h doEncrypt level data tu = Inr (res, tu2)"
    "tuple_peers t tu2 t' tu'" by blast
  have "\<exists>tu3. singleDecryptDecompress lib t' fresh rn' crypto buffer' h0 res tu' =
       Inr (received_header h, data, tu3) \<and> tuple_peers t tu2 t' tu3" for rn' buffer' h0
    using m [of fresh rn' buffer' h0] r res(1) by (auto simp: looks_encrypted_def)
  then show ?thesis using False res by (simp add: message_out_def message_in_def)
qed

text \<open>
  With one encryptor, or without encryption: what is made from a header and data can always be
  made, and the peer gets the header and the data from it.
\<close>

theorem single_roundtrip:
  assumes "crypto_libs_ok lib" "crypto_random_ok rn" "tuple_peers t tu t' tu'" "header_wf h"
    and "length data < 2 ^ 64" "crypto \<in> {CRYPTOSODIUM, CRYPTOPP}"
  shows "\<exists>res tu2. compressSingleEncrypt lib t rn crypto buffer h doEncrypt level data tu = Inr (res, tu2) \<and>
    tuple_peers t tu2 t' tu' \<and>
    ((doEncrypt \<longrightarrow> isEncrypted fresh res = Inr True) \<longrightarrow>
      (\<exists>tu3. singleDecryptDecompress lib t' fresh rn' crypto buffer' h0 res tu' =
         Inr (received_header h, data, tu3) \<and> tuple_peers t tu2 t' tu3))"
  by (rule single_message [OF assms])


text \<open>
  The encryptor of the two that is missing decides what is lost: without the first one the data
  is not in what \<open>doubleEncrypt\<close> makes.
\<close>

theorem doubleEncrypt_loses_data:
  assumes "tu_sodium tu = None"
  shows "doubleEncrypt lib t rn h data tu = doubleEncrypt lib t rn h' data' tu"
  using assms by (simp add: doubleEncrypt_def)

subsection \<open>Witnesses\<close>

definition demo_libs :: crypto_libs where
  "demo_libs = \<lparr>cl_sodium = demo_sodium, cl_cryptopp = demo_cryptopp, cl_compress = store_lib\<rparr>"

lemma demo_libs_ok: "crypto_libs_ok demo_libs"
  by (simp add: crypto_libs_ok_def demo_libs_def demo_sodium_ok demo_cryptopp_ok store_lib_ok)

definition demo_random :: crypto_random where
  "demo_random = \<lparr>rn_key0 = replicate 32 1, rn_nonce = replicate 12 nul, rn_key1 = replicate 32 2,
     rn_iv = replicate 16 nul\<rparr>"

lemma demo_random_ok: "crypto_random_ok demo_random"
  by (simp add: crypto_random_ok_def demo_random_def crypto_aead_NPUBBYTES_def AES_BLOCKSIZE_def)

definition client_terminals :: terminals where
  "client_terminals = \<lparr>term_env = Some ''pts1'', serverTerminal = [], clientTerminal = ''pts1'', testbinTerminal = []\<rparr>"

definition server_terminals :: terminals where
  "server_terminals = \<lparr>term_env = Some ''pts0'', serverTerminal = ''pts0'', clientTerminal = [], testbinTerminal = []\<rparr>"

definition demo_encryptor :: "bool \<Rightarrow> encryptor" where
  "demo_encryptor client = \<lparr>en_key = replicate 32 0, en_handler = key_handler_new 32, en_seed = [],
     en_pubKeyAes = [], en_encodedPubKeyAes = [], en_signatureWithPubKeySign = [], en_msgHash = [],
     en_verifiedSignature = \<not> client, en_keysExchanged = True, en_signatureSent = client\<rparr>"

definition demo_tuple :: "bool \<Rightarrow> crypto_tuple" where
  "demo_tuple client = \<lparr>tu_sodium = Some (demo_encryptor client), tu_cryptopp = Some (demo_encryptor client),
     tu_input = []\<rparr>"

lemma demo_peers:
  "tuple_peers client_terminals (demo_tuple True) server_terminals (demo_tuple False)"
  by (simp add: tuple_peers_def demo_tuple_def may_use_def checkAccess_def isTerminal_def
      client_terminals_def server_terminals_def demo_encryptor_def encryptor_key_def plain_key_def
      recoverKey_def key_handler_new_def)

definition demo_header :: HEADER where
  "demo_header = \<lparr>header_type = SESSION, field1_size = 0, field2_size = 0, header_compressor = LZ4,
     header_diagnostics = DIAG_NONE, header_status = ST_NONE, field3_size = 0, field4_size = 0\<rparr>"

lemma demo_header_wf: "header_wf demo_header"
  by (simp add: header_wf_def demo_header_def)

lemma single_roundtrip_witness:
  "\<exists>res tu2 tu3. compressSingleEncrypt demo_libs client_terminals demo_random CRYPTOSODIUM [] demo_header
       True 3 ''ab'' (demo_tuple True) = Inr (res, tu2) \<and>
     singleDecryptDecompress demo_libs server_terminals demo_header demo_random CRYPTOSODIUM [] demo_header
       res (demo_tuple False) = Inr (demo_header, ''ab'', tu3)"
proof -
  let ?m = "compressSingleEncrypt demo_libs client_terminals demo_random CRYPTOSODIUM [] demo_header
       True 3 ''ab'' (demo_tuple True)"
  have "\<exists>res tu2. ?m = Inr (res, tu2) \<and>
    tuple_peers client_terminals tu2 server_terminals (demo_tuple False) \<and>
    ((True \<longrightarrow> isEncrypted demo_header res = Inr True) \<longrightarrow>
      (\<exists>tu3. singleDecryptDecompress demo_libs server_terminals demo_header demo_random CRYPTOSODIUM []
         demo_header res (demo_tuple False) = Inr (received_header demo_header, ''ab'', tu3) \<and>
         tuple_peers client_terminals tu2 server_terminals tu3))"
    by (rule single_roundtrip [OF demo_libs_ok demo_random_ok demo_peers demo_header_wf]) simp_all
  moreover have "map_sum id (\<lambda>(res, _). isEncrypted demo_header res) ?m = Inr (Inr True)"
    by code_simp
  moreover have "received_header demo_header = demo_header"
    by (simp add: received_header_def demo_header_def)
  ultimately show ?thesis by fastforce
qed


text \<open>A client without its first encryptor sends the same for every message.\<close>

lemma doubleEncrypt_loses_data_witness:
  "doubleEncrypt demo_libs client_terminals demo_random demo_header ''ab'' (demo_tuple True\<lparr>tu_sodium := None\<rparr>) =
   doubleEncrypt demo_libs client_terminals demo_random demo_header ''cd'' (demo_tuple True\<lparr>tu_sodium := None\<rparr>)"
  by (rule doubleEncrypt_loses_data) simp

end
