(* ===== verification/Line_Reader.thy ===== *)
theory Line_Reader
  imports Splitting
begin

section \<open>Reading lines (common/Lines, StringLines, FileLines, Lines2)\<close>

text \<open>
  \<open>Lines\<close> is a \<open>getline\<close> that does not allocate: an array is filled from a source, lines
  are views into the array, and when the scan reaches the end of the array the unread part is
  moved to its front and the array is filled up again. The source (a string or a file) is
  behind two virtual functions, \<open>getInputPosition\<close> and \<open>refillBuffer\<close>.

  The record holds the members of \<open>Lines\<close> together with the source of the two derived
  classes: the characters and the position reached in them. The array keeps its previous
  contents behind \<open>sizeInUse\<close>, as in the code, where it is not initialised. The size of the
  array, \<open>ARRAY_SIZE\<close> in the code, is the length of the list \<open>ln_buffer\<close>.

  The locale \<open>line_source\<close> states what \<open>getLineImpl\<close> needs of the virtual functions; the
  two derived classes interpret it.
\<close>

definition ARRAY_SIZE :: nat where
  "ARRAY_SIZE = 500000"

record lines =
  ln_delimiter :: char
  ln_keepDelimiter :: bool
  ln_processed :: nat
  ln_sizeInUse :: nat
  ln_inputSize :: nat
  ln_buffer :: string
  ln_index :: int
  ln_last :: bool
  ln_source :: string
  ln_position :: nat

subsection \<open>Operations of Lines\<close>

definition removeProcessedLines :: "lines \<Rightarrow> lines result" where
  "removeProcessedLines l =
     (if ln_processed l = 0 \<or> ln_processed l \<ge> ln_sizeInUse l
      then Inl (Runtime_Error '': The buffer is too small.'')
      else Inr (l\<lparr>ln_buffer := overwrite (ln_buffer l) 0
                   (substr (ln_buffer l) (ln_processed l) (ln_sizeInUse l - ln_processed l)),
                 ln_sizeInUse := ln_sizeInUse l - ln_processed l,
                 ln_processed := 0\<rparr>))"

text \<open>
  \<open>std::find\<close> over the used part of the array from \<open>processed\<close>: the position of the
  delimiter, or the end of the used part.
\<close>

definition scan :: "lines \<Rightarrow> nat" where
  "scan l = ln_processed l + length (takeWhile (\<lambda>c. c \<noteq> ln_delimiter l)
              (drop (ln_processed l) (take (ln_sizeInUse l) (ln_buffer l))))"

text \<open>The part of \<open>getLineImpl\<close> after the delimiter was looked for.\<close>

definition takeLine :: "(lines \<Rightarrow> nat) \<Rightarrow> lines \<Rightarrow> nat \<Rightarrow> lines \<times> string option" where
  "takeLine getInputPosition l itEnd =
     (let itBeg = ln_processed l;
          endsWithDelimiter =
            (itEnd \<noteq> length (ln_buffer l) \<and> ln_buffer l ! itEnd = ln_delimiter l);
          dist = itEnd - itBeg
      in if dist = 0 then (l, None)
         else
           let view = substr (ln_buffer l) itBeg
                 (dist + (if endsWithDelimiter \<and> ln_keepDelimiter l then 1 else 0));
               l = l\<lparr>ln_index := ln_index l + 1,
                     ln_processed := ln_processed l + (dist + (if endsWithDelimiter then 1 else 0))\<rparr>;
               l = l\<lparr>ln_last := (ln_processed l = ln_sizeInUse l \<and>
                                  getInputPosition l = ln_inputSize l)\<rparr>
           in (l, Some view))"

text \<open>
  A scan whose start is behind its end does not stop at the end; that is an access outside
  the array.
\<close>

definition getLineImpl ::
  "(lines \<Rightarrow> nat) \<Rightarrow> (lines \<Rightarrow> (lines \<times> bool) result) \<Rightarrow> lines \<Rightarrow> (lines \<times> string option) result" where
  "getLineImpl getInputPosition refillBuffer l =
     (if ln_sizeInUse l < ln_processed l then Inl Undefined_Behaviour
      else
        let itEnd = scan l in
        if itEnd = length (ln_buffer l) \<and> getInputPosition l < ln_inputSize l then
          bindE (removeProcessedLines l) (\<lambda>l.
          bindE (refillBuffer l) (\<lambda>(l, ok).
            if \<not> ok then Inr (l, None)
            else Inr (takeLine getInputPosition l (scan l))))
        else Inr (takeLine getInputPosition l itEnd))"

text \<open>The loop \<open>while (lines.getLine(line))\<close>, for at most \<open>n\<close> lines.\<close>

fun getLines ::
  "(lines \<Rightarrow> nat) \<Rightarrow> (lines \<Rightarrow> (lines \<times> bool) result) \<Rightarrow> nat \<Rightarrow> lines \<Rightarrow> (lines \<times> string list) result" where
  "getLines pos refill 0 l = Inr (l, [])"
| "getLines pos refill (Suc n) l =
     bindE (getLineImpl pos refill l) (\<lambda>(l, line).
       case line of
         None \<Rightarrow> Inr (l, [])
       | Some v \<Rightarrow> bindE (getLines pos refill n l) (\<lambda>(l, vs). Inr (l, v # vs)))"

subsection \<open>StringLines and FileLines\<close>

definition Lines_init :: "char \<Rightarrow> bool \<Rightarrow> string \<Rightarrow> string \<Rightarrow> lines" where
  "Lines_init delimiter keepDelimiter array source =
     \<lparr>ln_delimiter = delimiter, ln_keepDelimiter = keepDelimiter, ln_processed = 0,
      ln_sizeInUse = 0, ln_inputSize = length source, ln_buffer = array, ln_index = -1,
      ln_last = False, ln_source = source, ln_position = 0\<rparr>"

definition StringLines_getInputPosition :: "lines \<Rightarrow> nat" where
  "StringLines_getInputPosition l = ln_position l"

definition StringLines_refillBuffer :: "lines \<Rightarrow> (lines \<times> bool) result" where
  "StringLines_refillBuffer l =
     (let bytesToRead = min (ln_inputSize l - ln_position l)
                            (length (ln_buffer l) - ln_sizeInUse l)
      in Inr (l\<lparr>ln_buffer := overwrite (ln_buffer l) (ln_sizeInUse l)
                  (substr (ln_source l) (ln_position l) bytesToRead),
                ln_position := ln_position l + bytesToRead,
                ln_sizeInUse := ln_sizeInUse l + bytesToRead\<rparr>, True))"

definition StringLines :: "string \<Rightarrow> char \<Rightarrow> bool \<Rightarrow> string \<Rightarrow> lines result" where
  "StringLines array delimiter keepDelimiter source =
     bindE (StringLines_refillBuffer (Lines_init delimiter keepDelimiter array source))
       (\<lambda>(l, _). Inr l)"

text \<open>
  The stream of \<open>FileLines\<close> throws when it gives fewer bytes than asked for; the number of
  bytes is computed from the size that the file had when it was opened.
\<close>

definition FileLines_getInputPosition :: "lines \<Rightarrow> nat" where
  "FileLines_getInputPosition l = ln_position l"

definition FileLines_refillBuffer :: "lines \<Rightarrow> (lines \<times> bool) result" where
  "FileLines_refillBuffer l =
     (let bytesToRead = min (ln_inputSize l - FileLines_getInputPosition l)
                            (length (ln_buffer l) - ln_sizeInUse l);
          bytes = substr (ln_source l) (ln_position l) bytesToRead
      in if length bytes < bytesToRead then Inl (Runtime_Error ''basic_ios::clear'')
         else Inr (l\<lparr>ln_buffer := overwrite (ln_buffer l) (ln_sizeInUse l) bytes,
                     ln_position := ln_position l + length bytes,
                     ln_sizeInUse := ln_sizeInUse l + length bytes\<rparr>, True))"

definition FileLines :: "string \<Rightarrow> char \<Rightarrow> bool \<Rightarrow> string \<Rightarrow> lines result" where
  "FileLines array delimiter keepDelimiter contents =
     bindE (FileLines_refillBuffer (Lines_init delimiter keepDelimiter array contents))
       (\<lambda>(l, _). Inr l)"

subsection \<open>What is left to read\<close>

text \<open>
  The characters not yet handed out: the used part of the array behind \<open>processed\<close>, then the
  rest of the source. Between calls the array is full or the source is exhausted.
\<close>

definition unread :: "lines \<Rightarrow> string" where
  "unread l = drop (ln_processed l) (take (ln_sizeInUse l) (ln_buffer l))
     @ drop (ln_position l) (ln_source l)"

definition bounds_ok :: "lines \<Rightarrow> bool" where
  "bounds_ok l \<longleftrightarrow> ln_processed l \<le> ln_sizeInUse l \<and> ln_sizeInUse l \<le> length (ln_buffer l) \<and>
     ln_position l \<le> ln_inputSize l \<and> ln_inputSize l = length (ln_source l)"

definition lines_inv :: "lines \<Rightarrow> bool" where
  "lines_inv l \<longleftrightarrow> bounds_ok l \<and>
     (ln_position l = ln_inputSize l \<or> ln_sizeInUse l = length (ln_buffer l))"

text \<open>The state in which \<open>removeProcessedLines\<close> refuses although nothing is left in the array.\<close>

definition at_boundary :: "lines \<Rightarrow> bool" where
  "at_boundary l \<longleftrightarrow> ln_processed l = length (ln_buffer l) \<and> ln_position l < ln_inputSize l"

locale line_source =
  fixes pos :: "lines \<Rightarrow> nat"
    and refill :: "lines \<Rightarrow> (lines \<times> bool) result"
  assumes pos_position: "pos l = ln_position l"
    and refill_fills: "bounds_ok l \<Longrightarrow> \<exists>l'. refill l = Inr (l', True) \<and> lines_inv l' \<and>
          unread l' = unread l \<and> length (ln_buffer l') = length (ln_buffer l) \<and>
          ln_processed l' = ln_processed l \<and> ln_delimiter l' = ln_delimiter l \<and>
          ln_keepDelimiter l' = ln_keepDelimiter l \<and> ln_index l' = ln_index l"
begin

lemma unread_nth:
  assumes "bounds_ok l" and "unread l = x @ y" and "ln_processed l + length x \<le> ln_sizeInUse l"
  shows "substr (ln_buffer l) (ln_processed l) (length x) = x"
proof -
  have "take (length x) (unread l) = x" using assms(2) by simp
  then show ?thesis
    using assms(1,3) by (simp add: unread_def bounds_ok_def substr_def take_drop)
qed

text \<open>A scan that finds the delimiter stops behind the line, which is then handed out.\<close>

lemma scan_line:
  assumes "bounds_ok l" and "unread l = x @ ln_delimiter l # r" and "ln_delimiter l \<notin> set x"
    and "ln_processed l + length x < ln_sizeInUse l"
  shows "scan l = ln_processed l + length x"
    and "ln_buffer l ! (ln_processed l + length x) = ln_delimiter l"
proof -
  let ?u = "drop (ln_processed l) (take (ln_sizeInUse l) (ln_buffer l))"
  have len: "length ?u = ln_sizeInUse l - ln_processed l" using assms(1) by (simp add: bounds_ok_def)
  have u: "?u @ drop (ln_position l) (ln_source l) = x @ ln_delimiter l # r"
    using assms(2) by (simp add: unread_def)
  have "take (length x + 1) ?u = take (length x + 1) (x @ ln_delimiter l # r)"
    using len assms(4) by (simp add: u [symmetric])
  then have u': "take (length x + 1) ?u = x @ [ln_delimiter l]" by simp
  then have "?u = (x @ [ln_delimiter l]) @ drop (length x + 1) ?u" by (metis append_take_drop_id)
  then obtain t where t: "?u = x @ ln_delimiter l # t" by auto
  then have "takeWhile (\<lambda>c. c \<noteq> ln_delimiter l) ?u = x" using assms(3) by (auto simp: takeWhile_append)
  then show "scan l = ln_processed l + length x" by (simp add: scan_def)
  have "?u ! length x = ln_delimiter l" using t by simp
  then show "ln_buffer l ! (ln_processed l + length x) = ln_delimiter l"
    using assms(1,4) by (simp add: bounds_ok_def)
qed

lemma takeLine_line:
  assumes "lines_inv l" and "unread l = x @ ln_delimiter l # r" and "ln_delimiter l \<notin> set x"
    and "x \<noteq> []" and "ln_processed l + length x < ln_sizeInUse l"
  obtains l' where "takeLine pos l (scan l) =
      (l', Some (x @ (if ln_keepDelimiter l then [ln_delimiter l] else [])))"
    and "lines_inv l'" "unread l' = r" "length (ln_buffer l') = length (ln_buffer l)"
    "ln_delimiter l' = ln_delimiter l" "ln_keepDelimiter l' = ln_keepDelimiter l"
    "ln_index l' = ln_index l + 1" "ln_last l' \<longleftrightarrow> r = []"
    "ln_position l' = ln_position l" "ln_inputSize l' = ln_inputSize l"
    "ln_processed l' = ln_processed l + length x + 1"
proof -
  have b: "bounds_ok l" using assms(1) by (simp add: lines_inv_def)
  note s = scan_line [OF b assms(2,3,5)]
  let ?l = "l\<lparr>ln_index := ln_index l + 1, ln_processed := ln_processed l + (length x + 1)\<rparr>"
  let ?last = "ln_processed l + (length x + 1) = ln_sizeInUse l \<and> ln_position l = ln_inputSize l"
  have p: "pos (?l) = ln_position l" by (simp add: pos_position)
  have ne: "ln_processed l + length x \<noteq> length (ln_buffer l)"
    using assms(5) b by (simp add: bounds_ok_def)
  have view: "substr (ln_buffer l) (ln_processed l) (length x + 1) = x @ [ln_delimiter l]"
    using unread_nth [OF b, of "x @ [ln_delimiter l]" r] assms(2,5) by simp
  then have view': "substr (ln_buffer l) (ln_processed l) (length x) = x"
    using unread_nth [OF b, of x "ln_delimiter l # r"] assms(2,5) by simp
  have run: "takeLine pos l (scan l) =
      (?l\<lparr>ln_last := ?last\<rparr>, Some (x @ (if ln_keepDelimiter l then [ln_delimiter l] else [])))"
    using s ne assms(4) view view' p by (simp add: takeLine_def Let_def)
  have u: "unread ?l = drop (length x + 1) (unread l)"
    using assms(5) b by (simp add: unread_def bounds_ok_def add.commute)
  have "unread (?l\<lparr>ln_last := ?last\<rparr>) = unread ?l" by (simp add: unread_def)
  then have u': "unread (?l\<lparr>ln_last := ?last\<rparr>) = r" by (simp only: u assms(2)) simp
  have last: "?last \<longleftrightarrow> r = []"
  proof -
    have "length r = ln_sizeInUse l - (ln_processed l + length x + 1)
        + (length (ln_source l) - ln_position l)"
      using u' b by (auto simp: unread_def bounds_ok_def)
    then show ?thesis using b assms(5) by (auto simp: bounds_ok_def)
  qed
  show thesis
    by (rule that [OF run]) (use u' last assms(1,5) in \<open>auto simp: lines_inv_def bounds_ok_def\<close>)
qed

lemma getLine_in_buffer:
  assumes inv: "lines_inv l" and u: "unread l = x @ ln_delimiter l # r"
    and nd: "ln_delimiter l \<notin> set x" and ne: "x \<noteq> []"
    and less: "ln_processed l + length x < ln_sizeInUse l"
  shows "getLineImpl pos refill l = Inr (takeLine pos l (scan l))"
proof -
  have b: "bounds_ok l" using inv by (simp add: lines_inv_def)
  then have ok: "\<not> ln_sizeInUse l < ln_processed l" by (simp add: bounds_ok_def)
  have "scan l \<noteq> length (ln_buffer l)"
    using scan_line(1) [OF b u nd less] less b by (simp add: bounds_ok_def)
  then show ?thesis using ok by (simp add: getLineImpl_def Let_def)
qed

text \<open>A line that is not complete in the array is complete after the array is filled up.\<close>

lemma removeProcessedLines_ok:
  assumes "bounds_ok l" and "0 < ln_processed l" "ln_processed l < ln_sizeInUse l"
  obtains l' where "removeProcessedLines l = Inr l'" "bounds_ok l'" "unread l' = unread l"
    "length (ln_buffer l') = length (ln_buffer l)" "ln_processed l' = 0"
    "ln_delimiter l' = ln_delimiter l" "ln_keepDelimiter l' = ln_keepDelimiter l"
    "ln_index l' = ln_index l"
proof -
  let ?m = "substr (ln_buffer l) (ln_processed l) (ln_sizeInUse l - ln_processed l)"
  have len: "length ?m = ln_sizeInUse l - ln_processed l"
    using assms by (auto simp: substr_def bounds_ok_def)
  have m: "?m = drop (ln_processed l) (take (ln_sizeInUse l) (ln_buffer l))"
    by (simp add: substr_def drop_take)
  let ?l' = "l\<lparr>ln_buffer := overwrite (ln_buffer l) 0 ?m,
      ln_sizeInUse := ln_sizeInUse l - ln_processed l, ln_processed := 0\<rparr>"
  have run: "removeProcessedLines l = Inr ?l'" using assms by (simp add: removeProcessedLines_def)
  have buf: "length (overwrite (ln_buffer l) 0 ?m) = length (ln_buffer l)"
    using len assms by (subst length_overwrite) (auto simp: bounds_ok_def)
  have "take (ln_sizeInUse l - ln_processed l) (overwrite (ln_buffer l) 0 ?m) = ?m"
    using len by (simp add: overwrite_def)
  then have "unread ?l' = unread l" using m by (simp add: unread_def)
  then show thesis
    using assms buf by (intro that [OF run]) (auto simp: bounds_ok_def)
qed

theorem getLine_line:
  assumes inv: "lines_inv l" and u: "unread l = x @ ln_delimiter l # r"
    and nd: "ln_delimiter l \<notin> set x" and ne: "x \<noteq> []"
    and fits: "length x < length (ln_buffer l)" and "\<not> at_boundary l"
  obtains l' where "getLineImpl pos refill l =
      Inr (l', Some (x @ (if ln_keepDelimiter l then [ln_delimiter l] else [])))"
    and "lines_inv l'" "unread l' = r" "length (ln_buffer l') = length (ln_buffer l)"
    "ln_delimiter l' = ln_delimiter l" "ln_keepDelimiter l' = ln_keepDelimiter l"
    "ln_index l' = ln_index l + 1" "ln_last l' \<longleftrightarrow> r = []"
    "ln_position l = ln_inputSize l \<longrightarrow> ln_position l' = ln_inputSize l'"
proof -
  have b: "bounds_ok l" using inv by (simp add: lines_inv_def)
  then have ok: "\<not> ln_sizeInUse l < ln_processed l" by (simp add: bounds_ok_def)
  show thesis
  proof (cases "ln_processed l + length x < ln_sizeInUse l")
    case True
    note run = getLine_in_buffer [OF inv u nd ne True]
    show thesis
      by (rule takeLine_line [OF inv u nd ne True], rule that) (auto simp: run)
  next
    case False
    let ?u = "drop (ln_processed l) (take (ln_sizeInUse l) (ln_buffer l))"
    have len: "length ?u = ln_sizeInUse l - ln_processed l" using b by (simp add: bounds_ok_def)
    have "?u = take (length ?u) (unread l)" by (simp add: unread_def)
    also have "\<dots> = take (length ?u) x" using False len u by simp
    finally have "\<forall>c \<in> set ?u. c \<noteq> ln_delimiter l" using nd by (metis in_set_takeD)
    then have tw: "takeWhile (\<lambda>c. c \<noteq> ln_delimiter l) ?u = ?u" by (simp only: takeWhile_eq_all_conv)
    have scan: "scan l = ln_sizeInUse l"
      unfolding scan_def tw len using b by (simp add: bounds_ok_def)
    have pos: "ln_position l < ln_inputSize l"
    proof (rule ccontr)
      assume "\<not> ?thesis"
      then have "unread l = ?u" using b by (simp add: unread_def bounds_ok_def)
      then have "length ?u = length (x @ ln_delimiter l # r)" using u by simp
      then have "length x < length ?u" by simp
      then show False using False len by simp
    qed
    then have full: "ln_sizeInUse l = length (ln_buffer l)" using inv by (auto simp: lines_inv_def)
    have "0 < ln_processed l" using False full fits by (cases "ln_processed l") auto
    moreover have "ln_processed l < ln_sizeInUse l"
      using assms(6) pos full b by (auto simp: at_boundary_def bounds_ok_def)
    ultimately obtain l1 where l1: "removeProcessedLines l = Inr l1" "bounds_ok l1"
        "unread l1 = unread l" "length (ln_buffer l1) = length (ln_buffer l)" "ln_processed l1 = 0"
        "ln_delimiter l1 = ln_delimiter l" "ln_keepDelimiter l1 = ln_keepDelimiter l"
        "ln_index l1 = ln_index l"
      using removeProcessedLines_ok [OF b] by blast
    obtain l2 where l2: "refill l1 = Inr (l2, True)" "lines_inv l2" "unread l2 = unread l1"
        "length (ln_buffer l2) = length (ln_buffer l1)" "ln_processed l2 = ln_processed l1"
        "ln_delimiter l2 = ln_delimiter l1" "ln_keepDelimiter l2 = ln_keepDelimiter l1"
        "ln_index l2 = ln_index l1"
      using refill_fills [OF l1(2)] by blast
    have run: "getLineImpl pos refill l = Inr (takeLine pos l2 (scan l2))"
      using ok scan full pos l1(1) l2(1) pos_position [of l]
      by (simp add: getLineImpl_def Let_def)
    have u2: "unread l2 = x @ ln_delimiter l2 # r" and nd2: "ln_delimiter l2 \<notin> set x"
      using u nd l1 l2 by simp_all
    have "ln_processed l2 + length x < ln_sizeInUse l2"
    proof (cases "ln_position l2 = ln_inputSize l2")
      case True
      have "length (unread l2) = ln_sizeInUse l2"
        using True l2(2,5) l1(5) by (simp add: unread_def lines_inv_def bounds_ok_def)
      then show ?thesis using u2 l2(5) l1(5) by simp
    next
      case False
      then show ?thesis using l2(2,4,5) l1(4,5) fits by (auto simp: lines_inv_def)
    qed
    then show thesis
      by (rule takeLine_line [OF l2(2) u2 nd2 ne], intro that)
        (use pos in \<open>simp_all add: run l1 l2\<close>)
  qed
qed

text \<open>At a boundary every call throws.\<close>

theorem getLine_at_boundary:
  assumes "lines_inv l" and "at_boundary l"
  shows "getLineImpl pos refill l = Inl (Runtime_Error '': The buffer is too small.'')"
proof -
  have "ln_sizeInUse l = length (ln_buffer l)" "ln_processed l = ln_sizeInUse l"
    using assms by (auto simp: lines_inv_def bounds_ok_def at_boundary_def)
  then show ?thesis
    using assms pos_position [of l]
    by (simp add: getLineImpl_def scan_def removeProcessedLines_def at_boundary_def Let_def)
qed

text \<open>With nothing left, reading ends.\<close>

lemma getLine_end:
  assumes "lines_inv l" and "unread l = []"
  shows "\<exists>l'. getLineImpl pos refill l = Inr (l', None)"
proof -
  have b: "ln_processed l = ln_sizeInUse l" "ln_position l = ln_inputSize l"
    using assms by (auto simp: lines_inv_def bounds_ok_def unread_def)
  then have "scan l = ln_processed l" by (simp add: scan_def)
  then show ?thesis
    using b pos_position [of l] by (simp add: getLineImpl_def takeLine_def Let_def)
qed

text \<open>
  Reading a whole source of terminated, non-empty lines, each of which fits into the array:
  either a call throws at a boundary, or exactly the lines come out.
\<close>

theorem getLines_lines:
  assumes "lines_inv l" and "unread l = concat (map (\<lambda>x. x @ [ln_delimiter l]) xs)"
    and "\<forall>x \<in> set xs. x \<noteq> [] \<and> ln_delimiter l \<notin> set x \<and> length x < length (ln_buffer l)"
    and "length xs < n"
  shows "(ln_position l < ln_inputSize l \<and>
      getLines pos refill n l = Inl (Runtime_Error '': The buffer is too small.'')) \<or>
    (\<exists>l'. getLines pos refill n l =
       Inr (l', map (\<lambda>x. x @ (if ln_keepDelimiter l then [ln_delimiter l] else [])) xs))"
  using assms
proof (induction xs arbitrary: l n)
  case Nil
  then obtain m where n: "n = Suc m" by (cases n) auto
  obtain l' where "getLineImpl pos refill l = Inr (l', None)"
    using getLine_end Nil.prems(1,2) by auto
  then show ?case using n by simp
next
  case (Cons x xs)
  then obtain m where n: "n = Suc m" "length xs < m" by (cases n) auto
  show ?case
  proof (cases "at_boundary l")
    case True
    then show ?thesis
      using getLine_at_boundary [OF Cons.prems(1)] n by (simp add: at_boundary_def)
  next
    case False
    have u: "unread l = x @ ln_delimiter l # concat (map (\<lambda>x. x @ [ln_delimiter l]) xs)"
      using Cons.prems(2) by simp
    obtain l' where l': "getLineImpl pos refill l =
        Inr (l', Some (x @ (if ln_keepDelimiter l then [ln_delimiter l] else [])))"
      "lines_inv l'" "unread l' = concat (map (\<lambda>x. x @ [ln_delimiter l]) xs)"
      "length (ln_buffer l') = length (ln_buffer l)"
      "ln_delimiter l' = ln_delimiter l" "ln_keepDelimiter l' = ln_keepDelimiter l"
      "ln_position l = ln_inputSize l \<longrightarrow> ln_position l' = ln_inputSize l'"
      using Cons.prems(3) by (auto intro: getLine_line [OF Cons.prems(1) u _ _ _ False])
    have IH: "(ln_position l' < ln_inputSize l' \<and>
        getLines pos refill m l' = Inl (Runtime_Error '': The buffer is too small.'')) \<or>
      (\<exists>l''. getLines pos refill m l' =
         Inr (l'', map (\<lambda>x. x @ (if ln_keepDelimiter l' then [ln_delimiter l'] else [])) xs))"
      by (rule Cons.IH) (use Cons.prems(3) l' n in simp_all)
    have "ln_position l \<le> ln_inputSize l"
      using Cons.prems(1) by (simp add: lines_inv_def bounds_ok_def)
    then show ?thesis using IH l' n by auto
  qed
qed

end

subsection \<open>The two sources\<close>

lemma substr_drop: "substr s i n @ drop (i + n) s = drop i s"
  unfolding substr_def by (metis add.commute append_take_drop_id drop_drop)

interpretation string_source: line_source StringLines_getInputPosition StringLines_refillBuffer
proof
  fix l :: lines
  assume b: "bounds_ok l"
  define n where "n = min (ln_inputSize l - ln_position l) (length (ln_buffer l) - ln_sizeInUse l)"
  have len: "length (substr (ln_source l) (ln_position l) n) = n"
    using b by (simp add: substr_def n_def bounds_ok_def)
  let ?l' = "l\<lparr>ln_buffer := overwrite (ln_buffer l) (ln_sizeInUse l)
      (substr (ln_source l) (ln_position l) n),
      ln_position := ln_position l + n, ln_sizeInUse := ln_sizeInUse l + n\<rparr>"
  have run: "StringLines_refillBuffer l = Inr (?l', True)"
    by (simp add: StringLines_refillBuffer_def Let_def n_def)
  have fits: "ln_sizeInUse l + n \<le> length (ln_buffer l)" "ln_position l + n \<le> ln_inputSize l"
    using b by (auto simp: n_def bounds_ok_def min_def)
  have inv: "lines_inv ?l'"
    using b len fits by (auto simp: lines_inv_def bounds_ok_def) (auto simp: n_def min_def split: if_splits)
  have "take (ln_sizeInUse l + n) (overwrite (ln_buffer l) (ln_sizeInUse l)
      (substr (ln_source l) (ln_position l) n)) =
      take (ln_sizeInUse l) (ln_buffer l) @ substr (ln_source l) (ln_position l) n"
    using take_overwrite [of "ln_sizeInUse l" "ln_buffer l" "substr (ln_source l) (ln_position l) n"]
      len b by (simp add: bounds_ok_def)
  then have "unread ?l' = unread l"
    using b substr_drop by (simp add: unread_def bounds_ok_def)
  then show "\<exists>l'. StringLines_refillBuffer l = Inr (l', True) \<and> lines_inv l' \<and>
          unread l' = unread l \<and> length (ln_buffer l') = length (ln_buffer l) \<and>
          ln_processed l' = ln_processed l \<and> ln_delimiter l' = ln_delimiter l \<and>
          ln_keepDelimiter l' = ln_keepDelimiter l \<and> ln_index l' = ln_index l"
    using run inv len fits(1) by (intro exI [of _ ?l']) simp
qed (simp add: StringLines_getInputPosition_def)

lemma FileLines_refillBuffer_eq:
  "bounds_ok l \<Longrightarrow> FileLines_refillBuffer l = StringLines_refillBuffer l"
  by (simp add: FileLines_refillBuffer_def StringLines_refillBuffer_def Let_def bounds_ok_def
      FileLines_getInputPosition_def substr_def)

interpretation file_source: line_source FileLines_getInputPosition FileLines_refillBuffer
  by unfold_locales
    (simp_all add: FileLines_getInputPosition_def FileLines_refillBuffer_eq
      string_source.refill_fills)

text \<open>The constructors leave a filled array in front of the whole source.\<close>

lemma Lines_init_ok: "bounds_ok (Lines_init d k a s)" "unread (Lines_init d k a s) = s"
  by (simp_all add: Lines_init_def bounds_ok_def unread_def)

lemma FileLines_StringLines: "FileLines a d k s = StringLines a d k s"
  by (simp add: FileLines_def StringLines_def FileLines_refillBuffer_eq Lines_init_ok)

lemma StringLines_constructed:
  obtains l where "StringLines a d k s = Inr l" "lines_inv l" "unread l = s"
    "length (ln_buffer l) = length a" "ln_delimiter l = d" "ln_keepDelimiter l = k"
    "ln_index l = -1" "ln_processed l = 0"
proof -
  obtain l where "StringLines_refillBuffer (Lines_init d k a s) = Inr (l, True)" "lines_inv l"
    "unread l = s" "length (ln_buffer l) = length a" "ln_delimiter l = d" "ln_keepDelimiter l = k"
    "ln_index l = -1" "ln_processed l = 0"
    using string_source.refill_fills [OF Lines_init_ok(1) [of d k a s]]
    by (auto simp: Lines_init_ok(2)) (auto simp: Lines_init_def)
  then show thesis using that by (simp add: StringLines_def)
qed

text \<open>
  C27: A source of terminated, non-empty lines that fits into the array comes out line by line.
\<close>

theorem StringLines_reads_lines:
  assumes "\<forall>x \<in> set xs. x \<noteq> [] \<and> d \<notin> set x"
    and "length (concat (map (\<lambda>x. x @ [d]) xs)) \<le> length a" and "length xs < n"
  shows "\<exists>l l'. StringLines a d k (concat (map (\<lambda>x. x @ [d]) xs)) = Inr l \<and>
    getLines StringLines_getInputPosition StringLines_refillBuffer n l =
      Inr (l', map (\<lambda>x. x @ (if k then [d] else [])) xs)"
proof -
  let ?s = "concat (map (\<lambda>x. x @ [d]) xs)"
  obtain l where l: "StringLines a d k ?s = Inr l" "lines_inv l" "unread l = ?s"
    "length (ln_buffer l) = length a" "ln_delimiter l = d" "ln_keepDelimiter l = k"
    "ln_index l = -1" "ln_processed l = 0"
    by (rule StringLines_constructed)
  have pos: "\<not> ln_position l < ln_inputSize l"
  proof
    assume less: "ln_position l < ln_inputSize l"
    then have "length (unread l) > length a"
      using l(2,4,8) by (auto simp: lines_inv_def bounds_ok_def unread_def)
    then show False using assms(2) l(3) by simp
  qed
  have "length x < length a" if "x \<in> set xs" for x
  proof -
    have "length x < length ?s" using that by (induction xs) (auto simp: less_Suc_eq_le)
    then show ?thesis using assms(2) by simp
  qed
  then show ?thesis
    using string_source.getLines_lines [OF l(2), of xs n] assms pos l by auto
qed

text \<open>
  The defect: a line that ends exactly at the end of the array, with more to come. It is handed
  out, and the next call throws although every line is shorter than the array.
\<close>

theorem StringLines_boundary_throws:
  assumes "x \<noteq> []" "d \<notin> set x" and "length x + 1 = length a" and "r \<noteq> []"
  shows "\<exists>l. StringLines a d k (x @ d # r) = Inr l \<and>
    getLines StringLines_getInputPosition StringLines_refillBuffer (Suc (Suc n)) l =
      Inl (Runtime_Error '': The buffer is too small.'')"
proof -
  obtain l where l: "StringLines a d k (x @ d # r) = Inr l" "lines_inv l" "unread l = x @ d # r"
    "length (ln_buffer l) = length a" "ln_delimiter l = d" "ln_keepDelimiter l = k"
    "ln_index l = -1" "ln_processed l = 0"
    by (rule StringLines_constructed)
  have u: "unread l = x @ ln_delimiter l # r" and nd: "ln_delimiter l \<notin> set x"
    using l assms(2) by simp_all
  have "ln_position l < ln_inputSize l"
  proof (rule ccontr)
    assume "\<not> ?thesis"
    then have "length (unread l) \<le> length a"
      using l(2,4) by (auto simp: unread_def lines_inv_def bounds_ok_def)
    then show False using l(3) assms(3,4) by (cases r) simp_all
  qed
  then have full: "ln_sizeInUse l = length a" "ln_position l < ln_inputSize l"
    using l(2,4) by (auto simp: lines_inv_def)
  have less: "ln_processed l + length x < ln_sizeInUse l" using full l(8) assms(3) by simp
  obtain l' where l': "takeLine StringLines_getInputPosition l (scan l) =
      (l', Some (x @ (if ln_keepDelimiter l then [ln_delimiter l] else [])))" "lines_inv l'"
    "length (ln_buffer l') = length (ln_buffer l)"
    "ln_position l' = ln_position l" "ln_inputSize l' = ln_inputSize l"
    "ln_processed l' = ln_processed l + length x + 1"
    by (rule string_source.takeLine_line [OF l(2) u nd assms(1) less])
  have "at_boundary l'" using l' full l(4,8) assms(3) by (simp add: at_boundary_def)
  note throws = string_source.getLine_at_boundary [OF l'(2) this]
  show ?thesis
    using l(1) string_source.getLine_in_buffer [OF l(2) u nd assms(1) less] l'(1) throws by simp
qed

subsection \<open>Lines2: lines split in advance\<close>

text \<open>
  \<open>StringLines2\<close> and \<open>FileLines2\<close> split the whole source when they are constructed; the
  lines wait in the deque \<open>_lines\<close>, which is static: it belongs to the thread, not to the
  reader. A state is the deque and the index of the reader. \<open>FileLines2\<close> reads the file
  first; a failure (\<open>None\<close>) is logged and leaves the deque as it was.
\<close>

type_synonym lines2 = "string list \<times> int"

definition StringLines2 :: "string list \<Rightarrow> char \<Rightarrow> bool \<Rightarrow> string \<Rightarrow> lines2" where
  "StringLines2 deque delimiter keepDelimiter source =
     (splitReversedOrder source deque delimiter (of_bool keepDelimiter), -1)"

definition FileLines2 :: "string list \<Rightarrow> char \<Rightarrow> bool \<Rightarrow> string option \<Rightarrow> lines2" where
  "FileLines2 deque delimiter keepDelimiter file =
     (case file of
        None \<Rightarrow> (deque, -1)
      | Some source \<Rightarrow> (splitReversedOrder source deque delimiter (of_bool keepDelimiter), -1))"

definition Lines2_getLine :: "lines2 \<Rightarrow> lines2 \<times> string option" where
  "Lines2_getLine l =
     (case l of (deque, index) \<Rightarrow>
        if deque = [] then (l, None)
        else ((butlast deque, index + 1), Some (last deque)))"

fun Lines2_getLines :: "nat \<Rightarrow> lines2 \<Rightarrow> lines2 \<times> string list" where
  "Lines2_getLines 0 l = (l, [])"
| "Lines2_getLines (Suc n) l =
     (case Lines2_getLine l of
        (l, None) \<Rightarrow> (l, [])
      | (l, Some line) \<Rightarrow> (case Lines2_getLines n l of (l, ls) \<Rightarrow> (l, line # ls)))"

lemma Lines2_getLines_rev:
  "length xs \<le> n \<Longrightarrow> Lines2_getLines n (rev xs, i) = (([], i + int (length xs)), xs)"
proof (induction xs arbitrary: n i)
  case Nil
  then show ?case by (cases n) (simp_all add: Lines2_getLine_def)
next
  case (Cons x xs)
  then obtain m where "n = Suc m" "length xs \<le> m" by (cases n) auto
  then show ?case using Cons.IH [of m "i + 1"] by (simp add: Lines2_getLine_def)
qed

text \<open>
  A reader hands out the lines an earlier reader of the thread left, then its own, in order,
  including blank lines and a last line without a delimiter.
\<close>

theorem StringLines2_reads:
  assumes "length left + length (rows_of d k s) \<le> n"
  shows "Lines2_getLines n (StringLines2 (rev left) d k s) =
    (([], int (length left + length (rows_of d k s)) - 1), left @ rows_of d k s)"
  using Lines2_getLines_rev [of "left @ rows_of d k s" n "-1"] assms
  by (simp add: StringLines2_def splitReversedOrder_rows)

subsection \<open>Witnesses\<close>

lemma StringLines_reads_lines_witness:
  "\<exists>l l'. StringLines (replicate 8 nul) CHR '';'' True (concat (map (\<lambda>x. x @ '';'') [''ab'', ''c''])) = Inr l \<and>
    getLines StringLines_getInputPosition StringLines_refillBuffer 3 l = Inr (l', [''ab;'', ''c;''])"
  using StringLines_reads_lines [of "[''ab'', ''c'']" "CHR '';''" "replicate 8 nul" 3 True] by simp

lemma StringLines_boundary_throws_witness:
  "\<exists>l. StringLines (replicate 3 nul) CHR '';'' False (''ab'' @ CHR '';'' # ''c;'') = Inr l \<and>
    getLines StringLines_getInputPosition StringLines_refillBuffer (Suc (Suc 0)) l =
      Inl (Runtime_Error '': The buffer is too small.'')"
  by (rule StringLines_boundary_throws) simp_all

lemma StringLines2_reads_witness:
  "Lines2_getLines 5 (StringLines2 (rev [''left'']) CHR '';'' True ''ab;;c'') =
    (([], 3), [''left''] @ rows_of CHR '';'' True ''ab;;c'')"
proof -
  have "length (rows_of CHR '';'' True ''ab;;c'') = 3" by code_simp
  then show ?thesis using StringLines2_reads [of "[''left'']" "CHR '';''" True "''ab;;c''" 5] by simp
qed

end
