(* ===== verification/Doubles.thy ===== *)
theory Doubles
  imports Complex_Main Char_Conv
begin

section \<open>Money as double (fromChars and toChars at double, lround)\<close>

text \<open>
  Bids are read as decimal text into a \<open>double\<close>, multiplied by \<open>Ad::_scaler\<close> and rounded to
  cents; a price is printed by dividing the cents by the scaler and writing the \<open>double\<close>
  with one digit after the point. A \<open>double\<close> is here a sign, a mantissa and a binary exponent,
  an infinity or no number; every operation computes the exact result as a fraction and rounds
  it to 53 bits, half to even, with the least exponent of the format and its overflow.
  The lemmas bound the rounding error and show that text with at most two decimals gives the
  exact number of cents.
\<close>

datatype double = Fin bool nat int | Infinite bool | Not_A_Number

subsection \<open>Rounding\<close>

fun bits :: "nat \<Rightarrow> nat" where
  "bits n = (if n = 0 then 0 else Suc (bits (n div 2)))"

declare bits.simps [simp del]

definition half_even :: "nat \<Rightarrow> nat \<Rightarrow> nat" where
  "half_even a b =
     (let q = a div b; r = a mod b
      in if 2 * r < b \<or> (2 * r = b \<and> even q) then q else q + 1)"

text \<open>The fraction \<open>a / b\<close> in units of \<open>2 ^ e\<close>: numerator and denominator.\<close>

definition scale_num :: "nat \<Rightarrow> int \<Rightarrow> nat" where
  "scale_num a e = a * 2 ^ nat (- e)"

definition scale_den :: "nat \<Rightarrow> int \<Rightarrow> nat" where
  "scale_den b e = b * 2 ^ nat e"

definition exponent_of :: "nat \<Rightarrow> nat \<Rightarrow> int" where
  "exponent_of a b =
     (let e = int (bits a) - int (bits b) - 53
      in if 2 ^ 53 * scale_den b e \<le> scale_num a e then e + 1 else e)"

definition round_double :: "bool \<Rightarrow> nat \<Rightarrow> nat \<Rightarrow> double" where
  "round_double neg a b =
     (if a = 0 then Fin neg 0 0
      else
        let e = max (exponent_of a b) (- 1074);
            m = half_even (scale_num a e) (scale_den b e)
        in if 971 < e \<or> (e = 971 \<and> m = 2 ^ 53) then Infinite neg else Fin neg m e)"

subsection \<open>Operations\<close>

text \<open>\<open>x * 100.\<close> and \<open>n / 100.\<close> for a \<open>long\<close> \<open>n\<close>, which is converted first.\<close>

definition scaler :: nat where
  "scaler = 100"

fun times_scaler :: "double \<Rightarrow> double" where
  "times_scaler (Fin s m e) = round_double s (m * scaler * 2 ^ nat e) (2 ^ nat (- e))"
| "times_scaler (Infinite s) = Infinite s"
| "times_scaler Not_A_Number = Not_A_Number"

fun div_scaler :: "double \<Rightarrow> double" where
  "div_scaler (Fin s m e) = round_double s (m * 2 ^ nat e) (scaler * 2 ^ nat (- e))"
| "div_scaler (Infinite s) = Infinite s"
| "div_scaler Not_A_Number = Not_A_Number"

definition double_of_long :: "int \<Rightarrow> double" where
  "double_of_long i = round_double (i < 0) (nat \<bar>i\<bar>) 1"

text \<open>
  \<open>std::lround\<close>: halves away from zero; a result that does not fit \<open>long\<close> is not specified.
\<close>

fun lround :: "double \<Rightarrow> int result" where
  "lround (Fin s m e) =
     (let p = m * 2 ^ nat e; q = 2 ^ nat (- e); r = int ((2 * p + q) div (2 * q));
          i = (if s then - r else r)
      in if - (2 ^ 63) \<le> i \<and> i < 2 ^ 63 then Inr i else Inl Undefined_Behaviour)"
| "lround (Infinite s) = Inl Undefined_Behaviour"
| "lround Not_A_Number = Inl Undefined_Behaviour"

text \<open>
  \<open>std::from_chars\<close> at \<open>double\<close>: an optional minus, digits with an optional point, an optional
  exponent; or an infinity or a NaN in any case of letters. What follows is ignored by the
  callers. A value that overflows, or a nonzero one that becomes zero, is out of range.
\<close>

definition to_lower :: "char \<Rightarrow> char" where
  "to_lower c = (if 65 \<le> (of_char c :: nat) \<and> (of_char c :: nat) \<le> 90
     then char_of ((of_char c :: nat) + 32) else c)"

definition decimal_exponent :: "string \<Rightarrow> int" where
  "decimal_exponent s =
     (case s of
        [] \<Rightarrow> 0
      | c # t \<Rightarrow>
          if to_lower c \<noteq> CHR ''e'' then 0
          else
            let neg = starts_with t ''-'';
                u = (if neg \<or> starts_with t ''+'' then tl t else t);
                v = int (digits_value (takeWhile isdigit u))
            in if neg then - v else v)"

definition double_in_range :: "nat \<Rightarrow> double \<Rightarrow> errc + double" where
  "double_in_range num d =
     (case d of
        Fin s m e \<Rightarrow> if num \<noteq> 0 \<and> m = 0 then Inl Result_Out_Of_Range else Inr d
      | _ \<Rightarrow> Inl Result_Out_Of_Range)"

definition from_chars_double :: "string \<Rightarrow> errc + double" where
  "from_chars_double s =
     (let neg = starts_with s ''-'';
          t = (if neg then tl s else s);
          ip = takeWhile isdigit t;
          t1 = dropWhile isdigit t;
          point = starts_with t1 ''.'';
          fp = (if point then takeWhile isdigit (tl t1) else []);
          t2 = (if point then dropWhile isdigit (tl t1) else t1)
      in if ip @ fp = [] then
           (if map to_lower (take 3 t) = ''inf'' then Inr (Infinite neg)
            else if map to_lower (take 3 t) = ''nan'' then Inr Not_A_Number
            else Inl Invalid_Argument)
         else
           let num = digits_value (ip @ fp);
               x = decimal_exponent t2 - int (length fp)
           in double_in_range num (round_double neg (num * 10 ^ nat x) (10 ^ nat (- x))))"

definition fromChars_double :: "string \<Rightarrow> double result" where
  "fromChars_double str =
     (case from_chars_double str of
        Inl ec \<Rightarrow> Inl (Conversion_Error ec)
      | Inr d \<Rightarrow> Inr d)"

text \<open>
  \<open>toChars\<close> with precision 1, as \<open>operator<<\<close> calls it: the exact value is rounded to one
  decimal, half to even. \<open>CONV_BUFFER_SIZE\<close> bytes are made available behind the text; if
  the number needs more, the text keeps them, zeroed, and the conversion throws.
\<close>

fun fixed1 :: "double \<Rightarrow> string" where
  "fixed1 (Fin s m e) =
     (let t = half_even (10 * m * 2 ^ nat e) (2 ^ nat (- e))
      in (if s then ''-'' else []) @ to_digits (t div 10) @ ''.'' @ [digit_char (t mod 10)])"
| "fixed1 (Infinite s) = (if s then ''-inf'' else ''inf'')"
| "fixed1 Not_A_Number = ''nan''"

definition toChars :: "double \<Rightarrow> string \<Rightarrow> string result" where
  "toChars d target =
     (if length (fixed1 d) \<le> CONV_BUFFER_SIZE then Inr (target @ fixed1 d)
      else Inl (Conversion_Error Value_Too_Large))"

text \<open>The two composed conversions of \<open>Ad\<close> and \<open>Transaction\<close>.\<close>

definition read_money :: "string \<Rightarrow> int result" where
  "read_money s = bindE (fromChars_double s) (\<lambda>d. lround (times_scaler d))"

definition show_money :: "int \<Rightarrow> string" where
  "show_money money = fixed1 (div_scaler (double_of_long money))"

subsection \<open>The rounding error\<close>

lemma bits_bounds: "0 < n \<Longrightarrow> 0 < bits n \<and> 2 ^ (bits n - 1) \<le> n \<and> n < 2 ^ bits n"
proof (induction n rule: bits.induct)
  case (1 n)
  show ?case
  proof (cases "n = 1")
    case True
    then show ?thesis by (simp add: bits.simps)
  next
    case False
    then have IH: "0 < bits (n div 2)" "2 ^ (bits (n div 2) - 1) \<le> n div 2"
      "n div 2 < 2 ^ bits (n div 2)" using 1 by auto
    have "(2::nat) ^ bits (n div 2) = 2 * 2 ^ (bits (n div 2) - 1)"
      using IH(1) by (cases "bits (n div 2)") auto
    then have "2 ^ bits (n div 2) \<le> n" using IH(2) by linarith
    moreover have "n < 2 ^ Suc (bits (n div 2))" using IH(3) by simp
    ultimately show ?thesis using "1.prems" by (subst (1 2 3) bits.simps) simp
  qed
qed

lemma half_even_error:
  assumes "0 < b"
  shows "\<bar>real (half_even a b) - real a / real b\<bar> \<le> 1 / 2"
proof -
  define q r where "q = a div b" and "r = a mod b"
  have a: "a = q * b + r" and r: "r < b" using assms by (simp_all add: q_def r_def)
  have x: "real a / real b = real q + real r / real b"
    using assms by (simp add: a field_simps)
  have half: "half_even a b = (if 2 * r < b \<or> (2 * r = b \<and> even q) then q else q + 1)"
    by (simp add: half_even_def q_def r_def Let_def)
  show ?thesis
  proof (cases "2 * r < b \<or> (2 * r = b \<and> even q)")
    case True
    then have "real (2 * r) \<le> real b" by (simp only: of_nat_le_iff) linarith
    then have "real r / real b \<le> 1 / 2" using assms by (simp add: field_simps)
    then show ?thesis using half True x by simp
  next
    case False
    then have "b \<le> 2 * r" by linarith
    then have "1 / 2 \<le> real r / real b" using assms by (simp add: field_simps)
    moreover have "real r / real b \<le> 1" using r assms by simp
    ultimately show ?thesis using half False x by simp
  qed
qed

lemma half_even_exact: "0 < b \<Longrightarrow> half_even (k * b) b = k"
  by (simp add: half_even_def)

lemma powi_split: "(2::real) powi e = 2 ^ nat e / 2 ^ nat (- e)"
  by (simp add: power_int_def field_simps)

lemma scale_ratio:
  "0 < b \<Longrightarrow> real (scale_num a e) / real (scale_den b e) = real a / real b * 2 powi (- e)"
  by (simp add: scale_num_def scale_den_def powi_split)

lemma scale_den_pos: "0 < b \<Longrightarrow> 0 < scale_den b e"
  by (simp add: scale_den_def)

lemma exponent_of_bounds:
  assumes "0 < a" and "0 < b"
  shows "2 powi (exponent_of a b + 52) \<le> real a / real b"
    and "real a / real b < 2 powi (exponent_of a b + 53)"
proof -
  define e where "e = int (bits a) - int (bits b) - 53"
  note A = bits_bounds [OF assms(1)] and B = bits_bounds [OF assms(2)]
  have la: "2 powi (int (bits a) - 1) \<le> real a" "real a < 2 powi (int (bits a))"
  proof -
    have "int (bits a) - 1 = int (bits a - 1)" using A by linarith
    then have "(2::real) powi (int (bits a) - 1) = 2 ^ (bits a - 1)" by (simp only: power_int_of_nat)
    also have "\<dots> \<le> real a" using A by (metis of_nat_le_iff of_nat_numeral of_nat_power)
    finally show "2 powi (int (bits a) - 1) \<le> real a" .
    show "real a < 2 powi (int (bits a))"
      using A by (metis of_nat_less_iff of_nat_numeral of_nat_power power_int_of_nat)
  qed
  have lb: "2 powi (int (bits b) - 1) \<le> real b" "real b < 2 powi (int (bits b))"
  proof -
    have "int (bits b) - 1 = int (bits b - 1)" using B by linarith
    then have "(2::real) powi (int (bits b) - 1) = 2 ^ (bits b - 1)" by (simp only: power_int_of_nat)
    also have "\<dots> \<le> real b" using B by (metis of_nat_le_iff of_nat_numeral of_nat_power)
    finally show "2 powi (int (bits b) - 1) \<le> real b" .
    show "real b < 2 powi (int (bits b))"
      using B by (metis of_nat_less_iff of_nat_numeral of_nat_power power_int_of_nat)
  qed
  have low: "2 powi (e + 52) \<le> real a / real b"
  proof -
    have "e + 52 = int (bits a) - 1 - int (bits b)" by (simp add: e_def)
    then have "(2::real) powi (e + 52) = 2 powi (int (bits a) - 1 - int (bits b))" by (simp only:)
    also have "\<dots> = 2 powi (int (bits a) - 1) / 2 powi (int (bits b))"
      by (subst power_int_diff) simp_all
    also have "\<dots> \<le> real a / real b"
      using la lb assms by (intro frac_le) auto
    finally show ?thesis .
  qed
  have high: "real a / real b < 2 powi (e + 54)"
  proof -
    have "real a / real b < 2 powi (int (bits a)) / 2 powi (int (bits b) - 1)"
      using la lb assms by (intro frac_less) auto
    also have "\<dots> = 2 powi (int (bits a) - (int (bits b) - 1))"
      by (subst power_int_diff) simp_all
    also have "int (bits a) - (int (bits b) - 1) = e + 54" by (simp add: e_def)
    finally show ?thesis .
  qed
  have ratio: "real a / real b = real (scale_num a e) / real (scale_den b e) * 2 powi e"
    using scale_ratio [OF assms(2)] by (simp add: power_int_minus)
  have den: "0 < real (scale_den b e)" using scale_den_pos [OF assms(2)] by simp
  have "2 powi (exponent_of a b + 52) \<le> real a / real b
    \<and> real a / real b < 2 powi (exponent_of a b + 53)"
  proof (cases "2 ^ 53 * scale_den b e \<le> scale_num a e")
    case True
    then have "real (2 ^ 53 * scale_den b e) \<le> real (scale_num a e)" by (simp only: of_nat_le_iff)
    then have "2 ^ 53 \<le> real (scale_num a e) / real (scale_den b e)"
      using den by (simp add: field_simps)
    then have "2 ^ 53 * 2 powi e \<le> real a / real b" unfolding ratio by (intro mult_right_mono) auto
    then have "2 powi (e + 53) \<le> real a / real b" by (simp add: power_int_add)
    then show ?thesis
      using True high by (simp add: exponent_of_def e_def [symmetric] Let_def add.assoc)
  next
    case False
    then have "real (scale_num a e) < real (2 ^ 53 * scale_den b e)" by (simp only: of_nat_less_iff not_le)
    then have "real (scale_num a e) / real (scale_den b e) < 2 ^ 53"
      using den by (simp add: field_simps)
    then have "real a / real b < 2 ^ 53 * 2 powi e" unfolding ratio by (intro mult_strict_right_mono) auto
    then have "real a / real b < 2 powi (e + 53)" by (simp add: power_int_add)
    then show ?thesis
      using False low by (simp add: exponent_of_def e_def [symmetric] Let_def)
  qed
  then show "2 powi (exponent_of a b + 52) \<le> real a / real b"
    and "real a / real b < 2 powi (exponent_of a b + 53)" by simp_all
qed

text \<open>In the normal range a rounding is off by at most one part in \<open>2 ^ 53\<close>.\<close>

lemma round_double_error:
  assumes "0 < a" and "0 < b" and "2 powi (- 1000) \<le> real a / real b"
    and "real a / real b \<le> 2 powi 1000"
  obtains m e where "round_double s a b = Fin s m e"
    and "\<bar>real m * 2 powi e - real a / real b\<bar> \<le> real a / real b * 2 powi (- 53)"
proof -
  let ?x = "real a / real b" and ?e = "exponent_of a b"
  note bounds = exponent_of_bounds [OF assms(1,2)]
  have "(2::real) powi (- 1000) < 2 powi (?e + 53)" using assms(3) bounds(2) by linarith
  then have "\<not> ?e + 53 \<le> - 1000" using power_int_increasing [of "?e + 53" "- 1000" "2::real"] by auto
  then have lo: "- 1074 < ?e" by simp
  have "(2::real) powi (?e + 52) \<le> 2 powi 1000" using assms(4) bounds(1) by linarith
  then have "\<not> 1000 < ?e + 52" using power_int_strict_increasing [of 1000 "?e + 52" "2::real"] by auto
  then have hi: "?e < 971" by simp
  define m where "m = half_even (scale_num a ?e) (scale_den b ?e)"
  have run: "round_double s a b = Fin s m ?e"
    using assms(1) lo hi by (simp add: round_double_def Let_def m_def)
  have "\<bar>real m - ?x * 2 powi (- ?e)\<bar> \<le> 1 / 2"
    using half_even_error [OF scale_den_pos [OF assms(2)], of "scale_num a ?e" ?e]
    unfolding m_def [symmetric] scale_ratio [OF assms(2)] .
  then have le: "\<bar>real m - ?x * 2 powi (- ?e)\<bar> * 2 powi ?e \<le> 1 / 2 * 2 powi ?e"
    by (intro mult_right_mono) auto
  have eq: "real m * 2 powi ?e - ?x = (real m - ?x * 2 powi (- ?e)) * 2 powi ?e"
    by (simp add: left_diff_distrib power_int_minus)
  have err: "\<bar>real m * 2 powi ?e - ?x\<bar> \<le> 1 / 2 * 2 powi ?e"
    unfolding eq abs_mult using le by simp
  have "1 / 2 * (2::real) powi ?e = 2 powi (?e + 52) * 2 powi (- 53)"
    by (simp add: power_int_add power_int_minus)
  also have "\<dots> \<le> ?x * 2 powi (- 53)" using bounds(1) by (intro mult_right_mono) auto
  finally show thesis using that [OF run] err by linarith
qed

subsection \<open>Exact cents\<close>

lemma lround_near:
  assumes "\<bar>real m * 2 powi e - real n\<bar> < 1 / 2" and "n < 2 ^ 63"
  shows "lround (Fin False m e) = Inr (int n)"
proof -
  define p q :: nat where "p = m * 2 ^ nat e" and "q = 2 ^ nat (- e)"
  have q: "0 < q" by (simp add: q_def)
  have "real m * 2 powi e = real p / real q" by (simp add: p_def q_def powi_split)
  then have near: "real n - 1 / 2 < real p / real q" "real p / real q < real n + 1 / 2"
    using assms(1) by (simp_all only: abs_less_iff) linarith+
  have "(real n - 1 / 2) * real q < real p" using near(1) q by (simp add: pos_less_divide_eq)
  then have "2 * real n * real q < 2 * real p + real q" by (simp add: left_diff_distrib)
  then have "real (2 * n * q) < real (2 * p + q)" by simp
  then have lo: "2 * n * q < 2 * p + q" by (simp only: of_nat_less_iff)
  have "real p < (real n + 1 / 2) * real q" using near(2) q by (simp add: pos_divide_less_eq)
  then have "2 * real p + real q < 2 * (real n + 1) * real q" by (simp add: algebra_simps)
  then have "real (2 * p + q) < real (2 * (n + 1) * q)" by (simp add: algebra_simps)
  then have hi: "2 * p + q < 2 * (n + 1) * q" by (simp only: of_nat_less_iff)
  have "(2 * p + q) div (2 * q) = n"
    by (rule div_nat_eqI) (use lo hi in \<open>simp_all add: algebra_simps\<close>)
  then show ?thesis using assms(2) by (simp add: p_def q_def Let_def)
qed

text \<open>A number \<open>a / b\<close> of units that is a whole number of cents gives these cents.\<close>

lemma lround_times_scaler:
  assumes "0 < b" and "scaler * a = n * b" and "n < 2 ^ 49"
  shows "\<exists>m e. round_double False a b = Fin False m e \<and>
    (a \<noteq> 0 \<longrightarrow> m \<noteq> 0) \<and> lround (times_scaler (Fin False m e)) = Inr (int n)"
proof (cases "a = 0")
  case True
  then have "n = 0" using assms by simp
  moreover have "round_double False a b = Fin False 0 0" using True by (simp add: round_double_def)
  moreover have "lround (times_scaler (Fin False 0 0)) = Inr 0" by (simp add: round_double_def)
  ultimately show ?thesis using True by simp
next
  case False
  let ?x = "real a / real b"
  define u where "u = (2::real) powi (- 53)"
  have u: "u = 1 / 2 ^ 53" by (simp add: u_def power_int_def power_divide)
  have "real (scaler * a) = real (n * b)" using assms(2) by simp
  then have x: "?x = real n / 100" using assms(1) by (simp add: scaler_def field_simps)
  have n: "1 \<le> n" using False assms(2) by (cases n) (auto simp: scaler_def)
  have n': "1 \<le> real n" "real n < 2 ^ 49"
    using n assms(3) by (simp, metis of_nat_less_iff of_nat_numeral of_nat_power)
  have small: "(2::real) powi (- 1000) \<le> 1 / 128" and large: "(2::real) ^ 60 \<le> 2 powi 1000"
    using power_decreasing [of 7 1000 "1 / 2 :: real"] power_increasing [of 60 1000 "2 :: real"]
    by (simp_all add: power_int_def power_divide)
  have "real n / 100 \<le> 2 ^ 60" using n' by simp
  then have range: "2 powi (- 1000) \<le> ?x" "?x \<le> 2 powi 1000"
    unfolding x using small large n' by linarith+
  obtain m e where me: "round_double False a b = Fin False m e"
    "\<bar>real m * 2 powi e - ?x\<bar> \<le> ?x * u"
    using round_double_error [OF _ assms(1) range] False unfolding u_def by blast
  let ?v = "real m * 2 powi e"
  have v: "real n / 100 * (1 - u) \<le> ?v" "?v \<le> real n / 100 * (1 + u)"
    using me(2) unfolding x abs_le_iff by (simp_all add: algebra_simps)
  have "0 < real n / 100 * (1 - u)" using n' u by simp
  then have pos: "0 < ?v" using v(1) by linarith
  then have m: "0 < m" by (cases m) auto
  let ?p = "m * scaler * 2 ^ nat e" and ?q = "2 ^ nat (- e) :: nat"
  have y: "real ?p / real ?q = 100 * ?v" by (simp add: scaler_def powi_split)
  have range2: "2 powi (- 1000) \<le> real ?p / real ?q" "real ?p / real ?q \<le> 2 powi 1000"
  proof -
    have b: "real n * (1 - u) \<le> 100 * ?v" "100 * ?v \<le> real n * (1 + u)" using v by simp_all
    have "1 * (1 / 2) \<le> real n * (1 - u)" using n' unfolding u by (intro mult_mono) auto
    then show "2 powi (- 1000) \<le> real ?p / real ?q" unfolding y using b(1) small by simp
    have "(2::real) ^ 49 * 2 \<le> 2 ^ 60" by simp
    moreover have "real n * (1 + u) \<le> 2 ^ 49 * 2" using n' u by (intro mult_mono) auto
    ultimately show "real ?p / real ?q \<le> 2 powi 1000" unfolding y using b(2) large by linarith
  qed
  have pq: "0 < ?p" "0 < ?q" using m by (simp_all add: scaler_def)
  obtain m2 e2 where me2: "round_double False ?p ?q = Fin False m2 e2"
    "\<bar>real m2 * 2 powi e2 - 100 * ?v\<bar> \<le> 100 * ?v * u"
    using round_double_error [OF pq range2, of False] unfolding y u_def by blast
  have "\<bar>100 * ?v - real n\<bar> \<le> real n * u" using v unfolding abs_le_iff by (simp add: algebra_simps)
  moreover have u0: "0 \<le> u" by (simp add: u)
  then have "100 * ?v * u \<le> real n * (1 + u) * u" using v(2) by (intro mult_right_mono) auto
  ultimately have "\<bar>real m2 * 2 powi e2 - real n\<bar> \<le> real n * u + real n * (1 + u) * u"
    using me2(2) by linarith
  also have "\<dots> = real n * (2 * u + u * u)" by (simp add: algebra_simps)
  also have "\<dots> \<le> 2 ^ 49 * (2 * u + u * u)" using n' u0 by (intro mult_right_mono) auto
  also have "\<dots> < 1 / 2" unfolding u by simp
  finally have "lround (Fin False m2 e2) = Inr (int n)"
    using assms(3) by (intro lround_near) simp_all
  then show ?thesis using me(1) me2(1) m by auto
qed

lemma digits_value_append:
  "digits_value (xs @ ys) = digits_value xs * 10 ^ length ys + digits_value ys"
proof (induction ys rule: rev_induct)
  case (snoc y ys)
  then show ?case by (simp add: digits_value_snoc algebra_simps flip: append_assoc)
qed (simp add: digits_value_def)

lemma from_chars_double_decimal:
  assumes "\<forall>c \<in> set (ip @ fp). isdigit c" and "ip \<noteq> []"
    and "rest = [] \<or> \<not> isdigit (hd rest) \<and> to_lower (hd rest) \<noteq> CHR ''e''"
  shows "from_chars_double (ip @ ''.'' @ fp @ rest) =
    double_in_range (digits_value (ip @ fp))
      (round_double False (digits_value (ip @ fp)) (10 ^ length fp))"
proof -
  have tw: "takeWhile isdigit (ip @ ''.'' @ fp @ rest) = ip"
    "dropWhile isdigit (ip @ ''.'' @ fp @ rest) = ''.'' @ fp @ rest"
    using takeWhile_digits [of ip "''.'' @ fp @ rest"] assms(1) by (auto simp: isdigit_def)
  have tw': "takeWhile isdigit (fp @ rest) = fp" "dropWhile isdigit (fp @ rest) = rest"
    using takeWhile_digits [of fp rest] assms(1,3) by auto
  have nm: "\<not> starts_with (ip @ ''.'' @ fp @ rest) ''-''"
    using assms(1,2) by (cases ip) (auto simp: isdigit_def)
  have dec: "decimal_exponent rest = 0" using assms(3) by (cases rest) (auto simp: decimal_exponent_def)
  show ?thesis
    unfolding from_chars_double_def
    using nm tw tw' dec assms(2) by (simp add: Let_def)
qed

lemma read_cents:
  assumes "\<forall>c \<in> set (ip @ fp). isdigit c" and "ip \<noteq> []" and "length fp \<le> 2"
    and "rest = [] \<or> \<not> isdigit (hd rest) \<and> to_lower (hd rest) \<noteq> CHR ''e''"
    and "n = digits_value (ip @ fp) * 10 ^ (2 - length fp)" and "n < 2 ^ 49"
  shows "read_money (ip @ ''.'' @ fp @ rest) = Inr (int n)"
proof -
  let ?a = "digits_value (ip @ fp)" and ?b = "10 ^ length fp :: nat"
  have "10 ^ (2 - length fp) * ?b = (10::nat) ^ 2"
    using assms(3) by (simp flip: power_add)
  then have "n * ?b = scaler * ?a" using assms(5) by (simp add: scaler_def)
  then obtain m e where "round_double False ?a ?b = Fin False m e" "?a \<noteq> 0 \<longrightarrow> m \<noteq> 0"
    "lround (times_scaler (Fin False m e)) = Inr (int n)"
    using lround_times_scaler [of ?b ?a n] assms(6) by auto
  then show ?thesis
    using from_chars_double_decimal [OF assms(1,2,4)]
    by (auto simp: read_money_def fromChars_double_def double_in_range_def simp del: times_scaler.simps)
qed

text \<open>
  C26: Text with one or two decimals and fewer than \<open>2 ^ 49\<close> cents is read as exactly these cents,
  although neither the number nor its product with 100 need be a \<open>double\<close>.
\<close>

theorem read_money_exact:
  assumes "\<forall>c \<in> set (ip @ fp). isdigit c" and "ip \<noteq> []" and "length fp \<le> 2"
    and "rest = [] \<or> \<not> isdigit (hd rest) \<and> to_lower (hd rest) \<noteq> CHR ''e''"
    and "n = digits_value (ip @ fp) * 10 ^ (2 - length fp)" and "n < 2 ^ 49"
  shows "read_money (ip @ ''.'' @ fp @ rest) = Inr (int n)"
  by (rule read_cents [OF assms])

subsection \<open>Printed prices\<close>

lemma half_even_near:
  assumes "0 < b" and "\<bar>real a / real b - real t\<bar> < 1 / 2"
  shows "half_even a b = t"
proof -
  have "\<bar>real (half_even a b) - real t\<bar> < 1"
    using half_even_error [OF assms(1), of a] assms(2) by linarith
  then show ?thesis by linarith
qed

text \<open>Two roundings: the quotient by the scaler is off by about two parts in \<open>2 ^ 53\<close>.\<close>

lemma div_scaler_near:
  assumes "0 < n" and "n < 2 ^ 49"
  obtains m e where "div_scaler (double_of_long (int n)) = Fin False m e"
    and "\<bar>real m * 2 powi e - real n / 100\<bar> \<le> real n / 100 * (1 / 2 ^ 51)"
proof -
  define u where "u = (2::real) powi (- 53)"
  have u: "u = 1 / 2 ^ 53" by (simp add: u_def power_int_def power_divide)
  have u0: "0 \<le> u" by (simp add: u)
  have n: "1 \<le> real n" "real n < 2 ^ 49"
    using assms by (simp, metis of_nat_less_iff of_nat_numeral of_nat_power)
  have small: "(2::real) powi (- 1000) \<le> 1 / 256" and large: "(2::real) ^ 60 \<le> 2 powi 1000"
    using power_decreasing [of 8 1000 "1 / 2 :: real"] power_increasing [of 60 1000 "2 :: real"]
    by (simp_all add: power_int_def power_divide)
  have x: "real n / real (1::nat) = real n" by simp
  have "real n \<le> 2 ^ 60" using n by simp
  then have r1: "2 powi (- 1000) \<le> real n / real (1::nat)"
    "real n / real (1::nat) \<le> 2 powi 1000" unfolding x using small large n by linarith+
  have pos1: "0 < n" "0 < (1::nat)" using assms by simp_all
  obtain m e where me: "round_double False n 1 = Fin False m e"
    "\<bar>real m * 2 powi e - real n\<bar> \<le> real n * u"
    using round_double_error [OF pos1 r1, of False] unfolding x u_def by blast
  let ?v = "real m * 2 powi e"
  have v: "real n * (1 - u) \<le> ?v" "?v \<le> real n * (1 + u)"
    using me(2) unfolding abs_le_iff by (simp_all add: algebra_simps)
  have half: "1 * (1 / 2) \<le> real n * (1 - u)" using n unfolding u by (intro mult_mono) auto
  then have pos: "0 < ?v" using v(1) by simp
  then have m: "0 < m" by (cases m) auto
  let ?p = "m * 2 ^ nat e" and ?q = "scaler * 2 ^ nat (- e) :: nat"
  have y: "real ?p / real ?q = ?v / 100" by (simp add: scaler_def powi_split)
  have "real n * (1 + u) \<le> 2 ^ 49 * 2" using n u by (intro mult_mono) auto
  moreover have "(2::real) ^ 49 * 2 \<le> 2 ^ 60" by simp
  ultimately have r2: "2 powi (- 1000) \<le> real ?p / real ?q" "real ?p / real ?q \<le> 2 powi 1000"
    unfolding y using v half small large by linarith+
  have pos2: "0 < ?p" "0 < ?q" using m by (simp_all add: scaler_def)
  obtain m2 e2 where me2: "round_double False ?p ?q = Fin False m2 e2"
    "\<bar>real m2 * 2 powi e2 - ?v / 100\<bar> \<le> ?v / 100 * u"
    using round_double_error [OF pos2 r2, of False] unfolding y u_def by blast
  have "\<bar>?v / 100 - real n / 100\<bar> \<le> real n / 100 * u"
    using v unfolding abs_le_iff by (simp add: algebra_simps)
  moreover have "?v / 100 * u \<le> real n * (1 + u) / 100 * u"
    using v(2) u0 by (intro mult_right_mono) auto
  ultimately have "\<bar>real m2 * 2 powi e2 - real n / 100\<bar> \<le> real n / 100 * u + real n * (1 + u) / 100 * u"
    using me2(2) by linarith
  also have "\<dots> = real n / 100 * (2 * u + u * u)" by (simp add: algebra_simps add_divide_distrib)
  also have "\<dots> \<le> real n / 100 * (1 / 2 ^ 51)"
    unfolding u by (intro mult_left_mono) auto
  finally show thesis
    using me(1) me2(1) by (intro that) (simp_all add: double_of_long_def)
qed

text \<open>
  A price that is a whole number of tenths is printed exactly; the other cents are rounded to
  the tenth by the binary value of the quotient.
\<close>

theorem show_money_tenths:
  assumes "t < 2 ^ 45"
  shows "show_money (10 * int t) = to_digits (t div 10) @ ''.'' @ [digit_char (t mod 10)]"
proof (cases "t = 0")
  case True
  then show ?thesis
    by (simp add: show_money_def double_of_long_def round_double_def half_even_def)
next
  case False
  then have n: "0 < 10 * t" "10 * t < 2 ^ 49" using assms by simp_all
  obtain m e where me: "div_scaler (double_of_long (int (10 * t))) = Fin False m e"
    "\<bar>real m * 2 powi e - real (10 * t) / 100\<bar> \<le> real (10 * t) / 100 * (1 / 2 ^ 51)"
    by (rule div_scaler_near [OF n])
  have t: "real t < 2 ^ 45" using assms by (metis of_nat_less_iff of_nat_numeral of_nat_power)
  have "\<bar>10 * (real m * 2 powi e) - real t\<bar> \<le> real t * (1 / 2 ^ 51)"
    using me(2) unfolding abs_le_iff by simp
  also have "\<dots> \<le> 2 ^ 45 * (1 / 2 ^ 51)" using t by (intro mult_right_mono) auto
  also have "\<dots> < 1 / 2" by simp
  finally have near: "\<bar>real (10 * m * 2 ^ nat e) / real (2 ^ nat (- e)::nat) - real t\<bar> < 1 / 2"
    by (simp add: powi_split mult.assoc)
  have "half_even (10 * m * 2 ^ nat e) (2 ^ nat (- e)) = t"
    by (rule half_even_near [OF _ near]) simp
  then show ?thesis using me(1) by (simp add: show_money_def Let_def)
qed

text \<open>The text of a price fits into the buffer that \<open>toChars\<close> makes available.\<close>

lemma toChars_price:
  assumes "n < 2 ^ 49"
  shows "toChars (div_scaler (double_of_long (int n))) s = Inr (s @ show_money (int n))"
proof (cases "n = 0")
  case True
  then show ?thesis
    by (simp add: toChars_def show_money_def double_of_long_def round_double_def half_even_def
        CONV_BUFFER_SIZE_def to_digits.simps)
next
  case False
  then have n: "0 < n" by simp
  obtain m e where me: "div_scaler (double_of_long (int n)) = Fin False m e"
    "\<bar>real m * 2 powi e - real n / 100\<bar> \<le> real n / 100 * (1 / 2 ^ 51)"
    by (rule div_scaler_near [OF n assms])
  let ?t = "half_even (10 * m * 2 ^ nat e) (2 ^ nat (- e))"
  have n': "real n < 2 ^ 49" using assms by (metis of_nat_less_iff of_nat_numeral of_nat_power)
  have "\<bar>real ?t - real (10 * m * 2 ^ nat e) / real (2 ^ nat (- e)::nat)\<bar> \<le> 1 / 2"
    by (rule half_even_error) simp
  then have "real ?t \<le> real (10 * m * 2 ^ nat e) / real (2 ^ nat (- e)::nat) + 1" by linarith
  also have "\<dots> = 10 * (real m * 2 powi e) + 1" by (simp add: powi_split mult.assoc)
  finally have "real ?t \<le> 10 * (real m * 2 powi e) + 1" .
  also have "\<dots> \<le> 10 * (real n / 100 + real n / 100) + 1"
    using me(2) unfolding abs_le_iff by simp
  also have "\<dots> < 2 ^ 49" using n' by simp
  finally have "?t < 2 ^ 49"
    by (metis of_nat_less_iff of_nat_numeral of_nat_power)
  then have "?t div 10 < 10 ^ 15" by simp
  then have "length (to_digits (?t div 10)) \<le> 15" by (rule length_to_digits [rotated]) simp
  then show ?thesis using me(1) by (simp add: toChars_def show_money_def Let_def CONV_BUFFER_SIZE_def)
qed

subsection \<open>Witnesses\<close>

lemma read_money_exact_witness: "read_money (''3'' @ ''.'' @ ''47'' @ [CHR 0x22]) = Inr 347"
proof -
  have "read_money (''3'' @ ''.'' @ ''47'' @ [CHR 0x22]) = Inr (int 347)"
    by (rule read_money_exact) (simp_all add: isdigit_def to_lower_def digits_value_def digit_value_def)
  then show ?thesis by simp
qed

lemma show_money_tenths_witness: "show_money (10 * int 37) = to_digits 3 @ ''.'' @ [digit_char 7]"
  using show_money_tenths [of 37] by simp

end
