(* ===== verification/Ads.thy ===== *)
theory Ads
  imports Line_Reader Doubles "HOL-Library.AList"
begin

section \<open>Ads (business/Ad, business/AdBid)\<close>

text \<open>
  The ads file is read once, before the server starts: every line is an ad with an identifier,
  a size, a default bid and an array of keywords with bids. Ads are objects behind shared
  pointers, grouped by size in a map; a bid points back to its ad. The objects are here the
  list \<open>objects\<close>, in the order of their creation, and a pointer is an index into it.
  The lemmas give the fields of a well-formed line and the invariant of the map.
\<close>

record AdBid =
  bid_ad :: nat
  bid_keyword :: string
  bid_money :: int

record Ad =
  ad_id :: string
  ad_sizeKey :: size_key
  ad_bids :: "AdBid list"
  ad_defaultBid :: int
  ad_input :: string
  ad_array :: string

record ads =
  objects :: "Ad list"
  mapBySize :: "(size_key \<times> nat list) list"

subsection \<open>Ad\<close>

text \<open>
  \<open>Ad::parseAttributes\<close>: \<open>None\<close> is the return value \<open>false\<close>. The conversions throw.
\<close>

definition INPUTNUMBERPARTS :: nat where
  "INPUTNUMBERPARTS = 2"

definition ADNUMBERFIELDS :: nat where
  "ADNUMBERFIELDS = 4"

definition parseAttributes :: "string \<Rightarrow> Ad option result" where
  "parseAttributes input =
     (let parts = split_seps input [] ''[]'' in
      if length parts \<noteq> INPUTNUMBERPARTS then Inr None
      else
        let adStrVect = split_seps (parts ! 0) [] '', '' in
        if length adStrVect \<noteq> ADNUMBERFIELDS then Inr None
        else
          bindE (fromCharsBoost 32 (adStrVect ! 1)) (\<lambda>keyWidth.
          bindE (fromCharsBoost 32 (adStrVect ! 2)) (\<lambda>keyHeight.
          bindE (read_money (adStrVect ! 3)) (\<lambda>defaultBid.
            Inr (Some \<lparr>ad_id = adStrVect ! 0, ad_sizeKey = (keyWidth, keyHeight), ad_bids = [],
                       ad_defaultBid = defaultBid, ad_input = input, ad_array = parts ! 1\<rparr>)))))"

text \<open>The constructor.\<close>

definition Ad_new :: "string \<Rightarrow> Ad result" where
  "Ad_new line =
     bindE (parseAttributes line) (\<lambda>ad.
       case ad of
         None \<Rightarrow> Inl (Runtime_Error (''Wrong entry format:'' @ line @ '', skipping...''))
       | Some ad \<Rightarrow> Inr ad)"

text \<open>
  \<open>Ad::parseArray\<close>: keywords and bids alternate, an odd last entry is left out, a bid that is
  zero is the default bid. The bids are sorted by keyword; the order of bids with the same
  keyword, which \<open>std::sort\<close> leaves open, is here the order of the file. \<open>self\<close> is the ad's
  own pointer.
\<close>

fun parse_bids :: "nat \<Rightarrow> int \<Rightarrow> string list \<Rightarrow> AdBid list result" where
  "parse_bids self defaultBid (keyword # amount # rest) =
     bindE (read_money amount) (\<lambda>money.
     bindE (parse_bids self defaultBid rest) (\<lambda>bids.
       Inr (\<lparr>bid_ad = self, bid_keyword = keyword,
             bid_money = (if money = 0 then defaultBid else money)\<rparr> # bids)))"
| "parse_bids self defaultBid _ = Inr []"

definition parseArray :: "nat \<Rightarrow> Ad \<Rightarrow> (Ad \<times> bool) result" where
  "parseArray self ad =
     bindE (parse_bids self (ad_defaultBid ad) (split_seps (ad_array ad) [] (CHR 0x22 # '', '')))
       (\<lambda>bids. Inr (ad\<lparr>ad_bids := sort_key bid_keyword (ad_bids ad @ bids)\<rparr>, True))"

definition getAdsBySize :: "ads \<Rightarrow> size_key \<Rightarrow> nat list" where
  "getAdsBySize st key = (case map_of (mapBySize st) key of None \<Rightarrow> [] | Some v \<Rightarrow> v)"

text \<open>\<open>weak_ptr::lock\<close> on the pointer of a bid.\<close>

definition lock :: "ads \<Rightarrow> nat \<Rightarrow> Ad option" where
  "lock st i = (if i < length (objects st) then Some (objects st ! i) else None)"

definition ads_empty :: ads where
  "ads_empty = \<lparr>objects = [], mapBySize = []\<rparr>"

definition ads_clear :: "ads \<Rightarrow> ads" where
  "ads_clear st = ads_empty"

subsection \<open>readAds\<close>

text \<open>\<open>_mapBySize.emplace(key, empty)\<close>, then \<open>push_back\<close> on the vector of the key.\<close>

definition add_ad :: "Ad \<Rightarrow> ads \<Rightarrow> ads" where
  "add_ad ad st =
     st\<lparr>objects := objects st @ [ad],
        mapBySize := AList.update (ad_sizeKey ad)
          (getAdsBySize st (ad_sizeKey ad) @ [length (objects st)]) (mapBySize st)\<rparr>"

text \<open>The body of the loop, with its handler: a \<open>std::runtime_error\<close> skips the line.\<close>

definition catches :: "exn \<Rightarrow> bool" where
  "catches e = (case e of Runtime_Error _ \<Rightarrow> True | Conversion_Error _ \<Rightarrow> True | _ \<Rightarrow> False)"

definition read_ad :: "string \<Rightarrow> ads \<Rightarrow> ads result" where
  "read_ad line st =
     (case bindE (Ad_new line) (parseArray (length (objects st))) of
        Inl e \<Rightarrow> if catches e then Inr st else Inl e
      | Inr (ad, ok) \<Rightarrow> Inr (if ok then add_ad ad st else st))"

fun read_lines :: "string list \<Rightarrow> ads \<Rightarrow> ads result" where
  "read_lines [] st = Inr st"
| "read_lines (line # lines) st = bindE (read_ad line st) (read_lines lines)"

text \<open>
  \<open>Ad::readAds\<close>: every line that comes out takes at least a character, so the number of
  characters bounds the loop.
\<close>

definition readAds :: "string \<Rightarrow> string \<Rightarrow> ads \<Rightarrow> ads result" where
  "readAds array contents st =
     (if mapBySize st \<noteq> [] then Inl Assertion_Failed
      else
        bindE (FileLines array (CHR 0x0A) False contents) (\<lambda>reader.
        bindE (getLines FileLines_getInputPosition FileLines_refillBuffer
                 (Suc (length contents)) reader) (\<lambda>(_, lines).
          read_lines lines st)))"

text \<open>\<open>Ad::print\<close> appends the ad and its bids to a text.\<close>

definition printBids :: "Ad \<Rightarrow> string \<Rightarrow> string" where
  "printBids ad output =
     fold (\<lambda>b out. out @ ''  '' @ bid_keyword b @ '' '' @ show_long (bid_money b) @ [CHR 0x0A])
       (ad_bids ad) output"

definition Ad_print :: "Ad \<Rightarrow> string \<Rightarrow> string" where
  "Ad_print ad output =
     printBids ad (output @ ''Ad'' @ ad_id ad @ '' size='' @ show_size_key (ad_sizeKey ad) @
       '' defaultBid='' @ show_long (ad_defaultBid ad) @ [CHR 0x0A, CHR '' ''] @ ad_input ad @
       [CHR 0x0A])"

subsection \<open>The map groups the ads by size\<close>

text \<open>
  What holds of the ads at any time: the map lists, for every size, exactly the ads of this
  size in the order of the file; the bids of an ad point to it and are sorted by keyword.
\<close>

definition ad_ok :: "nat \<Rightarrow> Ad \<Rightarrow> bool" where
  "ad_ok i ad \<longleftrightarrow> (\<forall>b \<in> set (ad_bids ad). bid_ad b = i) \<and> sorted (map bid_keyword (ad_bids ad))"

definition ads_inv :: "ads \<Rightarrow> bool" where
  "ads_inv st \<longleftrightarrow>
     (\<forall>i < length (objects st). ad_ok i (objects st ! i)) \<and>
     (\<forall>k. getAdsBySize st k = filter (\<lambda>i. ad_sizeKey (objects st ! i) = k) [0..<length (objects st)])"

lemma ads_inv_empty [simp]: "ads_inv ads_empty"
  by (simp add: ads_inv_def ads_empty_def getAdsBySize_def)

lemma getAdsBySize_add_ad:
  "getAdsBySize (add_ad ad st) k =
     (if k = ad_sizeKey ad then getAdsBySize st k @ [length (objects st)] else getAdsBySize st k)"
  by (simp add: getAdsBySize_def add_ad_def update_conv')

lemma filter_upt_cong:
  "(\<And>i. i < n \<Longrightarrow> P i \<longleftrightarrow> Q i) \<Longrightarrow> filter P [0..<n] = filter Q [0..<n]"
  by (rule filter_cong) simp_all

lemma ads_inv_add_ad:
  assumes inv: "ads_inv st" and ok: "ad_ok (length (objects st)) ad"
  shows "ads_inv (add_ad ad st)"
proof -
  have "getAdsBySize (add_ad ad st) k =
      filter (\<lambda>i. ad_sizeKey ((objects st @ [ad]) ! i) = k) [0..<length (objects st)]
      @ (if k = ad_sizeKey ad then [length (objects st)] else [])" for k
  proof -
    have "filter (\<lambda>i. ad_sizeKey ((objects st @ [ad]) ! i) = k) [0..<length (objects st)]
        = filter (\<lambda>i. ad_sizeKey (objects st ! i) = k) [0..<length (objects st)]"
      by (rule filter_upt_cong) (simp add: nth_append)
    then show ?thesis
      using inv by (simp add: getAdsBySize_add_ad ads_inv_def del: split_paired_All)
  qed
  moreover have "ad_ok i ((objects st @ [ad]) ! i)" if "i < Suc (length (objects st))" for i
    using that inv ok by (auto simp: nth_append ads_inv_def less_Suc_eq)
  ultimately show ?thesis
    unfolding ads_inv_def by (simp add: add_ad_def del: split_paired_All)
qed

lemma parse_bids_self:
  "parse_bids self d ws = Inr bids \<Longrightarrow> b \<in> set bids \<Longrightarrow> bid_ad b = self"
  by (induction self d ws arbitrary: bids rule: parse_bids.induct) (auto simp: bindE_Inr_iff)

lemma parseAttributes_fresh: "parseAttributes input = Inr (Some ad) \<Longrightarrow> ad_bids ad = []"
  by (auto simp: parseAttributes_def Let_def bindE_Inr_iff split: if_splits)

lemma Ad_new_parseArray_ok:
  assumes "bindE (Ad_new line) (parseArray self) = Inr (ad, ok)"
  shows "ad_ok self ad \<and> ok"
proof -
  obtain ad0 where ad0: "Ad_new line = Inr ad0" "parseArray self ad0 = Inr (ad, ok)"
    using assms by (auto simp: bindE_Inr_iff)
  have "ad_bids ad0 = []"
    using ad0(1) by (auto simp: Ad_new_def bindE_Inr_iff split: option.splits dest: parseAttributes_fresh)
  then obtain bids where
    "parse_bids self (ad_defaultBid ad0) (split_seps (ad_array ad0) [] (CHR 0x22 # '', '')) = Inr bids"
    "ad = ad0\<lparr>ad_bids := sort_key bid_keyword bids\<rparr>" "ok"
    using ad0(2) by (auto simp: parseArray_def bindE_Inr_iff)
  then show ?thesis by (auto simp: ad_ok_def dest: parse_bids_self)
qed

lemma read_ad_inv:
  assumes "ads_inv st" and "read_ad line st = Inr st'"
  shows "ads_inv st'"
proof (cases "bindE (Ad_new line) (parseArray (length (objects st)))")
  case (Inl e)
  then show ?thesis using assms by (auto simp: read_ad_def split: if_splits)
next
  case (Inr r)
  then obtain ad ok where r: "bindE (Ad_new line) (parseArray (length (objects st))) = Inr (ad, ok)"
    by (cases r) auto
  then have "st' = add_ad ad st" using assms(2) Ad_new_parseArray_ok [OF r] by (simp add: read_ad_def)
  then show ?thesis using ads_inv_add_ad [OF assms(1)] Ad_new_parseArray_ok [OF r] by simp
qed

lemma read_lines_inv: "ads_inv st \<Longrightarrow> read_lines ls st = Inr st' \<Longrightarrow> ads_inv st'"
  by (induction ls arbitrary: st) (auto simp: bindE_Inr_iff dest: read_ad_inv)

lemma readAds_keeps:
  assumes "readAds array contents ads_empty = Inr st"
  shows "ads_inv st"
  using assms read_lines_inv [OF ads_inv_empty]
  by (auto simp: readAds_def bindE_Inr_iff ads_empty_def split: if_splits)


subsection \<open>A line of the file and the ad it makes\<close>

text \<open>
  The text of an amount, of a bid and of a line, and what is read from them: the identifier,
  the size, the default bid in cents and, for every keyword, its bid or the default.
\<close>

type_synonym amount = "string \<times> string"

definition amount_text :: "amount \<Rightarrow> string" where
  "amount_text a = fst a @ ''.'' @ snd a"

definition cents :: "amount \<Rightarrow> nat" where
  "cents a = digits_value (fst a @ snd a) * 10 ^ (2 - length (snd a))"

definition amount_ok :: "amount \<Rightarrow> bool" where
  "amount_ok a \<longleftrightarrow> (\<forall>c \<in> set (fst a @ snd a). isdigit c) \<and> fst a \<noteq> [] \<and> length (snd a) \<le> 2 \<and>
     cents a < 2 ^ 49"

definition quote :: string where
  "quote = [CHR 0x22]"

fun bids_text :: "(string \<times> amount) list \<Rightarrow> string" where
  "bids_text [] = []"
| "bids_text [(kw, a)] = quote @ kw @ quote @ '', '' @ amount_text a"
| "bids_text ((kw, a) # bs) = quote @ kw @ quote @ '', '' @ amount_text a @ '', '' @ bids_text bs"

definition ad_text :: "string \<Rightarrow> nat \<Rightarrow> nat \<Rightarrow> amount \<Rightarrow> (string \<times> amount) list \<Rightarrow> string" where
  "ad_text i w h a bs = i @ '', '' @ to_digits w @ '', '' @ to_digits h @ '', '' @ amount_text a
     @ '', ['' @ bids_text bs @ '']''"

definition word_ok :: "string \<Rightarrow> bool" where
  "word_ok kw \<longleftrightarrow> kw \<noteq> [] \<and> set kw \<inter> set (''[], '' @ quote) = {}"

definition bids_read :: "nat \<Rightarrow> nat \<Rightarrow> (string \<times> amount) list \<Rightarrow> AdBid list" where
  "bids_read self d bs =
     map (\<lambda>(kw, a). \<lparr>bid_ad = self, bid_keyword = kw,
                     bid_money = int (if cents a = 0 then d else cents a)\<rparr>) bs"

lemma read_money_amount [simp]: "amount_ok a \<Longrightarrow> read_money (amount_text a) = Inr (int (cents a))"
  unfolding amount_text_def
  using read_cents [of "fst a" "snd a" "[]" "cents a"] by (simp add: amount_ok_def cents_def)

lemma digits_word_ok: "(\<And>c. c \<in> set ds \<Longrightarrow> isdigit c) \<Longrightarrow> set ds \<inter> set (''[], '' @ quote) = {}"
proof -
  have "\<forall>c \<in> set (''[], '' @ quote). \<not> isdigit c" by (simp add: isdigit_def quote_def)
  then show "(\<And>c. c \<in> set ds \<Longrightarrow> isdigit c) \<Longrightarrow> ?thesis" by blast
qed

lemma amount_text_word_ok: "amount_ok a \<Longrightarrow> word_ok (amount_text a)"
  using digits_word_ok [of "fst a @ snd a"]
  by (auto simp: word_ok_def amount_text_def amount_ok_def quote_def)

lemma to_digits_word_ok: "word_ok (to_digits n)"
  using digits_word_ok [of "to_digits n"] to_digits_isdigit by (auto simp: word_ok_def)

text \<open>Words and separators of a line.\<close>

lemma word_run:
  "word_ok w \<Longrightarrow> set seps \<subseteq> set (''[], '' @ quote) \<Longrightarrow> rest = [] \<or> hd rest \<in> set seps \<Longrightarrow>
   words_of seps (w @ rest) = w # words_of seps rest"
  by (rule words_of_word) (auto simp: word_ok_def)

lemma words_bids_text:
  assumes "\<forall>(kw, a) \<in> set bs. word_ok kw \<and> amount_ok a"
  shows "words_of (CHR 0x22 # '', '') (bids_text bs) =
    concat (map (\<lambda>(kw, a). [kw, amount_text a]) bs)"
  using assms
proof (induction bs rule: bids_text.induct)
  case (2 kw a)
  then show ?case
    using amount_text_word_ok [of a] word_run [of "amount_text a" "CHR 0x22 # '', ''" "[]"]
    by (simp add: quote_def words_of_sep word_run)
next
  case (3 kw a b bs)
  then show ?case
    using amount_text_word_ok [of a]
    by (simp add: quote_def words_of_sep word_run)
qed simp

lemma parse_bids_read:
  assumes "\<forall>(kw, a) \<in> set bs. word_ok kw \<and> amount_ok a"
  shows "parse_bids self (int d) (concat (map (\<lambda>(kw, a). [kw, amount_text a]) bs)) =
    Inr (bids_read self d bs)"
  using assms by (induction bs) (auto simp: bids_read_def)

lemma bids_text_no_brackets:
  assumes "\<forall>(kw, a) \<in> set bs. word_ok kw \<and> amount_ok a"
  shows "set (bids_text bs) \<inter> set ''[]'' = {}"
  using assms
proof (induction bs rule: bids_text.induct)
  case (2 kw a)
  then show ?case
    using amount_text_word_ok [of a] by (auto simp: quote_def word_ok_def)
next
  case (3 kw a b bs)
  then show ?case
    using amount_text_word_ok [of a] by (auto simp: quote_def word_ok_def)
qed simp

lemma bids_text_nonempty: "bs \<noteq> [] \<Longrightarrow> bids_text bs \<noteq> []"
  by (cases bs rule: bids_text.cases) (auto simp: quote_def)

lemma fromCharsBoost_digits: "n < 2 ^ w \<Longrightarrow> fromCharsBoost w (to_digits n) = Inr n"
  using from_chars_to_digits [of n w "[]"] by (simp add: fromCharsBoost_def)

lemma ad_text_parts:
  assumes "word_ok i" and "amount_ok a" and "bs \<noteq> []"
    and "\<forall>(kw, a) \<in> set bs. word_ok kw \<and> amount_ok a"
  shows "split_seps (ad_text i w h a bs) [] ''[]'' =
    [i @ '', '' @ to_digits w @ '', '' @ to_digits h @ '', '' @ amount_text a @ '', '', bids_text bs]"
    and "split_seps (i @ '', '' @ to_digits w @ '', '' @ to_digits h @ '', '' @ amount_text a @ '', '')
      [] '', '' = [i, to_digits w, to_digits h, amount_text a]"
proof -
  let ?l = "i @ '', '' @ to_digits w @ '', '' @ to_digits h @ '', '' @ amount_text a @ '', ''"
  have "set ?l \<inter> set ''[]'' = {}"
    using assms(1) amount_text_word_ok [OF assms(2)] to_digits_word_ok [of w] to_digits_word_ok [of h]
    by (auto simp: word_ok_def)
  then have "words_of ''[]'' (?l @ ''['' @ bids_text bs @ '']'') =
      ?l # words_of ''[]'' (''['' @ bids_text bs @ '']'')"
    by (intro words_of_word) auto
  also have "words_of ''[]'' (''['' @ bids_text bs @ '']'') = [bids_text bs]"
    using words_of_word [OF bids_text_nonempty [OF assms(3)] bids_text_no_brackets [OF assms(4)], of "'']''"]
    by (simp add: words_of_sep)
  finally show "split_seps (ad_text i w h a bs) [] ''[]'' = [?l, bids_text bs]"
    by (simp add: split_seps_words ad_text_def)
  show "split_seps ?l [] '', '' = [i, to_digits w, to_digits h, amount_text a]"
    using assms(1) amount_text_word_ok [OF assms(2)] to_digits_word_ok
    by (simp add: split_seps_words words_of_sep word_run quote_def)
qed

text \<open>
  C25: A well-formed line becomes the ad that it describes, with its bids sorted by keyword.
\<close>

theorem ad_text_read:
  assumes "word_ok i" and "amount_ok a" and "bs \<noteq> []"
    and "\<forall>(kw, a) \<in> set bs. word_ok kw \<and> amount_ok a" and "w < 2 ^ 32" and "h < 2 ^ 32"
  shows "bindE (Ad_new (ad_text i w h a bs)) (parseArray self) =
    Inr (\<lparr>ad_id = i, ad_sizeKey = (w, h),
          ad_bids = sort_key bid_keyword (bids_read self (cents a) bs),
          ad_defaultBid = int (cents a), ad_input = ad_text i w h a bs,
          ad_array = bids_text bs\<rparr>, True)"
  using assms(2,4-6) ad_text_parts [OF assms(1-4), of w h]
  by (simp add: Ad_new_def parseAttributes_def parseArray_def Let_def INPUTNUMBERPARTS_def
      ADNUMBERFIELDS_def fromCharsBoost_digits words_bids_text parse_bids_read
      split_seps_words [of "bids_text bs"])

subsection \<open>Witnesses\<close>


lemma ad_text_read_witness:
  "\<exists>ad. bindE (Ad_new (ad_text ''ad7'' 10 20 (''1'', ''00'') [(''car'', ''2'', ''5'')])) (parseArray 0) = Inr (ad, True) \<and>
     ad_sizeKey ad = (10, 20) \<and> map bid_money (ad_bids ad) = [250]"
  using ad_text_read [of "''ad7''" "(''1'', ''00'')" "[(''car'', ''2'', ''5'')]" 10 20 0]
  by (simp add: word_ok_def amount_ok_def cents_def quote_def isdigit_def digits_value_def digit_value_def bids_read_def)

end
