(* ===== verification/Transactions.thy ===== *)
theory Transactions
  imports Ads
begin

section \<open>Transactions (business/Transaction)\<close>

text \<open>
  A transaction answers one request: it takes the size and the keywords out of the text, finds
  the ads of this size whose keywords are asked for and replies with the highest bid.
  The containers that a transaction works on are thread-local and reused, and each of the two
  entry points keeps the ads of the size it saw last; all of it is the record
  \<open>thread_state\<close>, which every operation takes and returns. The ads do not change while
  requests are answered. The entry points are \<open>noexcept\<close>: an exception (\<open>Inl\<close>) ends the
  process.

  The lemmas show what the keywords, the matching bids and the winning bid are, and that the
  reply does not depend on what earlier transactions left in the thread.
\<close>

definition ZERO_SIZE :: size_key where
  "ZERO_SIZE = (0, 0)"

record Request =
  rq_sizeKey :: size_key
  rq_input :: string

definition Request_fresh :: Request where
  "Request_fresh = \<lparr>rq_sizeKey = (0, 0), rq_input = []\<rparr>"

text \<open>\<open>Request::operator=\<close> writes the text and keeps the size.\<close>

definition Request_assign :: "string \<Rightarrow> Request \<Rightarrow> Request" where
  "Request_assign input r = r\<lparr>rq_input := input\<rparr>"

record thread_state =
  th_bids :: "AdBid list"
  th_keywords :: "string list"
  th_output :: string
  th_adVector :: "nat list"
  th_prevKey :: size_key
  th_adVectorNoSort :: "nat list"
  th_prevKeyNoSort :: size_key

definition thread_start :: thread_state where
  "thread_start = \<lparr>th_bids = [], th_keywords = [], th_output = [], th_adVector = [],
     th_prevKey = (0, 0), th_adVectorNoSort = [], th_prevKeyNoSort = (0, 0)\<rparr>"

record transaction =
  tr_id :: string
  tr_request :: string
  tr_sizeKey :: size_key
  tr_winningBid :: "AdBid option"
  tr_noMatch :: bool
  tr_invalid :: bool

subsection \<open>createSizeKey\<close>

text \<open>Two numbers, with anything that is not a digit before each of them.\<close>

definition two_numbers :: "string \<Rightarrow> size_key result" where
  "two_numbers request =
     (case from_chars 32 (removeNonDigits request) of
        Inl ec \<Rightarrow> Inl (Conversion_Error ec)
      | Inr (width, rest) \<Rightarrow>
          (case from_chars 32 (removeNonDigits rest) of
             Inl ec \<Rightarrow> Inl (Conversion_Error ec)
           | Inr (height, _) \<Rightarrow> Inr (width, height)))"

text \<open>
  The two regular expressions: a tag, digits, another tag, digits, at the first position where
  they match. A run of digits is taken whole; what follows it is not a digit.
\<close>

definition match_here :: "string \<Rightarrow> string \<Rightarrow> string \<Rightarrow> string option" where
  "match_here tag1 tag2 s =
     (let t = drop (length tag1) s; ws = takeWhile isdigit t; u = dropWhile isdigit t;
          hs = takeWhile isdigit (drop (length tag2) u)
      in if starts_with s tag1 \<and> ws \<noteq> [] \<and> starts_with u tag2 \<and> hs \<noteq> []
         then Some (tag1 @ ws @ tag2 @ hs) else None)"

fun regex_search :: "string \<Rightarrow> string \<Rightarrow> string \<Rightarrow> string option" where
  "regex_search tag1 tag2 [] = match_here tag1 tag2 []"
| "regex_search tag1 tag2 (c # s) =
     (case match_here tag1 tag2 (c # s) of
        Some m \<Rightarrow> Some m
      | None \<Rightarrow> regex_search tag1 tag2 s)"

definition createSizeKeyRegExpr :: "string \<Rightarrow> size_key result" where
  "createSizeKeyRegExpr request =
     (let matched =
        (case regex_search ''size='' ''x'' request of
           Some m \<Rightarrow> m
         | None \<Rightarrow>
             (case regex_search ''ad_width='' ''&ad_height='' request of Some m \<Rightarrow> m | None \<Rightarrow> []))
      in two_numbers matched)"

definition createSizeKey :: "bool \<Rightarrow> string \<Rightarrow> size_key result" where
  "createSizeKey useRegex request =
     (if useRegex then createSizeKeyRegExpr request
      else
        case (case find_str ''size='' request of
                Some p \<Rightarrow> Some p
              | None \<Rightarrow> find_str ''ad_width='' request) of
          None \<Rightarrow> Inr ZERO_SIZE
        | Some begPos \<Rightarrow> two_numbers (drop begPos request))"

subsection \<open>Keywords\<close>

definition breakKeywords :: "string \<Rightarrow> thread_state \<Rightarrow> thread_state" where
  "breakKeywords kwStr th =
     th\<lparr>th_keywords := sort (split_delim kwStr (th_keywords th) CHR ''+'' 0)\<rparr>"

definition parseKeywords :: "string \<Rightarrow> string \<Rightarrow> thread_state \<Rightarrow> bool \<times> thread_state" where
  "parseKeywords request start th =
     (case find_str start request of
        None \<Rightarrow> (False, th)
      | Some b \<Rightarrow>
          let keyWordsbeg = b + length start;
              keyWordsEnd = (case find_char CHR ''&'' request b of
                               None \<Rightarrow> length request
                             | Some e \<Rightarrow> e)
          in (True, breakKeywords (substr request keyWordsbeg (keyWordsEnd - keyWordsbeg)) th))"

subsection \<open>Construction\<close>

definition clear :: "thread_state \<Rightarrow> thread_state" where
  "clear th = th\<lparr>th_bids := [], th_keywords := [], th_output := []\<rparr>"

definition Transaction_init :: "size_key \<Rightarrow> string \<Rightarrow> thread_state \<Rightarrow> transaction \<times> thread_state" where
  "Transaction_init sizeKey input th =
     (let th = clear th;
          tr = \<lparr>tr_id = [], tr_request = [], tr_sizeKey = sizeKey, tr_winningBid = None,
                tr_noMatch = False, tr_invalid = False\<rparr>
      in if sizeKey = ZERO_SIZE then (tr\<lparr>tr_invalid := True\<rparr>, th)
         else
           case find_char CHR '']'' input 0 of
             None \<Rightarrow> (tr, th)
           | Some pos \<Rightarrow>
               if input ! 0 = CHR ''['' then
                 let tr = tr\<lparr>tr_id := take (pos + 1) input, tr_request := drop (pos + 1) input\<rparr>;
                     (found, th) = parseKeywords (tr_request tr) ''kw='' th
                 in if found then (tr, th)
                    else (tr, snd (parseKeywords (tr_request tr) ''keywords='' th))
               else (tr, th))"

subsection \<open>Matching\<close>

text \<open>\<open>std::set_intersection\<close> with the comparator on keywords: elements of the first range.\<close>

fun set_intersection :: "AdBid list \<Rightarrow> string list \<Rightarrow> AdBid list" where
  "set_intersection (b # bs) (k # ks) =
     (if bid_keyword b < k then set_intersection bs (k # ks)
      else if k < bid_keyword b then set_intersection (b # bs) ks
      else b # set_intersection bs ks)"
| "set_intersection _ _ = []"

text \<open>The conversion of \<open>long\<close> to \<open>int\<close> keeps the low 32 bits.\<close>

definition long_to_int :: "int \<Rightarrow> int" where
  "long_to_int i = sint (word_of_int i :: 32 word)"

fun findWinningBid_loop :: "AdBid list \<Rightarrow> AdBid \<Rightarrow> int \<Rightarrow> AdBid" where
  "findWinningBid_loop [] best mx = best"
| "findWinningBid_loop (b # bs) best mx =
     (let money = long_to_int (bid_money b)
      in if mx < money then findWinningBid_loop bs b money else findWinningBid_loop bs best mx)"

definition findWinningBid :: "AdBid list \<Rightarrow> AdBid" where
  "findWinningBid bids =
     findWinningBid_loop (tl bids) (hd bids) (long_to_int (bid_money (hd bids)))"

definition matchAds ::
  "ads \<Rightarrow> nat list \<Rightarrow> transaction \<Rightarrow> thread_state \<Rightarrow> transaction \<times> thread_state" where
  "matchAds st adVector tr th =
     (let bids = fold (\<lambda>ad bids. bids @ set_intersection (ad_bids (objects st ! ad)) (th_keywords th))
                   adVector (th_bids th);
          th = th\<lparr>th_bids := bids\<rparr>
      in if bids = [] then (tr\<lparr>tr_noMatch := True\<rparr>, th)
         else (tr\<lparr>tr_winningBid := Some (findWinningBid bids)\<rparr>, th))"

subsection \<open>Output\<close>

definition EMPTY_REPLY :: string where
  "EMPTY_REPLY = ''0, 0.0'' @ [CHR 0x0A]"

definition INVALID_REQUEST :: string where
  "INVALID_REQUEST = '' Invalid request'' @ [CHR 0x0A]"

definition out :: "string \<Rightarrow> thread_state \<Rightarrow> thread_state" where
  "out s th = th\<lparr>th_output := th_output th @ s\<rparr>"

definition out_money :: "int \<Rightarrow> thread_state \<Rightarrow> thread_state result" where
  "out_money money th =
     bindE (toChars (div_scaler (double_of_long money)) (th_output th))
       (\<lambda>output. Inr (th\<lparr>th_output := output\<rparr>))"

text \<open>The winning bid is dereferenced only when there is a match.\<close>

definition printSummary :: "ads \<Rightarrow> transaction \<Rightarrow> thread_state \<Rightarrow> thread_state result" where
  "printSummary st tr th =
     (let th = out (tr_id tr @ '' '') th in
      case tr_winningBid tr of
        None \<Rightarrow> Inl Undefined_Behaviour
      | Some bid \<Rightarrow>
          (case lock st (bid_ad bid) of
             None \<Rightarrow> Inr th
           | Some ad \<Rightarrow>
               bindE (out_money (bid_money bid) (out (ad_id ad @ '', '') th)) (\<lambda>th.
                 Inr (out [CHR 0x0A] th))))"

definition printRequestData :: "transaction \<Rightarrow> thread_state \<Rightarrow> thread_state" where
  "printRequestData tr th =
     (let th = out (tr_id tr @ '' Transaction size='' @ show_size_key (tr_sizeKey tr) @
               '' #matches='' @ toCharsBoost (length (th_bids th)) False @ [CHR 0x0A] @
               tr_request tr @ [CHR 0x0A] @ ''request keywords:'' @ [CHR 0x0A]) th
      in fold (\<lambda>keyword. out ('' '' @ keyword @ [CHR 0x0A])) (th_keywords th) th)"

definition printMatchingAds :: "ads \<Rightarrow> thread_state \<Rightarrow> thread_state" where
  "printMatchingAds st th =
     fold (\<lambda>b th.
        let th = (case lock st (bid_ad b) of
                    None \<Rightarrow> th
                  | Some ad \<Rightarrow> th\<lparr>th_output := Ad_print ad (th_output th)\<rparr>)
        in out ('' match:'' @ bid_keyword b @ '' '' @ show_long (bid_money b) @ [CHR 0x0A]) th)
       (th_bids th) (out (''matching ads:'' @ [CHR 0x0A]) th)"

definition printWinningAd :: "ads \<Rightarrow> transaction \<Rightarrow> thread_state \<Rightarrow> thread_state result" where
  "printWinningAd st tr th =
     (case tr_winningBid tr of
        None \<Rightarrow> Inl Undefined_Behaviour
      | Some bid \<Rightarrow>
          let th = (case lock st (bid_ad bid) of
                      None \<Rightarrow> th
                    | Some ad \<Rightarrow> out (ad_id ad @ '', '' @ bid_keyword bid @ '', '') th)
          in bindE (out_money (bid_money bid) th) (\<lambda>th.
               Inr (out ([CHR 0x0A] @ ''*****'' @ [CHR 0x0A]) th)))"

definition printDiagnostics :: "ads \<Rightarrow> transaction \<Rightarrow> thread_state \<Rightarrow> thread_state result" where
  "printDiagnostics st tr th =
     (let th = out ''summary:'' (printMatchingAds st (printRequestData tr th))
      in if tr_noMatch tr then Inr (out (EMPTY_REPLY @ ''*****'' @ [CHR 0x0A]) th)
         else if tr_invalid tr then Inr (out (INVALID_REQUEST @ ''*****'' @ [CHR 0x0A]) th)
         else printWinningAd st tr th)"

subsection \<open>The entry points\<close>

text \<open>The common end of both: match, then print.\<close>

definition answer ::
  "ads \<Rightarrow> nat list \<Rightarrow> bool \<Rightarrow> transaction \<Rightarrow> thread_state \<Rightarrow> (string \<times> thread_state) result" where
  "answer st adVector diagnostics tr th =
     (let (tr, th) = matchAds st adVector tr th in
      bindE (if diagnostics then printDiagnostics st tr th
             else if tr_noMatch tr then Inr (out (tr_id tr @ '' '' @ EMPTY_REPLY) th)
             else printSummary st tr th)
        (\<lambda>th. Inr (th_output th, th)))"

definition processRequestSort ::
  "ads \<Rightarrow> size_key \<Rightarrow> Request \<Rightarrow> bool \<Rightarrow> thread_state \<Rightarrow> (string \<times> thread_state) result" where
  "processRequestSort st sizeKey request diagnostics th =
     (let (tr, th) = Transaction_init sizeKey (rq_input request) th in
      if rq_input request = [] then
        let th = out (''[unknown]'' @ INVALID_REQUEST) th in Inr (th_output th, th)
      else
        let th = (if sizeKey \<noteq> th_prevKey th
                  then th\<lparr>th_prevKey := sizeKey, th_adVector := getAdsBySize st sizeKey\<rparr>
                  else th)
        in answer st (th_adVector th) diagnostics tr th)"

definition processRequestNoSort ::
  "bool \<Rightarrow> ads \<Rightarrow> Request \<Rightarrow> bool \<Rightarrow> thread_state \<Rightarrow> (string \<times> thread_state) result" where
  "processRequestNoSort useRegex st request diagnostics th =
     bindE (createSizeKey useRegex (rq_input request)) (\<lambda>sizeKey.
       let (tr, th) = Transaction_init sizeKey (rq_input request) th in
       if rq_input request = [] then
         let th = out (''[unknown]'' @ INVALID_REQUEST) th in Inr (th_output th, th)
       else
         let th = (if rq_sizeKey request \<noteq> th_prevKeyNoSort th
                   then th\<lparr>th_prevKeyNoSort := rq_sizeKey request,
                           th_adVectorNoSort := getAdsBySize st (rq_sizeKey request)\<rparr>
                   else th)
         in answer st (th_adVectorNoSort th) diagnostics tr th)"

subsection \<open>Sizes\<close>

lemma removeNonDigits_digits:
  assumes "\<forall>c \<in> set p. \<not> isdigit c"
  shows "removeNonDigits (p @ to_digits n @ r) = to_digits n @ r"
proof -
  obtain d ds where d: "to_digits n = d # ds" using to_digits_nonempty by (cases "to_digits n") auto
  then have "isdigit d" using to_digits_isdigit [of d n] by simp
  then show ?thesis using assms d by (simp add: removeNonDigits_def dropWhile_append)
qed

lemma two_numbers_digits:
  assumes "\<forall>c \<in> set p. \<not> isdigit c" and "\<forall>c \<in> set q. \<not> isdigit c" and "q \<noteq> []"
    and "r = [] \<or> \<not> isdigit (hd r)" and "w < 2 ^ 32" and "h < 2 ^ 32"
  shows "two_numbers (p @ to_digits w @ q @ to_digits h @ r) = Inr (w, h)"
proof -
  have "q @ to_digits h @ r = [] \<or> \<not> isdigit (hd (q @ to_digits h @ r))"
    using assms(2,3) by (cases q) auto
  then have "from_chars 32 (to_digits w @ q @ to_digits h @ r) = Inr (w, q @ to_digits h @ r)"
    using assms(5) by (intro from_chars_to_digits)
  moreover have "from_chars 32 (to_digits h @ r) = Inr (h, r)"
    using assms(4,6) by (intro from_chars_to_digits)
  ultimately show ?thesis
    using assms(1,2) removeNonDigits_digits [of p w "q @ to_digits h @ r"]
      removeNonDigits_digits [of q h r] by (simp add: two_numbers_def)
qed

lemma regex_search_first:
  "find_str tag1 s = Some n \<Longrightarrow> match_here tag1 tag2 (drop n s) = Some m \<Longrightarrow>
   regex_search tag1 tag2 s = Some m"
proof (induction s arbitrary: n)
  case (Cons c s)
  show ?case
  proof (cases "starts_with (c # s) tag1")
    case True
    then show ?thesis using Cons.prems by simp
  next
    case False
    then have "match_here tag1 tag2 (c # s) = None" by (simp add: match_here_def Let_def)
    then show ?thesis using Cons False by auto
  qed
qed (simp split: if_splits)

lemma match_here_digits:
  assumes "tag2 \<noteq> []" and "\<not> isdigit (hd tag2)" and "r = [] \<or> \<not> isdigit (hd r)"
  shows "match_here tag1 tag2 (tag1 @ to_digits w @ tag2 @ to_digits h @ r) =
    Some (tag1 @ to_digits w @ tag2 @ to_digits h)"
  using takeWhile_digits [of "to_digits w" "tag2 @ to_digits h @ r"]
    takeWhile_digits [of "to_digits h" r] assms to_digits_isdigit
  by (simp add: match_here_def Let_def)

lemma find_str_drop: "find_str p s = Some n \<Longrightarrow> starts_with (drop n s) p"
proof (induction s arbitrary: n)
  case (Cons c s)
  then show ?case by (cases "starts_with (c # s) p") auto
qed (simp split: if_splits)

lemma createSizeKey_reads:
  assumes "find_str ''size='' request = Some n"
    and "drop n request = ''size='' @ to_digits w @ ''x'' @ to_digits h @ r"
    and "r = [] \<or> \<not> isdigit (hd r)" and "w < 2 ^ 32" and "h < 2 ^ 32"
  shows "createSizeKey useRegex request = Inr (w, h)"
proof -
  have m: "regex_search ''size='' ''x'' request = Some (''size='' @ to_digits w @ ''x'' @ to_digits h)"
    using regex_search_first [OF assms(1), of "''x''"]
      match_here_digits [of "''x''" r "''size=''" w h] assms(2,3) by (simp add: isdigit_def)
  have "two_numbers (''size='' @ to_digits w @ ''x'' @ to_digits h @ []) = Inr (w, h)"
    "two_numbers (''size='' @ to_digits w @ ''x'' @ to_digits h @ r) = Inr (w, h)"
    using assms(3-5) by (intro two_numbers_digits; simp add: isdigit_def)+
  then show ?thesis
    using assms(1,2) m by (simp add: createSizeKey_def createSizeKeyRegExpr_def)
qed

text \<open>
  A request whose first \<open>size=\<close> is followed by the two numbers has this size, by either of the
  two ways to look for it.
\<close>

theorem createSizeKey_size:
  assumes "find_str ''size='' request = Some n"
    and "drop n request = ''size='' @ to_digits w @ ''x'' @ to_digits h @ r"
    and "r = [] \<or> \<not> isdigit (hd r)" and "w < 2 ^ 32" and "h < 2 ^ 32"
  shows "createSizeKey useRegex request = Inr (w, h)"
  by (rule createSizeKey_reads [OF assms])

text \<open>The same for the other format, in requests without \<open>size=\<close>.\<close>

theorem createSizeKey_alt:
  assumes "find_str ''size='' request = None" and "find_str ''ad_width='' request = Some n"
    and "drop n request = ''ad_width='' @ to_digits w @ ''&ad_height='' @ to_digits h @ r"
    and "r = [] \<or> \<not> isdigit (hd r)" and "w < 2 ^ 32" and "h < 2 ^ 32"
  shows "createSizeKey useRegex request = Inr (w, h)"
proof -
  have none: "regex_search ''size='' ''x'' s = None" if "find_str ''size='' s = None" for s
    using that
  proof (induction s)
    case (Cons c s)
    then show ?case by (auto simp: match_here_def Let_def split: if_splits)
  qed (simp add: match_here_def)
  have m: "regex_search ''ad_width='' ''&ad_height='' request =
      Some (''ad_width='' @ to_digits w @ ''&ad_height='' @ to_digits h)"
    using regex_search_first [OF assms(2), of "''&ad_height=''"]
      match_here_digits [of "''&ad_height=''" r "''ad_width=''" w h] assms(3,4)
    by (simp add: isdigit_def)
  have "two_numbers (''ad_width='' @ to_digits w @ ''&ad_height='' @ to_digits h @ []) = Inr (w, h)"
    "two_numbers (''ad_width='' @ to_digits w @ ''&ad_height='' @ to_digits h @ r) = Inr (w, h)"
    using assms(4-6) by (intro two_numbers_digits; simp add: isdigit_def)+
  then show ?thesis
    using assms(1-3) none m by (simp add: createSizeKey_def createSizeKeyRegExpr_def)
qed

lemma createSizeKey_no_number:
  assumes "find_str ''size='' request = Some n" and "\<forall>c \<in> set (drop n request). \<not> isdigit c"
  shows "createSizeKey False request = Inl (Conversion_Error Invalid_Argument)"
  using assms from_chars_removeNonDigits [of 32 "drop n request"]
  by (simp add: createSizeKey_def two_numbers_def)

text \<open>
  A request that names a size but has no number behind it throws; with regular expressions so
  does every request without a size. Both entry points and the preprocessing are \<open>noexcept\<close>.
\<close>

theorem createSizeKey_throws:
  assumes "find_str ''size='' request = Some n" and "\<forall>c \<in> set (drop n request). \<not> isdigit c"
  shows "createSizeKey False request = Inl (Conversion_Error Invalid_Argument)"
  by (rule createSizeKey_no_number [OF assms])

lemma createSizeKeyRegExpr_throws:
  assumes "regex_search ''size='' ''x'' request = None"
    and "regex_search ''ad_width='' ''&ad_height='' request = None"
  shows "createSizeKey True request = Inl (Conversion_Error Invalid_Argument)"
  using assms from_chars_removeNonDigits [of 32 "[]"]
  by (simp add: createSizeKey_def createSizeKeyRegExpr_def two_numbers_def)

subsection \<open>Keywords and matches\<close>

lemma set_intersection_sound:
  "b \<in> set (set_intersection bs ks) \<Longrightarrow> b \<in> set bs \<and> bid_keyword b \<in> set ks"
  by (induction bs ks rule: set_intersection.induct) (auto split: if_splits)

text \<open>Of sorted ranges without repeated bids, exactly the bids whose keyword is asked for.\<close>

lemma set_intersection_filter:
  assumes "sorted (map bid_keyword bs)" and "distinct (map bid_keyword bs)" and "sorted ks"
  shows "set_intersection bs ks = filter (\<lambda>b. bid_keyword b \<in> set ks) bs"
  using assms
proof (induction bs ks rule: set_intersection.induct)
  case (1 b bs k ks)
  consider "bid_keyword b < k" | "k < bid_keyword b" | "bid_keyword b = k" by force
  then show ?case
  proof cases
    case 1
    then have "bid_keyword b \<notin> set (k # ks)" using "1.prems"(3) by auto
    then show ?thesis using 1 "1.IH"(1) "1.prems" by simp
  next
    case 2
    then have k: "\<not> bid_keyword b < k" by simp
    have "k \<notin> bid_keyword ` set (b # bs)" using 2 "1.prems"(1) by auto
    then have "filter (\<lambda>b. bid_keyword b \<in> set (k # ks)) (b # bs) =
        filter (\<lambda>b. bid_keyword b \<in> set ks) (b # bs)"
      by (intro filter_cong) auto
    then show ?thesis using 2 k "1.IH"(2) [OF k 2] "1.prems" by simp
  next
    case 3
    have "bid_keyword x \<noteq> k" if "x \<in> set bs" for x
      using "1.prems"(2) 3 that by (metis distinct.simps(2) image_eqI list.set_map list.simps(9))
    then have "filter (\<lambda>b. bid_keyword b \<in> set (k # ks)) bs = filter (\<lambda>b. bid_keyword b \<in> set ks) bs"
      by (intro filter_cong) auto
    then show ?thesis using 3 "1.IH"(3) "1.prems" by simp
  qed
qed simp_all

text \<open>In general each keyword comes out as often as it is in both ranges.\<close>

lemma mset_inter_skip:
  "x \<notin># B \<Longrightarrow> add_mset x A \<inter># B = A \<inter># B"
  "x \<notin># A \<Longrightarrow> A \<inter># add_mset x B = A \<inter># B"
  by (simp_all add: inter_add_left1 inter_add_right1)

text \<open>
  The intersection of the sorted bids of a size with the sorted keywords of a request has each keyword
  as often as it is in both.
\<close>

theorem set_intersection_mset:
  assumes "sorted (map bid_keyword bs)" and "sorted ks"
  shows "mset (map bid_keyword (set_intersection bs ks)) = mset (map bid_keyword bs) \<inter># mset ks"
  using assms
proof (induction bs ks rule: set_intersection.induct)
  case (1 b bs k ks)
  consider "bid_keyword b < k" | "k < bid_keyword b" | "bid_keyword b = k" by force
  then show ?case
  proof cases
    case 1
    then have "bid_keyword b \<notin># mset (k # ks)" using "1.prems"(2) by auto
    then show ?thesis using 1 "1.IH"(1) "1.prems" by (simp add: mset_inter_skip(1))
  next
    case 2
    then have k: "\<not> bid_keyword b < k" by simp
    have "k \<notin># mset (map bid_keyword (b # bs))" using 2 "1.prems"(1) by auto
    then show ?thesis using 2 k "1.IH"(2) [OF k 2] "1.prems" by (simp add: mset_inter_skip(2))
  next
    case 3
    then show ?thesis using "1.IH"(3) "1.prems" by (simp add: inter_add_left2)
  qed
qed simp_all

text \<open>The winning bid is the first of the highest bids that fit \<open>int\<close>.\<close>

definition fits_int :: "AdBid \<Rightarrow> bool" where
  "fits_int b \<longleftrightarrow> - (2 ^ 31) \<le> bid_money b \<and> bid_money b < 2 ^ 31"

lemma long_to_int_id: "fits_int b \<Longrightarrow> long_to_int (bid_money b) = bid_money b"
  by (simp add: fits_int_def long_to_int_def sint_sbintrunc' signed_take_bit_int_eq_self)

lemma findWinningBid_loop_max:
  assumes "\<forall>b \<in> set bs. fits_int b" and "mx = bid_money best"
  shows "findWinningBid_loop bs best mx \<in> insert best (set bs) \<and>
    (\<forall>b \<in> insert best (set bs). bid_money b \<le> bid_money (findWinningBid_loop bs best mx))"
  using assms
proof (induction bs arbitrary: best mx)
  case (Cons b bs)
  have "long_to_int (bid_money b) = bid_money b" using Cons.prems long_to_int_id by simp
  then show ?case
    using Cons.IH [of "bid_money best" best] Cons.IH [of "bid_money b" b] Cons.prems
    by (cases "mx < bid_money b") auto
qed simp

lemma winning_bid_highest:
  assumes "bids \<noteq> []" and "\<forall>b \<in> set bids. fits_int b"
  shows "findWinningBid bids \<in> set bids \<and> (\<forall>b \<in> set bids. bid_money b \<le> bid_money (findWinningBid bids))"
proof -
  obtain b bs where bids: "bids = b # bs" using assms(1) by (cases bids) auto
  then show ?thesis
    using findWinningBid_loop_max [of bs "bid_money b" b] assms(2) long_to_int_id [of b]
    by (simp add: findWinningBid_def)
qed

text \<open>
  The winning bid of a non-empty list is one of them and none is higher, as long as the prices fit
  into the \<open>int\<close> that the loop keeps them in.
\<close>

theorem findWinningBid_max:
  assumes "bids \<noteq> []" and "\<forall>b \<in> set bids. fits_int b"
  shows "findWinningBid bids \<in> set bids \<and> (\<forall>b \<in> set bids. bid_money b \<le> bid_money (findWinningBid bids))"
  by (rule winning_bid_highest [OF assms])

subsection \<open>A reply does not depend on the thread\<close>

text \<open>The four members of a thread that outlive a transaction, replaced.\<close>

definition with_cache ::
  "nat list \<Rightarrow> size_key \<Rightarrow> nat list \<Rightarrow> size_key \<Rightarrow> thread_state \<Rightarrow> thread_state" where
  "with_cache v k vn kn th =
     th\<lparr>th_adVector := v, th_prevKey := k, th_adVectorNoSort := vn, th_prevKeyNoSort := kn\<rparr>"

named_theorems cache_simps \<open>operations on a transaction ignore the cached ads of the thread\<close>

lemma with_cache_fields [cache_simps]:
  "th_bids (with_cache v k vn kn th) = th_bids th"
  "th_keywords (with_cache v k vn kn th) = th_keywords th"
  "th_output (with_cache v k vn kn th) = th_output th"
  by (simp_all add: with_cache_def)

lemma with_cache_updates [cache_simps]:
  "with_cache v k vn kn th\<lparr>th_bids := b\<rparr> = with_cache v k vn kn (th\<lparr>th_bids := b\<rparr>)"
  "with_cache v k vn kn th\<lparr>th_keywords := w\<rparr> = with_cache v k vn kn (th\<lparr>th_keywords := w\<rparr>)"
  "with_cache v k vn kn th\<lparr>th_output := s\<rparr> = with_cache v k vn kn (th\<lparr>th_output := s\<rparr>)"
  by (simp_all add: with_cache_def)

lemma with_cache_cached:
  "th_adVector (with_cache v k vn kn th) = v" "th_prevKey (with_cache v k vn kn th) = k"
  "th_adVectorNoSort (with_cache v k vn kn th) = vn" "th_prevKeyNoSort (with_cache v k vn kn th) = kn"
  "with_cache v k vn kn th\<lparr>th_prevKey := a, th_adVector := b\<rparr> = with_cache b a vn kn th"
  "with_cache v k vn kn th\<lparr>th_prevKeyNoSort := a, th_adVectorNoSort := b\<rparr> = with_cache v k b a th"
  by (cases th; simp add: with_cache_def)+

lemma out_cache [cache_simps]: "out s (with_cache v k vn kn th) = with_cache v k vn kn (out s th)"
  by (simp add: out_def cache_simps)

lemma fold_cache:
  assumes "\<And>x th. f x (with_cache v k vn kn th) = with_cache v k vn kn (f x th)"
  shows "fold f xs (with_cache v k vn kn th) = with_cache v k vn kn (fold f xs th)"
  by (induction xs arbitrary: th) (simp_all add: assms)

lemma out_money_cache [cache_simps]:
  "out_money m (with_cache v k vn kn th) = map_sum id (with_cache v k vn kn) (out_money m th)"
  by (cases "toChars (div_scaler (double_of_long m)) (th_output th)")
    (simp_all add: out_money_def cache_simps)

lemma bind_map_sum:
  "(\<And>x. g (h x) = map_sum id h (f x)) \<Longrightarrow> bindE (map_sum id h m) g = map_sum id h (bindE m f)"
  by (cases m) simp_all

lemma matchAds_cache [cache_simps]:
  "matchAds st adVector tr (with_cache v k vn kn th) =
     apsnd (with_cache v k vn kn) (matchAds st adVector tr th)"
  by (simp add: matchAds_def cache_simps Let_def)

lemma printSummary_cache [cache_simps]:
  "printSummary st tr (with_cache v k vn kn th) = map_sum id (with_cache v k vn kn) (printSummary st tr th)"
  by (auto simp: printSummary_def cache_simps Let_def split: option.splits intro!: bind_map_sum)

lemma printRequestData_cache [cache_simps]:
  "printRequestData tr (with_cache v k vn kn th) = with_cache v k vn kn (printRequestData tr th)"
  by (simp add: printRequestData_def cache_simps Let_def fold_cache)

lemma printMatchingAds_cache [cache_simps]:
  "printMatchingAds st (with_cache v k vn kn th) = with_cache v k vn kn (printMatchingAds st th)"
  unfolding printMatchingAds_def
  by (auto simp: cache_simps Let_def split: option.splits intro!: fold_cache)

lemma printWinningAd_cache [cache_simps]:
  "printWinningAd st tr (with_cache v k vn kn th) =
     map_sum id (with_cache v k vn kn) (printWinningAd st tr th)"
  by (auto simp: printWinningAd_def cache_simps Let_def split: option.splits intro!: bind_map_sum)

lemma printDiagnostics_cache [cache_simps]:
  "printDiagnostics st tr (with_cache v k vn kn th) =
     map_sum id (with_cache v k vn kn) (printDiagnostics st tr th)"
  by (simp add: printDiagnostics_def cache_simps Let_def)

lemma answer_cache [cache_simps]:
  "answer st adVector d tr (with_cache v k vn kn th) =
     map_sum id (apsnd (with_cache v k vn kn)) (answer st adVector d tr th)"
proof -
  obtain tr' th' where m: "matchAds st adVector tr th = (tr', th')" by force
  define p where "p = (\<lambda>th. if d then printDiagnostics st tr' th
             else if tr_noMatch tr' then Inr (out (tr_id tr' @ '' '' @ EMPTY_REPLY) th)
             else printSummary st tr' th)"
  have "p (with_cache v k vn kn th') = map_sum id (with_cache v k vn kn) (p th')"
    by (simp add: p_def cache_simps)
  then have "bindE (p (with_cache v k vn kn th')) (\<lambda>th. Inr (th_output th, th)) =
      map_sum id (apsnd (with_cache v k vn kn)) (bindE (p th') (\<lambda>th. Inr (th_output th, th)))"
    by (cases "p th'") (simp_all add: cache_simps)
  then show ?thesis by (simp add: answer_def cache_simps m p_def)
qed

text \<open>Construction forgets what an earlier transaction left in the containers.\<close>

lemma clear_cache:
  "clear th = with_cache (th_adVector th) (th_prevKey th) (th_adVectorNoSort th) (th_prevKeyNoSort th)
     (clear thread_start)"
  by (simp add: clear_def with_cache_def thread_start_def)

lemma parseKeywords_cache [cache_simps]:
  "parseKeywords request start (with_cache v k vn kn th) =
     apsnd (with_cache v k vn kn) (parseKeywords request start th)"
  by (simp add: parseKeywords_def breakKeywords_def cache_simps Let_def split: option.splits)

lemma Transaction_init_fresh:
  "Transaction_init key input th =
     apsnd (with_cache (th_adVector th) (th_prevKey th) (th_adVectorNoSort th) (th_prevKeyNoSort th))
       (Transaction_init key input thread_start)"
  unfolding Transaction_init_def Let_def clear_cache [of th]
  by (simp add: cache_simps split: option.splits prod.splits)

lemma Transaction_init_zero:
  "Transaction_init ZERO_SIZE input th = (tr, th') \<Longrightarrow> th_keywords th' = [] \<and> th_bids th' = []"
  by (auto simp: Transaction_init_def clear_def Let_def)

lemma set_intersection_no_keywords [simp]: "set_intersection bs [] = []"
  by (cases bs) simp_all

lemma fold_skip: "fold (\<lambda>_ acc. acc) xs a = a"
  by (induction xs) simp_all

lemma matchAds_no_keywords:
  "th_keywords th = [] \<Longrightarrow> th_bids th = [] \<Longrightarrow> matchAds st v tr th = matchAds st v' tr th"
  by (simp add: matchAds_def fold_skip)

text \<open>The cached ads are those of the cached size, but for the size of invalid requests.\<close>

definition cache_ok :: "ads \<Rightarrow> thread_state \<Rightarrow> bool" where
  "cache_ok st th \<longleftrightarrow>
     (th_prevKey th = ZERO_SIZE \<or> th_adVector th = getAdsBySize st (th_prevKey th)) \<and>
     (th_prevKeyNoSort th = ZERO_SIZE \<or> th_adVectorNoSort th = getAdsBySize st (th_prevKeyNoSort th))"

lemma cache_ok_start [simp]: "cache_ok st thread_start"
  by (simp add: cache_ok_def thread_start_def ZERO_SIZE_def)

text \<open>What a thread that answers its first request replies.\<close>

definition reply :: "ads \<Rightarrow> size_key \<Rightarrow> string \<Rightarrow> bool \<Rightarrow> string result" where
  "reply st key input diagnostics =
     (let (tr, th) = Transaction_init key input thread_start in
      if input = [] then Inr (''[unknown]'' @ INVALID_REQUEST)
      else bindE (answer st (getAdsBySize st key) diagnostics tr th) (\<lambda>(output, _). Inr output))"

lemma answer_fresh:
  assumes "Transaction_init key input thread_start = (tr, th0)"
    and "key = ZERO_SIZE \<or> v = getAdsBySize st key"
  shows "answer st v d tr th0 = answer st (getAdsBySize st key) d tr th0"
proof (cases "key = ZERO_SIZE")
  case True
  then show ?thesis
    using Transaction_init_zero [of input thread_start tr th0] assms(1)
      matchAds_no_keywords [of th0 st v tr "getAdsBySize st key"]
    by (simp add: answer_def)
qed (use assms in simp)

lemma Transaction_init_empty:
  "Transaction_init key [] thread_start = (tr, th) \<Longrightarrow> th_output th = []"
  by (auto simp: Transaction_init_def clear_def find_char_def Let_def split: if_splits)

lemma answer_cached:
  assumes "Transaction_init key input thread_start = (tr, th0)" and "input \<noteq> []"
    and "key = ZERO_SIZE \<or> v = getAdsBySize st key" and "cache_ok st (with_cache w k vn kn th0)"
  shows "case answer st v d tr (with_cache w k vn kn th0) of
      Inl e \<Rightarrow> reply st key input d = Inl e
    | Inr (output, th) \<Rightarrow> reply st key input d = Inr output \<and> cache_ok st th"
proof -
  have "cache_ok st (with_cache w k vn kn th)" for th
    using assms(4) by (simp add: cache_ok_def with_cache_def)
  moreover note fresh = answer_fresh [OF assms(1,3), of d]
  ultimately show ?thesis
    using assms(1,2)
    by (cases "answer st (getAdsBySize st key) d tr th0") (auto simp: fresh answer_cache reply_def)
qed

lemma sort_reply_aux:
  assumes "cache_ok st th"
  shows "case processRequestSort st key rq d th of
      Inl e \<Rightarrow> reply st key (rq_input rq) d = Inl e
    | Inr (output, th') \<Rightarrow> reply st key (rq_input rq) d = Inr output \<and> cache_ok st th'"
proof -
  obtain tr th0 where init: "Transaction_init key (rq_input rq) thread_start = (tr, th0)" by force
  let ?v = "th_adVector th" and ?k = "th_prevKey th"
  let ?vn = "th_adVectorNoSort th" and ?kn = "th_prevKeyNoSort th"
  have init': "Transaction_init key (rq_input rq) th = (tr, with_cache ?v ?k ?vn ?kn th0)"
    using Transaction_init_fresh [of key "rq_input rq" th] init by simp
  show ?thesis
  proof (cases "rq_input rq = []")
    case True
    have "th_output th0 = []"
      using init True Transaction_init_empty by simp
    then show ?thesis
      using True init init' assms
      by (simp add: processRequestSort_def reply_def out_def with_cache_def cache_ok_def)
  next
    case False
    define w k where "w = (if key \<noteq> ?k then getAdsBySize st key else ?v)"
      and "k = (if key \<noteq> ?k then key else ?k)"
    have run: "processRequestSort st key rq d th = answer st w d tr (with_cache w k ?vn ?kn th0)"
      using False init' by (simp add: processRequestSort_def w_def k_def with_cache_cached)
    have ok: "key = ZERO_SIZE \<or> w = getAdsBySize st key" "cache_ok st (with_cache w k ?vn ?kn th0)"
      using assms by (auto simp: w_def k_def cache_ok_def with_cache_def)
    show ?thesis unfolding run by (rule answer_cached [OF init False ok])
  qed
qed

text \<open>
  C19: The sorting entry point computes the reply of the reference definition whatever its thread-local
  caches hold from earlier requests, errors included, and leaves the caches consistent.
\<close>

theorem processRequestSort_reply:
  assumes "cache_ok st th"
  shows "case processRequestSort st key rq d th of
      Inl e \<Rightarrow> reply st key (rq_input rq) d = Inl e
    | Inr (output, th') \<Rightarrow> reply st key (rq_input rq) d = Inr output \<and> cache_ok st th'"
  by (rule sort_reply_aux [OF assms])

lemma no_sort_reply_aux:
  assumes "cache_ok st th" and "createSizeKey useRegex (rq_input rq) = Inr (rq_sizeKey rq)"
  shows "case processRequestNoSort useRegex st rq d th of
      Inl e \<Rightarrow> reply st (rq_sizeKey rq) (rq_input rq) d = Inl e
    | Inr (output, th') \<Rightarrow> reply st (rq_sizeKey rq) (rq_input rq) d = Inr output \<and> cache_ok st th'"
proof -
  let ?key = "rq_sizeKey rq"
  obtain tr th0 where init: "Transaction_init ?key (rq_input rq) thread_start = (tr, th0)" by force
  let ?v = "th_adVector th" and ?k = "th_prevKey th"
  let ?vn = "th_adVectorNoSort th" and ?kn = "th_prevKeyNoSort th"
  have init': "Transaction_init ?key (rq_input rq) th = (tr, with_cache ?v ?k ?vn ?kn th0)"
    using Transaction_init_fresh [of ?key "rq_input rq" th] init by simp
  show ?thesis
  proof (cases "rq_input rq = []")
    case True
    have "th_output th0 = []"
      using init True Transaction_init_empty by simp
    then show ?thesis
      using True init init' assms
      by (simp add: processRequestNoSort_def reply_def out_def with_cache_def cache_ok_def)
  next
    case False
    define w k where "w = (if ?key \<noteq> ?kn then getAdsBySize st ?key else ?vn)"
      and "k = (if ?key \<noteq> ?kn then ?key else ?kn)"
    have run: "processRequestNoSort useRegex st rq d th =
        answer st w d tr (with_cache ?v ?k w k th0)"
      using False init' assms(2) by (simp add: processRequestNoSort_def w_def k_def with_cache_cached)
    have ok: "?key = ZERO_SIZE \<or> w = getAdsBySize st ?key" "cache_ok st (with_cache ?v ?k w k th0)"
      using assms by (auto simp: w_def k_def cache_ok_def with_cache_def)
    show ?thesis unfolding run by (rule answer_cached [OF init False ok])
  qed
qed

text \<open>
  Without sorting the ads are looked up by the size that the preprocessing has put into the
  request; the reply is then the one of the sorting entry point.
\<close>

theorem processRequestNoSort_reply:
  assumes "cache_ok st th" and "createSizeKey useRegex (rq_input rq) = Inr (rq_sizeKey rq)"
  shows "case processRequestNoSort useRegex st rq d th of
      Inl e \<Rightarrow> reply st (rq_sizeKey rq) (rq_input rq) d = Inl e
    | Inr (output, th') \<Rightarrow> reply st (rq_sizeKey rq) (rq_input rq) d = Inr output \<and> cache_ok st th'"
  by (rule no_sort_reply_aux [OF assms])

subsection \<open>The reply is the highest matching bid\<close>

text \<open>The keywords that a request asks for, and the bids that are candidates for it.\<close>

definition keyword_text :: "string \<Rightarrow> string option" where
  "keyword_text r =
     (case find_str ''kw='' r of
        Some b \<Rightarrow> Some (takeWhile (\<lambda>c. c \<noteq> CHR ''&'') (drop (b + length ''kw='') r))
      | None \<Rightarrow> map_option (\<lambda>b. takeWhile (\<lambda>c. c \<noteq> CHR ''&'') (drop (b + length ''keywords='') r)) (find_str ''keywords='' r))"

definition request_keywords :: "string \<Rightarrow> string list" where
  "request_keywords r =
     (case keyword_text r of None \<Rightarrow> [] | Some t \<Rightarrow> rows_of CHR ''+'' False t)"

definition candidate :: "ads \<Rightarrow> size_key \<Rightarrow> string list \<Rightarrow> AdBid \<Rightarrow> bool" where
  "candidate st key ks b \<longleftrightarrow>
     (\<exists>ad \<in> set (objects st). ad_sizeKey ad = key \<and> b \<in> set (ad_bids ad) \<and> bid_keyword b \<in> set ks)"

lemma parseKeywords_text:
  assumes "CHR ''&'' \<notin> set start"
  shows "parseKeywords r start th =
    (case find_str start r of
       None \<Rightarrow> (False, th)
     | Some b \<Rightarrow> (True, th\<lparr>th_keywords := sort (th_keywords th @
         rows_of CHR ''+'' False (takeWhile (\<lambda>c. c \<noteq> CHR ''&'') (drop (b + length start) r)))\<rparr>))"
proof (cases "find_str start r")
  case (Some b)
  let ?k = "b + length start" and ?P = "\<lambda>c. c \<noteq> CHR ''&''"
  have bound: "?k \<le> length r" using Some by (rule find_str_Some_bound)
  have "take (length start) (drop b r) = start"
    using find_str_drop [OF Some] by (simp add: starts_with_iff)
  then have "drop b r = start @ drop ?k r"
    by (metis add.commute append_take_drop_id drop_drop)
  moreover have "\<forall>c \<in> set start. ?P c" using assms by blast
  ultimately have tw: "length (takeWhile ?P (drop b r)) = length start + length (takeWhile ?P (drop ?k r))"
    by simp
  have le: "length (takeWhile ?P (drop ?k r)) \<le> length r - ?k"
    using length_takeWhile_le [of ?P "drop ?k r"] by simp
  let ?e = "case find_char CHR ''&'' r b of None \<Rightarrow> length r | Some e \<Rightarrow> e"
  have "?e - ?k = length (takeWhile ?P (drop ?k r))"
    using tw le bound by (auto simp: find_char_def Let_def)
  then have "substr r ?k (?e - ?k) = takeWhile ?P (drop ?k r)"
    by (simp add: substr_def takeWhile_eq_take [symmetric])
  then show ?thesis
    using Some split_delim_rows [of _ _ "CHR ''+''" False]
    by (simp add: parseKeywords_def breakKeywords_def Let_def)
qed (simp add: parseKeywords_def)

lemma Transaction_init_request:
  assumes "key \<noteq> ZERO_SIZE" and "CHR '']'' \<notin> set i"
  shows "Transaction_init key (''['' @ i @ '']'' @ r) thread_start =
    (\<lparr>tr_id = ''['' @ i @ '']'', tr_request = r, tr_sizeKey = key, tr_winningBid = None,
      tr_noMatch = False, tr_invalid = False\<rparr>,
     thread_start\<lparr>th_keywords := sort (request_keywords r)\<rparr>)"
proof -
  have "takeWhile (\<lambda>x. x \<noteq> CHR '']'') (''['' @ i @ '']'' @ r) = ''['' @ i"
    using assms(2) by (simp add: takeWhile_append)
  then have "find_char CHR '']'' (''['' @ i @ '']'' @ r) 0 = Some (Suc (length i))"
    by (simp add: find_char_def Let_def)
  then show ?thesis
    using assms(1)
    by (auto simp: Transaction_init_def clear_def thread_start_def parseKeywords_text
        request_keywords_def keyword_text_def Let_def split: option.splits)
qed

lemma matching_candidates:
  assumes "ads_inv st" and "\<forall>ad \<in> set (objects st). distinct (map bid_keyword (ad_bids ad))"
  shows "set (concat (map (\<lambda>a. set_intersection (ad_bids (objects st ! a)) (sort ks)) (getAdsBySize st key)))
    = Collect (candidate st key ks)"
proof -
  have "set (set_intersection (ad_bids ad) (sort ks)) =
      {b \<in> set (ad_bids ad). bid_keyword b \<in> set ks}" if "ad \<in> set (objects st)" for ad
  proof -
    have "sorted (map bid_keyword (ad_bids ad))"
      using that assms(1) by (auto simp: ads_inv_def ad_ok_def in_set_conv_nth)
    then show ?thesis using that assms(2) by (subst set_intersection_filter) auto
  qed
  moreover have "set (getAdsBySize st key) = {a. a < length (objects st) \<and> ad_sizeKey (objects st ! a) = key}"
    using assms(1) by (auto simp: ads_inv_def simp del: split_paired_All)
  ultimately have "set (concat (map (\<lambda>a. set_intersection (ad_bids (objects st ! a)) (sort ks))
      (getAdsBySize st key))) =
      (\<Union>a \<in> {a. a < length (objects st) \<and> ad_sizeKey (objects st ! a) = key}.
        {b \<in> set (ad_bids (objects st ! a)). bid_keyword b \<in> set ks})"
    by simp
  also have "\<dots> = Collect (candidate st key ks)"
    unfolding candidate_def set_conv_nth [of "objects st"] by blast
  finally show ?thesis .
qed

lemma candidate_lock:
  assumes "ads_inv st" and "candidate st key ks b"
  shows "\<exists>ad \<in> set (objects st). lock st (bid_ad b) = Some ad \<and> b \<in> set (ad_bids ad) \<and> ad_sizeKey ad = key"
proof -
  obtain a where a: "a < length (objects st)" "ad_sizeKey (objects st ! a) = key"
    "b \<in> set (ad_bids (objects st ! a))"
    using assms(2) unfolding candidate_def set_conv_nth [of "objects st"] by blast
  then have "bid_ad b = a" using assms(1) by (auto simp: ads_inv_def ad_ok_def)
  then show ?thesis using a by (auto simp: lock_def)
qed


subsection \<open>Witnesses\<close>

lemma createSizeKey_size_witness: "createSizeKey True ''[3]id=7&size=728x90'' = Inr (728, 90)"
  by (rule createSizeKey_size [of _ 8 _ _ "[]"]) (simp_all add: to_digits.simps digit_char_def char_of_def bit_0)

lemma createSizeKey_alt_witness: "createSizeKey False ''ad_width=300&ad_height=250&x'' = Inr (300, 250)"
  by (rule createSizeKey_alt [of _ 0 _ _ "''&x''"]) (simp_all add: isdigit_def to_digits.simps digit_char_def char_of_def bit_0)

lemma createSizeKey_throws_witness:
  "createSizeKey False ''[3]size=abc'' = Inl (Conversion_Error Invalid_Argument)"
  by (rule createSizeKey_throws [of _ 3]) (simp_all add: isdigit_def)

definition demo_bid :: "string \<Rightarrow> int \<Rightarrow> AdBid" where
  "demo_bid kw money = \<lparr>bid_ad = 0, bid_keyword = kw, bid_money = money\<rparr>"

lemma set_intersection_mset_witness:
  "mset (map bid_keyword (set_intersection [demo_bid ''car'' 120, demo_bid ''ski'' 90] [''boat'', ''car'', ''car''])) =
   {#''car'', ''ski''#} \<inter># {#''boat'', ''car'', ''car''#}"
  using set_intersection_mset [of "[demo_bid ''car'' 120, demo_bid ''ski'' 90]" "[''boat'', ''car'', ''car'']"]
  by (simp add: demo_bid_def)

lemma findWinningBid_max_witness:
  "findWinningBid [demo_bid ''car'' 120, demo_bid ''ski'' 290] \<in> {demo_bid ''car'' 120, demo_bid ''ski'' 290} \<and>
   bid_money (findWinningBid [demo_bid ''car'' 120, demo_bid ''ski'' 290]) \<ge> 290"
  using findWinningBid_max [of "[demo_bid ''car'' 120, demo_bid ''ski'' 290]"]
  by (simp add: fits_int_def demo_bid_def)

definition demo_ad :: Ad where
  "demo_ad = \<lparr>ad_id = ''ad7'', ad_sizeKey = (10, 20), ad_bids = [demo_bid ''car'' 120, demo_bid ''ski'' 90],
     ad_defaultBid = 90, ad_input = [], ad_array = []\<rparr>"

definition demo_ads :: ads where
  "demo_ads = add_ad demo_ad ads_empty"

lemma demo_ads_inv: "ads_inv demo_ads"
  unfolding demo_ads_def
  by (rule ads_inv_add_ad [OF ads_inv_empty]) (simp add: ad_ok_def demo_ad_def demo_bid_def ads_empty_def)

lemma demo_ads_objects: "objects demo_ads = [demo_ad]"
  by (simp add: demo_ads_def add_ad_def ads_empty_def)

lemma processRequestSort_reply_witness:
  "case processRequestSort demo_ads (10, 20) \<lparr>rq_sizeKey = (10, 20), rq_input = ''[1]kw=car''\<rparr> False thread_start of
      Inl e \<Rightarrow> reply demo_ads (10, 20) ''[1]kw=car'' False = Inl e
    | Inr (output, th') \<Rightarrow> reply demo_ads (10, 20) ''[1]kw=car'' False = Inr output \<and> cache_ok demo_ads th'"
  using processRequestSort_reply [OF cache_ok_start, of demo_ads "(10, 20)"
      "\<lparr>rq_sizeKey = (10, 20), rq_input = ''[1]kw=car''\<rparr>" False]
  by (simp only: Request.select_convs)

lemma processRequestNoSort_reply_witness:
  "case processRequestNoSort False demo_ads \<lparr>rq_sizeKey = (10, 20), rq_input = ''size=10x20''\<rparr> False thread_start of
      Inl e \<Rightarrow> reply demo_ads (10, 20) ''size=10x20'' False = Inl e
    | Inr (output, th') \<Rightarrow> reply demo_ads (10, 20) ''size=10x20'' False = Inr output \<and> cache_ok demo_ads th'"
proof -
  have key: "createSizeKey False ''size=10x20'' = Inr (10, 20)"
    by (rule createSizeKey_reads [of _ 0 _ _ "[]"]) (simp_all add: to_digits.simps digit_char_def char_of_def bit_0)
  show ?thesis
    using processRequestNoSort_reply [OF cache_ok_start, of False
        "\<lparr>rq_sizeKey = (10, 20), rq_input = ''size=10x20''\<rparr>" demo_ads False] key
    by (simp only: Request.select_convs)
qed


end
