(* ===== verification/Policies.thy ===== *)
theory Policies
  imports Transactions
begin

section \<open>Policies (policy/)\<close>

text \<open>
  The policy of the server decides how a request is answered: by the echo of its text or by a
  transaction, with the requests of a batch sorted by size or not. It is chosen by an option
  and called through a pointer to the base class; here it is the function \<open>policy_call\<close>.

  The locale \<open>request_policy\<close> is what the scheduler needs of a policy: on a request that was
  preprocessed the answer is a function of the size, the text and the diagnostics flag, whatever
  thread runs it and whatever the thread did before. The three policies interpret it.
\<close>

datatype POLICYENUM = SORTINPUT | NOSORTINPUT | ECHOPOLICY | NOPOLICY

definition policy_fromString :: "string \<Rightarrow> POLICYENUM" where
  "policy_fromString name =
     (if name = ''SORTINPUT'' then SORTINPUT
      else if name = ''NOSORTINPUT'' then NOSORTINPUT
      else if name = ''ECHO'' then ECHOPOLICY
      else NOPOLICY)"

fun policy_toString :: "POLICYENUM \<Rightarrow> string" where
  "policy_toString SORTINPUT = ''SORTINPUT''"
| "policy_toString NOSORTINPUT = ''NOSORTINPUT''"
| "policy_toString ECHOPOLICY = ''ECHO''"
| "policy_toString NOPOLICY = ''Unknown''"

lemma policy_fromString_toString [simp]: "policy_fromString (policy_toString p) = p"
  by (cases p) (simp_all add: policy_fromString_def)

subsection \<open>Echo\<close>

text \<open>
  The identifier \<open>[digits]\<close> at the start of a line; the expression is searched for, and \<open>^\<close>
  matches at the start of the text and behind a line separator. The number of characters that
  matched is removed from the front of the text.
\<close>

definition id_here :: "string \<Rightarrow> nat option" where
  "id_here s =
     (let ds = takeWhile isdigit (tl s)
      in if starts_with s ''['' \<and> ds \<noteq> [] \<and> starts_with (dropWhile isdigit (tl s)) '']''
         then Some (length ds + 2) else None)"

definition line_separator :: "char \<Rightarrow> bool" where
  "line_separator c \<longleftrightarrow> c = CHR 0x0A \<or> c = CHR 0x0D \<or> c = CHR 0x0C"

fun id_search :: "bool \<Rightarrow> string \<Rightarrow> nat option" where
  "id_search at_start [] = None"
| "id_search at_start (c # s) =
     (case (if at_start then id_here (c # s) else None) of
        Some n \<Rightarrow> Some n
      | None \<Rightarrow> id_search (line_separator c \<and> \<not> (c = CHR 0x0D \<and> starts_with s [CHR 0x0A])) s)"

definition EchoPolicy :: "Request \<Rightarrow> bool \<Rightarrow> string" where
  "EchoPolicy request diagnostics =
     (let buffer = rq_input request @ [CHR 0x0A] in
      case id_search True buffer of
        None \<Rightarrow> buffer
      | Some n \<Rightarrow> drop n buffer)"

lemma id_here_id:
  assumes "ds \<noteq> []" and "\<forall>c \<in> set ds. isdigit c"
  shows "id_here (''['' @ ds @ '']'' @ s) = Some (length ds + 2)"
proof -
  have "takeWhile isdigit (ds @ '']'' @ s) = ds" "dropWhile isdigit (ds @ '']'' @ s) = '']'' @ s"
    using takeWhile_digits [of ds "'']'' @ s"] assms(2) by (auto simp: isdigit_def)
  then show ?thesis using assms(1) by (simp add: id_here_def Let_def)
qed

text \<open>The echo of a request is its text without the identifier.\<close>

lemma EchoPolicy_id:
  assumes "rq_input rq = ''['' @ to_digits n @ '']'' @ s"
  shows "EchoPolicy rq d = s @ [CHR 0x0A]"
  using id_here_id [of "to_digits n" "s @ [CHR 0x0A]"] to_digits_isdigit assms
  by (simp add: EchoPolicy_def Let_def)

subsection \<open>The call of the policy\<close>

text \<open>
  What the policies read besides the request: the option \<open>_useRegex\<close> and the ads. A server
  without a policy fails the assertion of \<open>processNext\<close>.
\<close>

record server_env =
  env_policy :: POLICYENUM
  env_useRegex :: bool
  env_ads :: ads

definition SortInputPolicy ::
  "ads \<Rightarrow> Request \<Rightarrow> bool \<Rightarrow> thread_state \<Rightarrow> (string \<times> thread_state) result" where
  "SortInputPolicy st request diagnostics th =
     processRequestSort st (rq_sizeKey request) request diagnostics th"

definition NoSortInputPolicy ::
  "bool \<Rightarrow> ads \<Rightarrow> Request \<Rightarrow> bool \<Rightarrow> thread_state \<Rightarrow> (string \<times> thread_state) result" where
  "NoSortInputPolicy useRegex st request diagnostics th =
     processRequestNoSort useRegex st request diagnostics th"

definition policy_call ::
  "server_env \<Rightarrow> Request \<Rightarrow> bool \<Rightarrow> thread_state \<Rightarrow> (string \<times> thread_state) result" where
  "policy_call env request diagnostics th =
     (case env_policy env of
        SORTINPUT \<Rightarrow> SortInputPolicy (env_ads env) request diagnostics th
      | NOSORTINPUT \<Rightarrow> NoSortInputPolicy (env_useRegex env) (env_ads env) request diagnostics th
      | ECHOPOLICY \<Rightarrow> Inr (EchoPolicy request diagnostics, th)
      | NOPOLICY \<Rightarrow> Inl Assertion_Failed)"

text \<open>\<open>Server::setPolicy\<close>; the second argument is the array of the reader.\<close>

definition setPolicy :: "POLICYENUM \<Rightarrow> bool \<Rightarrow> string \<Rightarrow> string \<Rightarrow> server_env result" where
  "setPolicy policyEnum useRegex array adsFile =
     (case policyEnum of
        NOPOLICY \<Rightarrow> Inl (Runtime_Error ''non-existent policy'')
      | ECHOPOLICY \<Rightarrow>
          Inr \<lparr>env_policy = ECHOPOLICY, env_useRegex = useRegex, env_ads = ads_empty\<rparr>
      | _ \<Rightarrow>
          bindE (readAds array adsFile ads_empty) (\<lambda>st.
            Inr \<lparr>env_policy = policyEnum, env_useRegex = useRegex, env_ads = st\<rparr>))"

lemma setPolicy_ads_inv: "setPolicy p rx array file = Inr env \<Longrightarrow> ads_inv (env_ads env)"
  by (cases p) (auto simp: setPolicy_def bindE_Inr_iff dest: readAds_keeps)

lemma setPolicy_policy: "setPolicy p rx array file = Inr env \<Longrightarrow> env_policy env = p \<and> p \<noteq> NOPOLICY"
  by (cases p) (auto simp: setPolicy_def bindE_Inr_iff)

subsection \<open>The contract of a policy\<close>

locale request_policy =
  fixes pre :: "string \<Rightarrow> size_key result"
    and call :: "Request \<Rightarrow> bool \<Rightarrow> thread_state \<Rightarrow> (string \<times> thread_state) result"
    and thread_ok :: "thread_state \<Rightarrow> bool"
    and answer_of :: "size_key \<Rightarrow> string \<Rightarrow> bool \<Rightarrow> string result"
  assumes start_ok: "thread_ok thread_start"
    and call_answer: "thread_ok th \<Longrightarrow> pre (rq_input rq) = Inr (rq_sizeKey rq) \<Longrightarrow>
      case call rq d th of
        Inl e \<Rightarrow> answer_of (rq_sizeKey rq) (rq_input rq) d = Inl e
      | Inr (output, th') \<Rightarrow> answer_of (rq_sizeKey rq) (rq_input rq) d = Inr output \<and> thread_ok th'"
begin

lemma call_Inr:
  assumes "thread_ok th" and "pre (rq_input rq) = Inr (rq_sizeKey rq)"
    and "call rq d th = Inr (output, th')"
  shows "answer_of (rq_sizeKey rq) (rq_input rq) d = Inr output" and "thread_ok th'"
  using call_answer [OF assms(1,2), of d] assms(3) by simp_all

end

definition policy_answer :: "server_env \<Rightarrow> size_key \<Rightarrow> string \<Rightarrow> bool \<Rightarrow> string result" where
  "policy_answer env key input d =
     (case env_policy env of
        SORTINPUT \<Rightarrow> reply (env_ads env) key input d
      | NOSORTINPUT \<Rightarrow> reply (env_ads env) key input d
      | ECHOPOLICY \<Rightarrow> Inr (EchoPolicy \<lparr>rq_sizeKey = key, rq_input = input\<rparr> d)
      | NOPOLICY \<Rightarrow> Inl Assertion_Failed)"

interpretation sort_policy:
  request_policy "createSizeKey rx" "SortInputPolicy st" "cache_ok st" "reply st" for rx st
  by unfold_locales
    (simp, use sort_reply_aux in \<open>simp add: SortInputPolicy_def\<close>)

interpretation no_sort_policy:
  request_policy "createSizeKey rx" "NoSortInputPolicy rx st" "cache_ok st" "reply st" for rx st
  by unfold_locales
    (simp, use no_sort_reply_aux in \<open>simp add: NoSortInputPolicy_def\<close>)

lemma EchoPolicy_input: "EchoPolicy rq d = EchoPolicy \<lparr>rq_sizeKey = k, rq_input = rq_input rq\<rparr> d"
  by (simp add: EchoPolicy_def)

interpretation server_policy:
  request_policy "createSizeKey (env_useRegex env)" "policy_call env" "cache_ok (env_ads env)"
    "policy_answer env" for env
proof (unfold_locales, simp)
  fix th :: thread_state and rq :: Request and d
  assume "cache_ok (env_ads env) th" "createSizeKey (env_useRegex env) (rq_input rq) = Inr (rq_sizeKey rq)"
  then show "case policy_call env rq d th of
        Inl e \<Rightarrow> policy_answer env (rq_sizeKey rq) (rq_input rq) d = Inl e
      | Inr (output, th') \<Rightarrow>
          policy_answer env (rq_sizeKey rq) (rq_input rq) d = Inr output \<and> cache_ok (env_ads env) th'"
    using sort_policy.call_answer [of "env_ads env" th "env_useRegex env" rq d]
      no_sort_policy.call_answer [of "env_ads env" th "env_useRegex env" rq d]
      EchoPolicy_input [of rq d]
    by (cases "env_policy env") (auto simp: policy_call_def policy_answer_def split: sum.splits)
qed

end
