(* ===== verification/Tasks.thy ===== *)
theory Tasks
  imports Policies Headers
begin

section \<open>Tasks (Task)\<close>

text \<open>
  A task is a batch of requests with the vector of its responses. The worker threads share its
  index: \<open>fetch_add\<close> hands out every position once. \<open>preprocessNext\<close> and \<open>processNext\<close> are here
  cut at their atomic accesses: fetch an index, do the work of it, check whether to go on.
  \<open>promised\<close> tells whether the promise of the task has its value.
\<close>

record Task =
  t_requests :: "Request list"
  t_size :: nat
  t_sortedIndices :: "nat list"
  t_response :: "string list"
  t_promised :: bool
  t_index :: nat
  t_diagnostics :: bool

definition Task_new :: Task where
  "Task_new = \<lparr>t_requests = [], t_size = 0, t_sortedIndices = [], t_response = [],
     t_promised = False, t_index = 0, t_diagnostics = False\<rparr>"

text \<open>\<open>vector::resize\<close> keeps the elements it can.\<close>

definition vector_resize :: "'a list \<Rightarrow> nat \<Rightarrow> 'a \<Rightarrow> 'a list" where
  "vector_resize xs n x = take n xs @ replicate (n - length xs) x"

definition task_update :: "bool \<Rightarrow> HEADER \<Rightarrow> string \<Rightarrow> Task \<Rightarrow> Task" where
  "task_update sorting header request t =
     (let t = t\<lparr>t_promised := False, t_diagnostics := isDiagnosticsEnabled header\<rparr>;
          (requests, size) =
            splitReuseVector Request_assign Request_fresh request (t_requests t) (CHR 0x0A) 0;
          t = t\<lparr>t_requests := requests, t_size := size\<rparr>;
          t = (if sorting then t\<lparr>t_sortedIndices := [0..<size]\<rparr> else t)
      in t\<lparr>t_response := vector_resize (t_response t) size []\<rparr>)"

text \<open>
  \<open>std::sort\<close> of the indices by size: some sorted arrangement of them. \<open>sortIndices\<close> is the
  one that keeps equal sizes in order.
\<close>

definition key_of :: "Task \<Rightarrow> nat \<Rightarrow> size_key" where
  "key_of t i = rq_sizeKey (t_requests t ! i)"

definition sorts_indices :: "Task \<Rightarrow> nat list \<Rightarrow> bool" where
  "sorts_indices t xs \<longleftrightarrow> mset xs = mset (t_sortedIndices t) \<and> sorted (map (key_of t) xs)"

definition sortIndices :: "Task \<Rightarrow> Task" where
  "sortIndices t = t\<lparr>t_sortedIndices := sort_key (key_of t) (t_sortedIndices t)\<rparr>"

lemma sortIndices_sorts: "sorts_indices t (t_sortedIndices (sortIndices t))"
  by (simp add: sorts_indices_def sortIndices_def)

definition resetIndex :: "Task \<Rightarrow> Task" where
  "resetIndex t = t\<lparr>t_index := 0\<rparr>"

text \<open>\<open>_index.fetch_add(1)\<close>, and the check \<open>_index < _size\<close> at the end of both functions.\<close>

definition fetch_add :: "Task \<Rightarrow> nat \<times> Task" where
  "fetch_add t = (t_index t, t\<lparr>t_index := t_index t + 1\<rparr>)"

definition more_work :: "Task \<Rightarrow> bool" where
  "more_work t = (t_index t < t_size t)"

definition preprocess :: "(string \<Rightarrow> size_key result) \<Rightarrow> nat \<Rightarrow> Task \<Rightarrow> Task result" where
  "preprocess createKey index t =
     (if index < t_size t then
        bindE (createKey (rq_input (t_requests t ! index))) (\<lambda>key.
          Inr (t\<lparr>t_requests := (t_requests t)[index := (t_requests t ! index)\<lparr>rq_sizeKey := key\<rparr>]\<rparr>))
      else Inr t)"

definition process ::
  "(Request \<Rightarrow> bool \<Rightarrow> thread_state \<Rightarrow> (string \<times> thread_state) result) \<Rightarrow> bool \<Rightarrow> nat \<Rightarrow>
   Task \<Rightarrow> thread_state \<Rightarrow> (Task \<times> thread_state) result" where
  "process policy sorting index t th =
     (if index < t_size t then
        let orgIndex = (if sorting then t_sortedIndices t ! index else index) in
        bindE (policy (t_requests t ! orgIndex) (t_diagnostics t) th) (\<lambda>(output, th).
          Inr (t\<lparr>t_response := (t_response t)[orgIndex := output]\<rparr>, th))
      else Inr (t, th))"

text \<open>\<open>set_value\<close> throws when the promise has its value.\<close>

definition finish :: "Task \<Rightarrow> Task result" where
  "finish t = (if t_promised t then Inl (Runtime_Error ''promise_already_satisfied'')
     else Inr (t\<lparr>t_promised := True\<rparr>))"

text \<open>One call of each by a thread that is not interrupted.\<close>

definition preprocessNext :: "(string \<Rightarrow> size_key result) \<Rightarrow> Task \<Rightarrow> (Task \<times> bool) result" where
  "preprocessNext createKey t =
     (let (index, t) = fetch_add t in
      bindE (preprocess createKey index t) (\<lambda>t. Inr (t, more_work t)))"

definition processNext ::
  "(Request \<Rightarrow> bool \<Rightarrow> thread_state \<Rightarrow> (string \<times> thread_state) result) \<Rightarrow> bool \<Rightarrow>
   Task \<Rightarrow> thread_state \<Rightarrow> (Task \<times> thread_state \<times> bool) result" where
  "processNext policy sorting t th =
     (let (index, t) = fetch_add t in
      bindE (process policy sorting index t th) (\<lambda>(t, th). Inr (t, th, more_work t)))"

subsection \<open>A task that is ready for the workers\<close>

definition input_of :: "Task \<Rightarrow> nat \<Rightarrow> string" where
  "input_of t i = rq_input (t_requests t ! i)"

text \<open>What stays the same while a task is worked on.\<close>

definition batch :: "Task \<Rightarrow> string list \<times> bool" where
  "batch t = (map (input_of t) [0..<t_size t], t_diagnostics t)"

definition task_wf :: "bool \<Rightarrow> Task \<Rightarrow> bool" where
  "task_wf sorting t \<longleftrightarrow> t_size t \<le> length (t_requests t) \<and> length (t_response t) = t_size t \<and>
     (sorting \<longrightarrow> mset (t_sortedIndices t) = mset [0..<t_size t])"

lemma task_wf_new [simp]: "task_wf sorting Task_new"
  by (simp add: task_wf_def Task_new_def)

text \<open>
  The index in the batch behind a position: the positions are a permutation of the requests.
\<close>

definition order_of :: "bool \<Rightarrow> Task \<Rightarrow> nat \<Rightarrow> nat" where
  "order_of sorting t i = (if sorting then t_sortedIndices t ! i else i)"

lemma length_sortedIndices: "task_wf True t \<Longrightarrow> length (t_sortedIndices t) = t_size t"
  unfolding task_wf_def by (metis length_upt minus_nat.diff_0 size_mset)

lemma order_of_perm:
  assumes "task_wf sorting t"
  shows "order_of sorting t ` {..<t_size t} = {..<t_size t}" and "inj_on (order_of sorting t) {..<t_size t}"
proof -
  have "order_of sorting t ` {..<t_size t} = {..<t_size t} \<and> inj_on (order_of sorting t) {..<t_size t}"
  proof (cases sorting)
    case True
    then have len: "length (t_sortedIndices t) = t_size t" using assms length_sortedIndices by simp
    have "mset (t_sortedIndices t) = mset [0..<t_size t]" using True assms by (simp add: task_wf_def)
    then have "set (t_sortedIndices t) = {..<t_size t}" "distinct (t_sortedIndices t)"
      using mset_eq_setD mset_eq_imp_distinct_iff by (fastforce, metis distinct_upt)
    then show ?thesis
      using True len by (auto simp: order_of_def set_conv_nth inj_on_def distinct_conv_nth)
  qed (auto simp: order_of_def inj_on_def)
  then show "order_of sorting t ` {..<t_size t} = {..<t_size t}"
    "inj_on (order_of sorting t) {..<t_size t}" by simp_all
qed

lemma order_of_less: "task_wf sorting t \<Longrightarrow> i < t_size t \<Longrightarrow> order_of sorting t i < t_size t"
  using order_of_perm(1) [of sorting t] by blast

lemma task_update_batch_facts:
  assumes "t' = task_update sorting header request t"
  shows "task_wf sorting t'" and "\<not> t_promised t'"
    and "batch t' = (take (count_list request (CHR 0x0A)) (rows_of (CHR 0x0A) False request),
      isDiagnosticsEnabled header)"
proof -
  let ?nl = "CHR 0x0A"
  obtain requests n where run:
    "splitReuseVector Request_assign Request_fresh request (t_requests t) ?nl 0 = (requests, n)"
    by force
  have t': "t' = t\<lparr>t_promised := False, t_diagnostics := isDiagnosticsEnabled header,
      t_requests := requests, t_size := n,
      t_sortedIndices := (if sorting then [0..<n] else t_sortedIndices t),
      t_response := vector_resize (t_response t) n []\<rparr>"
    using assms run by (simp add: task_update_def Let_def)
  note spec = splitReuseVector_spec [OF run]
  show "task_wf sorting t'"
    using spec(2) by (simp add: t' task_wf_def vector_resize_def)
  show "\<not> t_promised t'" by (simp add: t')
  have "map (input_of t') [0..<n] = take n (rows_of ?nl False request)"
  proof (rule nth_equalityI)
    have "n \<le> length (rows_of ?nl False request)"
      using spec(1) rows_of_length [of ?nl False request] by simp
    then show "length (map (input_of t') [0..<n]) = length (take n (rows_of ?nl False request))"
      by simp
    show "map (input_of t') [0..<n] ! i = take n (rows_of ?nl False request) ! i"
      if "i < length (map (input_of t') [0..<n])" for i
      using that spec(3) [of i] by (simp add: t' input_of_def Request_assign_def)
  qed
  then show "batch t' = (take (count_list request ?nl) (rows_of ?nl False request),
      isDiagnosticsEnabled header)"
    using spec(1) by (simp add: batch_def t' input_of_def [abs_def])
qed

text \<open>
  After an update the batch is the terminated rows of the text, whatever the task held before;
  a last row without its delimiter is not a request.
\<close>

theorem task_update_batch:
  "task_wf sorting (task_update sorting header request t) \<and>
   \<not> t_promised (task_update sorting header request t) \<and>
   batch (task_update sorting header request t) =
     (take (count_list request (CHR 0x0A)) (rows_of (CHR 0x0A) False request), isDiagnosticsEnabled header)"
  using task_update_batch_facts [OF refl] by blast

end
