(* ===== verification/Task_Controller.thy ===== *)
theory Task_Controller
  imports Tasks
begin

section \<open>The task controller (TaskController)\<close>

text \<open>
  One task at a time is worked on by all worker threads, in two phases: every request is
  preprocessed, then every request is answered. At the end of a phase the workers meet at a
  barrier, whose completion function sorts the indices, or finishes the task and waits for the
  next one in the queue.

  The state holds the task, the queue, the phase and, for every worker, its position in
  \<open>Worker::run\<close> and its thread-local data. A step of the relation \<open>ctl_step\<close> is one atomic
  access of one worker, the completion of a barrier, the push of a task by a session
  (\<open>processTask\<close>) or the stop of the server; the workers interleave in any order. An exception
  in a worker ends the process, since \<open>run\<close> is \<open>noexcept\<close>. Two logs that the code does not
  keep, the tasks pushed and the tasks finished, are there to state what happens to them.
\<close>

datatype Phase = PREPROCESSTASK | PROCESSTASK

text \<open>
  Where a worker is: at the condition of its outer loop, before and after it fetched an index,
  at the check that ends \<open>preprocessNext\<close> or \<open>processNext\<close>, waiting at the barrier, or returned.
\<close>

datatype worker_pc = Loop | Fetch | Work nat | Check | Arrived | Done

record worker =
  w_pc :: worker_pc
  w_thread :: thread_state

record ctl =
  c_workers :: "worker list"
  c_task :: Task
  c_queue :: "Task list"
  c_phase :: Phase
  c_waiting :: bool
  c_stopped :: bool
  c_halted :: bool
  c_crashed :: "exn option"
  c_pushed :: "Task list"
  c_finished :: "Task list"

text \<open>What the workers call: the preprocessing, the policy, and whether the policy sorts.\<close>

record service =
  s_create_key :: "string \<Rightarrow> size_key result"
  s_policy :: "Request \<Rightarrow> bool \<Rightarrow> thread_state \<Rightarrow> (string \<times> thread_state) result"
  s_sorting :: bool

definition ctl_start :: "nat \<Rightarrow> ctl" where
  "ctl_start numberWorkThreads =
     \<lparr>c_workers = replicate numberWorkThreads \<lparr>w_pc = Loop, w_thread = thread_start\<rparr>,
      c_task = Task_new, c_queue = [], c_phase = PREPROCESSTASK, c_waiting = False,
      c_stopped = False, c_halted = False, c_crashed = None, c_pushed = [], c_finished = []\<rparr>"

definition set_worker :: "nat \<Rightarrow> worker_pc \<Rightarrow> ctl \<Rightarrow> ctl" where
  "set_worker w pc c = c\<lparr>c_workers := (c_workers c)[w := (c_workers c ! w)\<lparr>w_pc := pc\<rparr>]\<rparr>"

text \<open>The work on the fetched index, by the phase.\<close>

definition work :: "service \<Rightarrow> nat \<Rightarrow> nat \<Rightarrow> ctl \<Rightarrow> ctl" where
  "work s w index c =
     (case c_phase c of
        PREPROCESSTASK \<Rightarrow>
          (case preprocess (s_create_key s) index (c_task c) of
             Inl e \<Rightarrow> c\<lparr>c_crashed := Some e\<rparr>
           | Inr t \<Rightarrow> set_worker w Check (c\<lparr>c_task := t\<rparr>))
      | PROCESSTASK \<Rightarrow>
          (case process (s_policy s) (s_sorting s) index (c_task c) (w_thread (c_workers c ! w)) of
             Inl e \<Rightarrow> c\<lparr>c_crashed := Some e\<rparr>
           | Inr (t, th) \<Rightarrow>
               c\<lparr>c_task := t, c_workers := (c_workers c)[w := \<lparr>w_pc = Check, w_thread = th\<rparr>]\<rparr>))"

text \<open>One atomic step of a worker; at the barrier and after its return it has none.\<close>

definition worker_step :: "service \<Rightarrow> nat \<Rightarrow> ctl \<Rightarrow> ctl option" where
  "worker_step s w c =
     (case w_pc (c_workers c ! w) of
        Loop \<Rightarrow> Some (set_worker w (if c_stopped c then Done else Fetch) c)
      | Fetch \<Rightarrow>
          (case fetch_add (c_task c) of
             (index, t) \<Rightarrow> Some (set_worker w (Work index) (c\<lparr>c_task := t\<rparr>)))
      | Work index \<Rightarrow> Some (work s w index c)
      | Check \<Rightarrow> Some (set_worker w (if more_work (c_task c) then Fetch else Arrived) c)
      | Arrived \<Rightarrow> None
      | Done \<Rightarrow> None)"

definition release :: "ctl \<Rightarrow> ctl" where
  "release c = c\<lparr>c_workers := map (\<lambda>wk. wk\<lparr>w_pc := Loop\<rparr>) (c_workers c)\<rparr>"

definition all_arrived :: "ctl \<Rightarrow> bool" where
  "all_arrived c \<longleftrightarrow> (\<forall>wk \<in> set (c_workers c). w_pc wk = Arrived)"

text \<open>
  \<open>onCompletion\<close>, called when all workers have arrived. In the second phase the task is finished
  first; \<open>setNextTask\<close> then blocks until there is a task or a stop, so it is a step of its own.
  The indices are sorted in the order \<open>sorted\<close>.
\<close>

definition complete_preprocess :: "nat list \<Rightarrow> ctl \<Rightarrow> ctl" where
  "complete_preprocess ordered c =
     release (c\<lparr>c_task := resetIndex ((c_task c)\<lparr>t_sortedIndices := ordered\<rparr>),
                c_phase := PROCESSTASK\<rparr>)"

definition complete_process :: "ctl \<Rightarrow> ctl" where
  "complete_process c =
     (case finish (c_task c) of
        Inl e \<Rightarrow> c\<lparr>c_crashed := Some e\<rparr>
      | Inr t \<Rightarrow> c\<lparr>c_task := t, c_waiting := True, c_finished := c_finished c @ [t]\<rparr>)"

definition setNextTask :: "ctl \<Rightarrow> ctl option" where
  "setNextTask c =
     (if c_stopped c then Some (c\<lparr>c_halted := True\<rparr>)
      else case c_queue c of
          [] \<Rightarrow> None
        | t # q \<Rightarrow> Some (c\<lparr>c_task := t, c_queue := q\<rparr>))"

definition next_task :: "ctl \<Rightarrow> ctl option" where
  "next_task c =
     map_option (\<lambda>c. release (c\<lparr>c_task := resetIndex (c_task c), c_phase := PREPROCESSTASK,
                                c_waiting := False\<rparr>)) (setNextTask c)"

definition ctl_push :: "Task \<Rightarrow> ctl \<Rightarrow> ctl" where
  "ctl_push t c = c\<lparr>c_queue := c_queue c @ [t], c_pushed := c_pushed c @ [t]\<rparr>"

definition ctl_stop :: "ctl \<Rightarrow> ctl" where
  "ctl_stop c = c\<lparr>c_stopped := True\<rparr>"

text \<open>The steps of the controller and its workers.\<close>

inductive ctl_internal :: "service \<Rightarrow> ctl \<Rightarrow> ctl \<Rightarrow> bool" for s where
  worker: "c_crashed c = None \<Longrightarrow> \<not> c_waiting c \<Longrightarrow> w < length (c_workers c) \<Longrightarrow>
    worker_step s w c = Some c' \<Longrightarrow> ctl_internal s c c'"
| preprocessed: "c_crashed c = None \<Longrightarrow> \<not> c_waiting c \<Longrightarrow> all_arrived c \<Longrightarrow>
    c_phase c = PREPROCESSTASK \<Longrightarrow> sorts_indices (c_task c) ordered \<Longrightarrow>
    ctl_internal s c (complete_preprocess ordered c)"
| processed: "c_crashed c = None \<Longrightarrow> \<not> c_waiting c \<Longrightarrow> all_arrived c \<Longrightarrow>
    c_phase c = PROCESSTASK \<Longrightarrow> ctl_internal s c (complete_process c)"
| next_task: "c_crashed c = None \<Longrightarrow> c_waiting c \<Longrightarrow> next_task c = Some c' \<Longrightarrow> ctl_internal s c c'"

text \<open>
  Sessions push tasks that they have updated; the server stops once. Both can happen at any time.
\<close>

inductive ctl_step :: "service \<Rightarrow> ctl \<Rightarrow> ctl \<Rightarrow> bool" for s where
  internal: "ctl_internal s c c' \<Longrightarrow> ctl_step s c c'"
| push: "task_wf (s_sorting s) t \<Longrightarrow> \<not> t_promised t \<Longrightarrow> ctl_step s c (ctl_push t c)"
| stop: "ctl_step s c (ctl_stop c)"

inductive ctl_reach :: "service \<Rightarrow> nat \<Rightarrow> ctl \<Rightarrow> bool" for s n where
  start: "ctl_reach s n (ctl_start n)"
| step: "ctl_reach s n c \<Longrightarrow> ctl_step s c c' \<Longrightarrow> ctl_reach s n c'"

inductive_cases ctl_internalE: "ctl_internal s c c'"
inductive_cases ctl_stepE: "ctl_step s c c'"
inductive_simps ctl_step_iff: "ctl_step s c c'"

subsection \<open>Termination\<close>

text \<open>
  A step of a worker brings the phase closer to its end. The weight of a check depends on its
  outcome; a fetch below the size is paid for by the index.
\<close>

fun pc_weight :: "bool \<Rightarrow> worker_pc \<Rightarrow> nat" where
  "pc_weight more_left Loop = 6"
| "pc_weight more_left Fetch = 3"
| "pc_weight more_left (Work i) = (if more_left then 5 else 2)"
| "pc_weight more_left Check = (if more_left then 4 else 1)"
| "pc_weight more_left Arrived = 0"
| "pc_weight more_left Done = 0"

definition phase_left :: "ctl \<Rightarrow> nat" where
  "phase_left c = 4 * (t_size (c_task c) - t_index (c_task c)) +
     (\<Sum>wk \<leftarrow> c_workers c. pc_weight (more_work (c_task c)) (w_pc wk))"

definition stage :: "ctl \<Rightarrow> nat" where
  "stage c = (if c_crashed c \<noteq> None then 0
     else if c_halted c then 1
     else if c_waiting c then 2
     else case c_phase c of PROCESSTASK \<Rightarrow> 3 | PREPROCESSTASK \<Rightarrow> 4)"

definition ctl_measure :: "(ctl \<times> ctl) set" where
  "ctl_measure = measures [\<lambda>c. length (c_queue c), stage, phase_left]"

lemma sum_list_update_less:
  fixes f g :: "'a \<Rightarrow> nat"
  assumes "i < length xs" and "g y + k < f (xs ! i) + k'"
    and "\<And>x. x \<in> set xs \<Longrightarrow> g x \<le> f x"
  shows "sum_list (map g (xs[i := y])) + k < sum_list (map f xs) + k'"
proof -
  let ?a = "take i xs" and ?b = "drop (Suc i) xs"
  have "xs = ?a @ xs ! i # ?b" using assms(1) by (rule id_take_nth_drop)
  then have 1: "sum_list (map f xs) = sum_list (map f ?a) + (f (xs ! i) + sum_list (map f ?b))"
    by (metis list.simps(9) map_append sum_list.Cons sum_list.append)
  have 2: "sum_list (map g (xs[i := y])) = sum_list (map g ?a) + (g y + sum_list (map g ?b))"
    using assms(1) by (simp add: upd_conv_take_nth_drop)
  have "sum_list (map g zs) \<le> sum_list (map f zs)" if "set zs \<subseteq> set xs" for zs
    using that assms(3) by (intro sum_list_mono) auto
  from this [OF set_take_subset] this [OF set_drop_subset]
  have "sum_list (map g ?a) \<le> sum_list (map f ?a)" "sum_list (map g ?b) \<le> sum_list (map f ?b)" .
  then show ?thesis unfolding 1 2 using assms(2) by linarith
qed

lemma pc_weight_mono: "(m \<longrightarrow> m') \<Longrightarrow> pc_weight m pc \<le> pc_weight m' pc"
  by (cases pc) auto

lemma phase_left_set_worker:
  assumes "w < length (c_workers c)"
    and "pc_weight (more_work (c_task c)) pc < pc_weight (more_work (c_task c)) (w_pc (c_workers c ! w))"
  shows "phase_left (set_worker w pc c) < phase_left c"
  using sum_list_update_less [where i = w and xs = "c_workers c" and k = 0 and k' = 0 and
      f = "\<lambda>wk. pc_weight (more_work (c_task c)) (w_pc wk)" and
      g = "\<lambda>wk. pc_weight (more_work (c_task c)) (w_pc wk)"] assms
  by (simp add: phase_left_def set_worker_def)

lemma preprocess_same:
  "preprocess ck i t = Inr t' \<Longrightarrow> t_size t' = t_size t \<and> t_index t' = t_index t"
  by (auto simp: preprocess_def bindE_Inr_iff split: if_splits)

lemma process_same:
  "process pol so i t th = Inr (t', th') \<Longrightarrow> t_size t' = t_size t \<and> t_index t' = t_index t"
  by (auto simp: process_def bindE_Inr_iff Let_def split: if_splits)

text \<open>Every step of a worker decreases the measure.\<close>

lemma worker_step_less:
  assumes "worker_step s w c = Some c'" and "w < length (c_workers c)" and "c_crashed c = None"
    and "c_crashed c' = None"
  shows "phase_left c' < phase_left c"
proof (cases "w_pc (c_workers c ! w)")
  case Loop
  then show ?thesis using assms phase_left_set_worker [of w c] by (auto simp: worker_step_def)
next
  case Fetch
  let ?t = "c_task c"
  let ?m = "more_work ?t" and ?m' = "more_work (?t\<lparr>t_index := t_index ?t + 1\<rparr>)"
  have c': "c' = set_worker w (Work (t_index ?t)) (c\<lparr>c_task := ?t\<lparr>t_index := t_index ?t + 1\<rparr>\<rparr>)"
    using assms(1) Fetch by (simp add: worker_step_def fetch_add_def)
  have "sum_list (map (\<lambda>wk. pc_weight ?m' (w_pc wk))
        ((c_workers c)[w := (c_workers c ! w)\<lparr>w_pc := Work (t_index ?t)\<rparr>]))
      + 4 * (t_size ?t - (t_index ?t + 1))
    < sum_list (map (\<lambda>wk. pc_weight ?m (w_pc wk)) (c_workers c)) + 4 * (t_size ?t - t_index ?t)"
    using assms(2) Fetch
    by (intro sum_list_update_less) (auto simp: more_work_def intro: pc_weight_mono)
  then show ?thesis by (simp add: c' phase_left_def set_worker_def add.commute)
next
  case (Work i)
  then show ?thesis
  proof (cases "c_phase c")
    case PREPROCESSTASK
    then obtain t where t: "preprocess (s_create_key s) i (c_task c) = Inr t"
      "c' = set_worker w Check (c\<lparr>c_task := t\<rparr>)"
      using assms Work by (auto simp: worker_step_def work_def split: sum.splits)
    have "phase_left (set_worker w Check (c\<lparr>c_task := t\<rparr>)) < phase_left (c\<lparr>c_task := t\<rparr>)"
      using assms(2) Work by (intro phase_left_set_worker) auto
    also have "phase_left (c\<lparr>c_task := t\<rparr>) = phase_left c"
      using preprocess_same [OF t(1)] by (simp add: phase_left_def more_work_def)
    finally show ?thesis using t(2) by simp
  next
    case PROCESSTASK
    then obtain t th where t:
      "process (s_policy s) (s_sorting s) i (c_task c) (w_thread (c_workers c ! w)) = Inr (t, th)"
      "c' = c\<lparr>c_task := t, c_workers := (c_workers c)[w := \<lparr>w_pc = Check, w_thread = th\<rparr>]\<rparr>"
      using assms Work by (auto simp: worker_step_def work_def split: sum.splits)
    have "sum_list (map (\<lambda>wk. pc_weight (more_work (c_task c)) (w_pc wk))
          ((c_workers c)[w := \<lparr>w_pc = Check, w_thread = th\<rparr>])) + 0
        < sum_list (map (\<lambda>wk. pc_weight (more_work (c_task c)) (w_pc wk)) (c_workers c)) + 0"
      using assms(2) Work by (intro sum_list_update_less) auto
    then show ?thesis
      using process_same [OF t(1)] by (simp add: t(2) phase_left_def more_work_def)
  qed
next
  case Check
  then show ?thesis using assms phase_left_set_worker [of w c] by (auto simp: worker_step_def)
next
  case Arrived
  then show ?thesis using assms by (simp add: worker_step_def)
next
  case Done
  then show ?thesis using assms by (simp add: worker_step_def)
qed

subsection \<open>The invariant\<close>

abbreviation pc :: "ctl \<Rightarrow> nat \<Rightarrow> worker_pc" where
  "pc c w \<equiv> w_pc (c_workers c ! w)"

abbreviation workers :: "ctl \<Rightarrow> nat" where
  "workers c \<equiv> length (c_workers c)"

definition pre_done :: "service \<Rightarrow> Task \<Rightarrow> nat \<Rightarrow> bool" where
  "pre_done s t i \<longleftrightarrow> s_create_key s (input_of t i) = Inr (key_of t i)"

type_synonym answer_fun = "size_key \<Rightarrow> string \<Rightarrow> bool \<Rightarrow> string result"

definition ans_done :: "answer_fun \<Rightarrow> Task \<Rightarrow> nat \<Rightarrow> bool" where
  "ans_done ans t i \<longleftrightarrow> ans (key_of t i) (input_of t i) (t_diagnostics t) = Inr (t_response t ! i)"

text \<open>A finished task: every request has its size and its answer, at its own position.\<close>

definition completed :: "service \<Rightarrow> answer_fun \<Rightarrow> Task \<Rightarrow> bool" where
  "completed s ans t \<longleftrightarrow> length (t_response t) = t_size t \<and>
     (\<forall>i < t_size t. pre_done s t i \<and> ans_done ans t i)"

text \<open>The fetched positions that no worker is at work on.\<close>

definition handled :: "ctl \<Rightarrow> nat \<Rightarrow> bool" where
  "handled c i \<longleftrightarrow> i < t_size (c_task c) \<and> i < t_index (c_task c) \<and>
     (\<forall>w < workers c. pc c w \<noteq> Work i)"

definition threads_inv :: "bool \<Rightarrow> (thread_state \<Rightarrow> bool) \<Rightarrow> ctl \<Rightarrow> bool" where
  "threads_inv sorting ok c \<longleftrightarrow> 0 < workers c \<and> (\<forall>w < workers c. ok (w_thread (c_workers c ! w))) \<and>
     task_wf sorting (c_task c) \<and> (\<forall>t \<in> set (c_queue c). task_wf sorting t \<and> \<not> t_promised t)"

definition pcs_inv :: "ctl \<Rightarrow> bool" where
  "pcs_inv c \<longleftrightarrow>
     (\<forall>w < workers c. \<forall>i. pc c w = Work i \<longrightarrow> i < t_index (c_task c)) \<and>
     (\<forall>v < workers c. \<forall>w < workers c. \<forall>i. pc c v = Work i \<and> pc c w = Work i \<longrightarrow> v = w) \<and>
     (\<forall>w < workers c. pc c w = Arrived \<longrightarrow> t_size (c_task c) \<le> t_index (c_task c)) \<and>
     (\<forall>w < workers c. pc c w = Done \<longrightarrow> c_stopped c)"

definition mode_inv :: "ctl \<Rightarrow> bool" where
  "mode_inv c \<longleftrightarrow>
     (c_waiting c \<longrightarrow> all_arrived c \<and> c_phase c = PROCESSTASK \<and> \<not> c_halted c) \<and>
     (c_halted c \<longrightarrow> c_stopped c \<and> (\<forall>w < workers c. pc c w = Loop \<or> pc c w = Done)) \<and>
     (\<not> c_waiting c \<and> \<not> c_halted c \<longrightarrow> \<not> t_promised (c_task c))"

definition data_inv :: "service \<Rightarrow> answer_fun \<Rightarrow> ctl \<Rightarrow> bool" where
  "data_inv s ans c \<longleftrightarrow> (\<not> c_halted c \<longrightarrow>
     (case c_phase c of
        PREPROCESSTASK \<Rightarrow> (\<forall>i. handled c i \<longrightarrow> pre_done s (c_task c) i)
      | PROCESSTASK \<Rightarrow> (\<forall>i < t_size (c_task c). pre_done s (c_task c) i) \<and>
          (\<forall>i. handled c i \<longrightarrow> ans_done ans (c_task c) (order_of (s_sorting s) (c_task c) i))))"

definition log_inv :: "service \<Rightarrow> answer_fun \<Rightarrow> ctl \<Rightarrow> bool" where
  "log_inv s ans c \<longleftrightarrow> (\<forall>t \<in> set (c_finished c). completed s ans t) \<and>
     map batch (Task_new # c_pushed c) = map batch (c_finished c) @
       (if c_waiting c \<or> c_halted c then [] else [batch (c_task c)]) @ map batch (c_queue c)"

definition ctl_inv :: "service \<Rightarrow> (thread_state \<Rightarrow> bool) \<Rightarrow> answer_fun \<Rightarrow> ctl \<Rightarrow> bool" where
  "ctl_inv s ok ans c \<longleftrightarrow> threads_inv (s_sorting s) ok c \<and> log_inv s ans c \<and>
     (c_crashed c = None \<longrightarrow> pcs_inv c \<and> mode_inv c \<and> data_inv s ans c)"

lemma pc_set_worker [simp]:
  "w < workers c \<Longrightarrow> pc (set_worker w p c) v = (if v = w then p else pc c v)"
  by (auto simp: set_worker_def nth_list_update)

lemma thread_set_worker [simp]:
  "w_thread (c_workers (set_worker w p c) ! v) = w_thread (c_workers c ! v)"
  by (cases "w < workers c") (auto simp: set_worker_def nth_list_update not_less list_update_beyond)

lemma set_worker_fields [simp]:
  "workers (set_worker w p c) = workers c" "c_task (set_worker w p c) = c_task c"
  "c_queue (set_worker w p c) = c_queue c" "c_phase (set_worker w p c) = c_phase c"
  "c_waiting (set_worker w p c) = c_waiting c" "c_stopped (set_worker w p c) = c_stopped c"
  "c_halted (set_worker w p c) = c_halted c" "c_crashed (set_worker w p c) = c_crashed c"
  "c_pushed (set_worker w p c) = c_pushed c" "c_finished (set_worker w p c) = c_finished c"
  by (simp_all add: set_worker_def)

lemma release_fields [simp]:
  "workers (release c) = workers c" "c_task (release c) = c_task c"
  "c_queue (release c) = c_queue c" "c_phase (release c) = c_phase c"
  "c_waiting (release c) = c_waiting c" "c_stopped (release c) = c_stopped c"
  "c_halted (release c) = c_halted c" "c_crashed (release c) = c_crashed c"
  "c_pushed (release c) = c_pushed c" "c_finished (release c) = c_finished c"
  "w < workers c \<Longrightarrow> pc (release c) w = Loop"
  "w < workers c \<Longrightarrow> w_thread (c_workers (release c) ! w) = w_thread (c_workers c ! w)"
  by (simp_all add: release_def)

lemma all_arrived_pc: "all_arrived c \<longleftrightarrow> (\<forall>w < workers c. pc c w = Arrived)"
  by (auto simp: all_arrived_def all_set_conv_all_nth)

text \<open>The work on a request leaves the batch and everything else of the task as it was.\<close>

lemma preprocess_task:
  assumes "preprocess ck i t = Inr t'"
  shows "t_response t' = t_response t" "t_sortedIndices t' = t_sortedIndices t"
    "t_promised t' = t_promised t" "t_diagnostics t' = t_diagnostics t" "batch t' = batch t"
    "length (t_requests t') = length (t_requests t)" "input_of t' = input_of t"
    "\<And>so. task_wf so t' = task_wf so t"
    "i \<noteq> j \<Longrightarrow> key_of t' j = key_of t j"
proof -
  have "input_of t' j = input_of t j" for j
    using assms by (cases "i < length (t_requests t)"; cases "i = j")
      (auto simp: preprocess_def input_of_def bindE_Inr_iff not_less list_update_beyond split: if_splits)
  then show i: "input_of t' = input_of t" by blast
  show "t_response t' = t_response t" "t_sortedIndices t' = t_sortedIndices t"
    "t_promised t' = t_promised t" "t_diagnostics t' = t_diagnostics t"
    "length (t_requests t') = length (t_requests t)" "i \<noteq> j \<Longrightarrow> key_of t' j = key_of t j"
    "\<And>so. task_wf so t' = task_wf so t"
    using assms by (auto simp: preprocess_def key_of_def task_wf_def bindE_Inr_iff split: if_splits)
  then show "batch t' = batch t" using i preprocess_same [OF assms] by (simp add: batch_def)
qed

lemma preprocess_done:
  assumes "preprocess (s_create_key s) i t = Inr t'" and "i < t_size t" and "t_size t \<le> length (t_requests t)"
  shows "pre_done s t' i"
  using assms preprocess_task(7) [OF assms(1)]
  by (auto simp: preprocess_def pre_done_def key_of_def input_of_def bindE_Inr_iff)

lemma process_task:
  assumes "process pol so i t th = Inr (t', th')"
  shows "t_requests t' = t_requests t" "t_sortedIndices t' = t_sortedIndices t"
    "t_promised t' = t_promised t" "t_diagnostics t' = t_diagnostics t" "batch t' = batch t"
    "length (t_response t') = length (t_response t)" "task_wf so' t' = task_wf so' t"
    "j \<noteq> order_of so t i \<Longrightarrow> t_response t' ! j = t_response t ! j"
  using assms
  by (auto simp: process_def bindE_Inr_iff Let_def batch_def input_of_def order_of_def task_wf_def
      split: if_splits)

subsection \<open>Preservation\<close>

text \<open>A step that only moves a worker, to a position that is not \<open>Work\<close>.\<close>

lemma handled_set_worker:
  assumes "w < workers c" and "\<forall>i. pc c w \<noteq> Work i" and "\<forall>i. p \<noteq> Work i"
  shows "handled (set_worker w p c) = handled c"
  using assms by (auto simp: handled_def fun_eq_iff)

lemma data_inv_cong:
  assumes "c_task c' = c_task c" "c_phase c' = c_phase c" "c_halted c' = c_halted c"
    and "handled c' = handled c"
  shows "data_inv s ans c' = data_inv s ans c"
  by (simp only: data_inv_def assms)

lemma move_inv:
  assumes "ctl_inv s ok ans c" and "c_crashed c = None" and "w < workers c" and "\<not> c_waiting c"
    and "\<forall>i. pc c w \<noteq> Work i" and "\<forall>i. p \<noteq> Work i"
    and "p = Arrived \<Longrightarrow> t_size (c_task c) \<le> t_index (c_task c)" and "p = Done \<Longrightarrow> c_stopped c"
    and "c_halted c \<Longrightarrow> p = Loop \<or> p = Done"
  shows "ctl_inv s ok ans (set_worker w p c)"
proof -
  have "data_inv s ans (set_worker w p c) = data_inv s ans c"
    by (rule data_inv_cong) (simp_all add: handled_set_worker [OF assms(3,5,6)])
  moreover have "mode_inv (set_worker w p c)"
    using assms by (auto simp: ctl_inv_def mode_inv_def)
  moreover have "pcs_inv (set_worker w p c)"
    using assms unfolding ctl_inv_def pcs_inv_def by auto
  moreover have "threads_inv (s_sorting s) ok (set_worker w p c)" "log_inv s ans (set_worker w p c)"
    using assms(1) by (simp_all add: ctl_inv_def threads_inv_def log_inv_def)
  ultimately show ?thesis using assms(1,2) by (simp add: ctl_inv_def)
qed

text \<open>The fetch of an index.\<close>

lemma fetch_inv:
  assumes inv: "ctl_inv s ok ans c" and "c_crashed c = None" and w: "w < workers c"
    and "\<not> c_waiting c" and "pc c w = Fetch"
  shows "ctl_inv s ok ans (set_worker w (Work (t_index (c_task c)))
    (c\<lparr>c_task := (c_task c)\<lparr>t_index := t_index (c_task c) + 1\<rparr>\<rparr>))"
    (is "ctl_inv s ok ans ?c")
proof -
  note I = inv [unfolded ctl_inv_def]
  have len: "w < workers (c\<lparr>c_task := (c_task c)\<lparr>t_index := t_index (c_task c) + 1\<rparr>\<rparr>)" using w by simp
  have nh: "\<not> c_halted c" using I assms(2,5) w by (auto simp: mode_inv_def)
  have key: "key_of (t\<lparr>t_index := n\<rparr>) i = key_of t i" "input_of (t\<lparr>t_index := n\<rparr>) i = input_of t i"
    "order_of so (t\<lparr>t_index := n\<rparr>) i = order_of so t i" for t n so i
    by (simp_all add: key_of_def input_of_def order_of_def)
  have done_same: "pre_done s (t\<lparr>t_index := n\<rparr>) i = pre_done s t i"
    "ans_done ans (t\<lparr>t_index := n\<rparr>) i = ans_done ans t i" for t n i
    by (simp_all add: pre_done_def ans_done_def key)
  have pc: "pc ?c v = (if v = w then Work (t_index (c_task c)) else pc c v)" for v
    using len by (cases "v = w") simp_all
  have handled: "handled c i" if "handled ?c i" for i
  proof -
    have h: "i < t_size (c_task c)" "i < Suc (t_index (c_task c))" "\<forall>v < workers c. pc ?c v \<noteq> Work i"
      using that by (simp_all add: handled_def)
    have "i \<noteq> t_index (c_task c)" using h(3) w unfolding pc by auto
    moreover have "pc c v \<noteq> Work i" if "v < workers c" for v
      using h(3) [rule_format, OF that] assms(5) unfolding pc by (cases "v = w") auto
    ultimately show ?thesis using h by (simp add: handled_def)
  qed
  have "pcs_inv ?c"
    using I assms(2) unfolding pcs_inv_def pc by (auto simp: less_Suc_eq)
  moreover have "mode_inv ?c"
    using I assms(2,4) nh by (simp add: mode_inv_def)
  moreover have "data_inv s ans ?c"
    using I assms(2) nh handled by (auto simp: data_inv_def done_same key split: Phase.splits)
  moreover have "threads_inv (s_sorting s) ok ?c"
    using I by (simp add: threads_inv_def task_wf_def)
  moreover have "log_inv s ans ?c"
    using I by (simp add: log_inv_def batch_def input_of_def [abs_def])
  ultimately show ?thesis by (simp add: ctl_inv_def)
qed

text \<open>The work on an index, in either phase.\<close>

lemma not_handled_at_work:
  assumes "pcs_inv c" and "w < workers c" and "pc c w = Work i" and "c' = set_worker w Check c1"
    and "\<And>v. v < workers c \<Longrightarrow> pc c1 v = pc c v" and "workers c1 = workers c"
    and "t_size (c_task c1) = t_size (c_task c)" and "t_index (c_task c1) = t_index (c_task c)"
    and "handled c' j"
  shows "handled c j \<or> j = i"
proof -
  have pc: "pc c' v = (if v = w then Check else pc c v)" if "v < workers c" for v
    using assms(2,4,5,6) that by simp
  have h: "j < t_size (c_task c)" "j < t_index (c_task c)" "\<forall>v < workers c. pc c' v \<noteq> Work j"
    using assms(4,6-9) by (simp_all add: handled_def)
  have "pc c v \<noteq> Work j" if "v < workers c" "j \<noteq> i" for v
    using h(3) [rule_format, OF that(1)] pc [OF that(1)] assms(3) that(2) by (cases "v = w") auto
  then show ?thesis using h by (auto simp: handled_def)
qed

lemma pcs_inv_check:
  assumes "pcs_inv c" and "w < workers c" and "c' = set_worker w Check c1"
    and "\<And>v. v < workers c \<Longrightarrow> pc c1 v = pc c v" and "workers c1 = workers c"
    and "t_size (c_task c1) = t_size (c_task c)" and "t_index (c_task c1) = t_index (c_task c)"
    and "c_stopped c1 = c_stopped c"
  shows "pcs_inv c'"
proof -
  have pc: "pc c' v = (if v = w then Check else pc c v)" if "v < workers c" for v
    using assms(2-5) that by simp
  have "workers c' = workers c" "t_size (c_task c') = t_size (c_task c)"
    "t_index (c_task c') = t_index (c_task c)" "c_stopped c' = c_stopped c"
    using assms(3,5-8) by simp_all
  then show ?thesis using assms(1) unfolding pcs_inv_def by (auto simp: pc)
qed

lemma preprocess_inv:
  assumes inv: "ctl_inv s ok ans c" and nc: "c_crashed c = None" and w: "w < workers c"
    and nw: "\<not> c_waiting c" and at: "pc c w = Work i" and ph: "c_phase c = PREPROCESSTASK"
    and run: "preprocess (s_create_key s) i (c_task c) = Inr t"
  shows "ctl_inv s ok ans (set_worker w Check (c\<lparr>c_task := t\<rparr>))" (is "ctl_inv s ok ans ?c")
proof -
  note I = inv [unfolded ctl_inv_def]
  note same = preprocess_same [OF run] preprocess_task [OF run]
  have pi: "pcs_inv c" using I nc by simp
  have nh: "\<not> c_halted c" using I nc at w by (auto simp: mode_inv_def)
  have "pre_done s t j" if "handled ?c j" for j
  proof (cases "j = i")
    case True
    have "j < t_size (c_task c)" using that same by (simp add: handled_def)
    moreover have "t_size (c_task c) \<le> length (t_requests (c_task c))"
      using I by (simp add: threads_inv_def task_wf_def)
    ultimately show ?thesis using preprocess_done [OF run] True by simp
  next
    case False
    then have "handled c j"
      using not_handled_at_work [OF pi w at refl _ _ _ _ that] same by simp
    then have "pre_done s (c_task c) j" using I nc nh ph by (simp add: data_inv_def)
    then show ?thesis using same False by (simp add: pre_done_def)
  qed
  then have "data_inv s ans ?c" using ph by (simp add: data_inv_def)
  moreover have "pcs_inv ?c" by (rule pcs_inv_check [OF pi w refl]) (use same in simp_all)
  moreover have "mode_inv ?c" using I nc nw nh same by (simp add: mode_inv_def)
  moreover have "threads_inv (s_sorting s) ok ?c" using I same by (simp add: threads_inv_def)
  moreover have "log_inv s ans ?c" using I same by (simp add: log_inv_def)
  ultimately show ?thesis by (simp add: ctl_inv_def)
qed

lemma crash_inv:
  "ctl_inv s ok ans c \<Longrightarrow> ctl_inv s ok ans (c\<lparr>c_crashed := Some e\<rparr>)"
  by (simp add: ctl_inv_def threads_inv_def log_inv_def)

context request_policy
begin

lemma process_inv:
  assumes inv: "ctl_inv s thread_ok answer_of c" and nc: "c_crashed c = None" and w: "w < workers c"
    and nw: "\<not> c_waiting c" and at: "pc c w = Work i" and ph: "c_phase c = PROCESSTASK"
    and svc: "s_create_key s = pre" "s_policy s = call"
    and run: "process call (s_sorting s) i (c_task c) (w_thread (c_workers c ! w)) = Inr (t, th)"
  shows "ctl_inv s thread_ok answer_of
    (c\<lparr>c_task := t, c_workers := (c_workers c)[w := \<lparr>w_pc = Check, w_thread = th\<rparr>]\<rparr>)"
    (is "ctl_inv s thread_ok answer_of ?c")
proof -
  let ?t = "c_task c" and ?so = "s_sorting s"
  let ?c1 = "c\<lparr>c_task := t, c_workers := (c_workers c)[w := (c_workers c ! w)\<lparr>w_thread := th\<rparr>]\<rparr>"
  have c: "?c = set_worker w Check ?c1"
    using w by (cases "c_workers c ! w") (simp add: set_worker_def)
  have pc1: "pc ?c1 v = pc c v" for v using w by (cases "v = w") auto
  note I = inv [unfolded ctl_inv_def]
  note same = process_same [OF run] process_task [OF run]
  have pi: "pcs_inv c" using I nc by simp
  have nh: "\<not> c_halted c" using I nc at w by (auto simp: mode_inv_def)
  have wf: "task_wf ?so ?t" and th0: "thread_ok (w_thread (c_workers c ! w))"
    using I w by (simp_all add: threads_inv_def)
  have pre: "\<forall>i < t_size ?t. pre_done s ?t i" using I nc nh ph by (simp add: data_inv_def)
  have keys: "key_of t = key_of ?t" "input_of t = input_of ?t" "order_of ?so t = order_of ?so ?t"
    using same by (simp_all add: key_of_def input_of_def order_of_def fun_eq_iff)
  have new: "thread_ok th \<and> (i < t_size ?t \<longrightarrow> ans_done answer_of t (order_of ?so ?t i))"
  proof (cases "i < t_size ?t")
    case True
    let ?j = "order_of ?so ?t i"
    have j: "?j < t_size ?t" by (rule order_of_less [OF wf True])
    obtain res where o: "call (t_requests ?t ! ?j) (t_diagnostics ?t) (w_thread (c_workers c ! w))
        = Inr (res, th)" "t_response t = (t_response ?t)[?j := res]"
      using run True by (auto simp: process_def order_of_def bindE_Inr_iff Let_def)
    have "pre (rq_input (t_requests ?t ! ?j)) = Inr (rq_sizeKey (t_requests ?t ! ?j))"
      using pre j svc by (simp add: pre_done_def input_of_def key_of_def)
    note a = call_Inr [OF th0 this o(1)]
    have "length (t_response ?t) = t_size ?t" using wf by (simp add: task_wf_def)
    then show ?thesis
      using a o(2) j same by (simp add: ans_done_def key_of_def input_of_def)
  next
    case False
    then show ?thesis using run th0 by (simp add: process_def)
  qed
  have "ans_done answer_of t (order_of ?so ?t j)" if "handled ?c j" for j
  proof (cases "j = i")
    case True
    then show ?thesis using new that same by (simp add: handled_def)
  next
    case False
    have "handled c j"
      using not_handled_at_work [OF pi w at c _ _ _ _ that] pc1 same False by simp
    then have j: "ans_done answer_of ?t (order_of ?so ?t j)" "j < t_size ?t"
      using I nc nh ph by (simp_all add: data_inv_def handled_def)
    have "t_response t ! order_of ?so ?t j = t_response ?t ! order_of ?so ?t j"
    proof (cases "i < t_size ?t")
      case True
      then have "order_of ?so ?t j \<noteq> order_of ?so ?t i"
        using order_of_perm(2) [OF wf] j(2) False by (auto simp: inj_on_def)
      then show ?thesis by (rule same(9))
    next
      case False
      then show ?thesis using run by (simp add: process_def)
    qed
    then show ?thesis using j(1) same by (simp add: ans_done_def keys)
  qed
  then have "data_inv s answer_of ?c"
    using ph pre same by (simp add: data_inv_def keys pre_done_def)
  moreover have "pcs_inv ?c" by (rule pcs_inv_check [OF pi w c]) (use pc1 same in simp_all)
  moreover have "mode_inv ?c" using I nc nw nh same by (simp add: mode_inv_def)
  moreover have "thread_ok (w_thread (c_workers ?c ! v))" if "v < workers c" for v
    using that I new w by (cases "v = w") (simp_all add: threads_inv_def)
  then have "threads_inv ?so thread_ok ?c"
    using I same by (simp add: threads_inv_def)
  moreover have "log_inv s answer_of ?c" using I same by (simp add: log_inv_def)
  ultimately show ?thesis by (simp add: ctl_inv_def)
qed

end

text \<open>At the barrier every fetched position has been handled, and all positions were fetched.\<close>

lemma arrived_handled:
  assumes "pcs_inv c" and "all_arrived c" and "0 < workers c"
  shows "handled c i \<longleftrightarrow> i < t_size (c_task c)"
proof -
  have "t_size (c_task c) \<le> t_index (c_task c)"
    using assms unfolding pcs_inv_def all_arrived_pc by blast
  then show ?thesis using assms(2) by (auto simp: handled_def all_arrived_pc)
qed

lemma sorted_task_wf:
  assumes "task_wf so t" and "sorts_indices t ordered"
  shows "task_wf so (t\<lparr>t_sortedIndices := ordered\<rparr>)"
  using assms by (simp add: task_wf_def sorts_indices_def)

lemma arrived_not_halted:
  assumes "mode_inv c" and "all_arrived c" and "0 < workers c"
  shows "\<not> c_halted c"
  using assms by (auto simp: mode_inv_def all_arrived_pc)

lemma released_inv:
  assumes "threads_inv (s_sorting s) ok c" "log_inv s ans c" and "\<not> c_waiting c"
    and "\<not> c_halted c \<Longrightarrow> \<not> t_promised (c_task c)" and "t_index (c_task c) = 0"
    and "c_halted c \<Longrightarrow> c_stopped c"
    and "\<not> c_halted c \<Longrightarrow> c_phase c = PROCESSTASK \<Longrightarrow> \<forall>i < t_size (c_task c). pre_done s (c_task c) i"
  shows "ctl_inv s ok ans (release c)"
proof -
  have h: "\<not> handled (release c) i" for i using assms(5) by (simp add: handled_def)
  have "data_inv s ans (release c)"
    using assms(7) h by (simp add: data_inv_def split: Phase.splits)
  moreover have "pcs_inv (release c)" by (simp add: pcs_inv_def)
  moreover have "mode_inv (release c)" using assms(3,4,6) by (simp add: mode_inv_def)
  moreover have "threads_inv (s_sorting s) ok (release c)" "log_inv s ans (release c)"
    using assms(1,2) by (simp_all add: threads_inv_def log_inv_def)
  ultimately show ?thesis by (simp add: ctl_inv_def)
qed

lemma complete_preprocess_inv:
  assumes inv: "ctl_inv s ok ans c" and nc: "c_crashed c = None" and "\<not> c_waiting c"
    and aa: "all_arrived c" and ph: "c_phase c = PREPROCESSTASK" and so: "sorts_indices (c_task c) ordered"
  shows "ctl_inv s ok ans (complete_preprocess ordered c)"
proof -
  note I = inv [unfolded ctl_inv_def]
  have n: "0 < workers c" and wf: "task_wf (s_sorting s) (c_task c)" using I by (simp_all add: threads_inv_def)
  have nh: "\<not> c_halted c" using arrived_not_halted I nc aa n by blast
  have "\<forall>i < t_size (c_task c). pre_done s (c_task c) i"
    using I nc nh ph arrived_handled [of c] aa n by (simp add: data_inv_def)
  then have pre: "\<forall>i < t_size (c_task c). pre_done s
      (resetIndex ((c_task c)\<lparr>t_sortedIndices := ordered\<rparr>)) i"
    by (simp add: pre_done_def input_of_def key_of_def resetIndex_def)
  have b: "batch (resetIndex ((c_task c)\<lparr>t_sortedIndices := ordered\<rparr>)) = batch (c_task c)"
    by (simp add: batch_def input_of_def [abs_def] resetIndex_def)
  show ?thesis
    unfolding complete_preprocess_def
    by (rule released_inv)
      (use I nc nh assms(3) pre b sorted_task_wf [OF wf so] in
        \<open>simp_all add: threads_inv_def log_inv_def mode_inv_def resetIndex_def task_wf_def\<close>)
qed

lemma complete_process_inv:
  assumes inv: "ctl_inv s ok ans c" and nc: "c_crashed c = None" and nw: "\<not> c_waiting c"
    and aa: "all_arrived c" and ph: "c_phase c = PROCESSTASK"
  shows "ctl_inv s ok ans (complete_process c)" and "c_crashed (complete_process c) = None"
proof -
  note I = inv [unfolded ctl_inv_def]
  let ?t = "c_task c" and ?so = "s_sorting s"
  have n: "0 < workers c" and wf: "task_wf ?so ?t" using I by (simp_all add: threads_inv_def)
  have nh: "\<not> c_halted c" using arrived_not_halted I nc aa n by blast
  have np: "\<not> t_promised ?t" using I nc nh nw by (simp add: mode_inv_def)
  have cp: "complete_process c = c\<lparr>c_task := ?t\<lparr>t_promised := True\<rparr>, c_waiting := True,
      c_finished := c_finished c @ [?t\<lparr>t_promised := True\<rparr>]\<rparr>"
    using np by (simp add: complete_process_def finish_def)
  then show "c_crashed (complete_process c) = None" using nc by simp
  have same: "pre_done s (?t\<lparr>t_promised := True\<rparr>) i = pre_done s ?t i"
    "ans_done ans (?t\<lparr>t_promised := True\<rparr>) i = ans_done ans ?t i"
    "order_of so (?t\<lparr>t_promised := True\<rparr>) i = order_of so ?t i" for i so
    by (simp_all add: pre_done_def ans_done_def key_of_def input_of_def order_of_def)
  have hd: "handled c i \<longleftrightarrow> i < t_size ?t" for i using I nc arrived_handled aa n by blast
  have data: "\<forall>i < t_size ?t. pre_done s ?t i" "\<forall>i < t_size ?t. ans_done ans ?t (order_of ?so ?t i)"
    using I nc nh ph hd by (simp_all add: data_inv_def)
  have "ans_done ans ?t j" if "j < t_size ?t" for j
    using data(2) order_of_perm(1) [OF wf] that by (metis image_iff lessThan_iff)
  then have "completed s ans (?t\<lparr>t_promised := True\<rparr>)"
    using data(1) wf by (simp add: completed_def task_wf_def same)
  then have "log_inv s ans (complete_process c)"
    using I nw nh by (simp add: cp log_inv_def batch_def input_of_def [abs_def])
  moreover have "data_inv s ans (complete_process c)"
    using data ph by (simp add: cp data_inv_def handled_def same)
  moreover have "mode_inv (complete_process c)"
    using aa ph nh by (simp add: cp mode_inv_def all_arrived_def)
  moreover have "pcs_inv (complete_process c)" using I nc by (simp add: cp pcs_inv_def)
  moreover have "threads_inv ?so ok (complete_process c)"
    using I by (simp add: cp threads_inv_def task_wf_def)
  ultimately show "ctl_inv s ok ans (complete_process c)" by (simp add: ctl_inv_def)
qed

lemma next_task_inv:
  assumes inv: "ctl_inv s ok ans c" and nc: "c_crashed c = None" and wt: "c_waiting c"
    and nt: "next_task c = Some c'"
  shows "ctl_inv s ok ans c'"
proof -
  note I = inv [unfolded ctl_inv_def]
  have nh: "\<not> c_halted c" using I nc wt by (simp add: mode_inv_def)
  have b: "batch (resetIndex t) = batch t" for t
    by (simp add: batch_def input_of_def [abs_def] resetIndex_def)
  show ?thesis
  proof (cases "c_stopped c")
    case True
    then have c': "c' = release (c\<lparr>c_halted := True, c_task := resetIndex (c_task c),
        c_phase := PREPROCESSTASK, c_waiting := False\<rparr>)"
      using nt by (simp add: next_task_def setNextTask_def)
    show ?thesis
      unfolding c'
      by (rule released_inv)
        (use I nc wt True b in \<open>simp_all add: threads_inv_def log_inv_def task_wf_def resetIndex_def\<close>)
  next
    case False
    then obtain t q where q: "c_queue c = t # q" using nt
      by (cases "c_queue c") (simp_all add: next_task_def setNextTask_def)
    then have c': "c' = release (c\<lparr>c_queue := q, c_task := resetIndex t,
        c_phase := PREPROCESSTASK, c_waiting := False\<rparr>)"
      using nt False by (simp add: next_task_def setNextTask_def)
    show ?thesis
      unfolding c'
      by (rule released_inv)
        (use I nc wt nh q b [of t] in
          \<open>simp_all add: threads_inv_def log_inv_def task_wf_def resetIndex_def\<close>)
  qed
qed

lemma push_inv:
  assumes "ctl_inv s ok ans c" and "task_wf (s_sorting s) t" and "\<not> t_promised t"
  shows "ctl_inv s ok ans (ctl_push t c)"
proof -
  have "handled (ctl_push t c) = handled c" by (simp add: handled_def ctl_push_def fun_eq_iff)
  then have "data_inv s ans (ctl_push t c) = data_inv s ans c"
    by (intro data_inv_cong) (simp_all add: ctl_push_def)
  moreover have "mode_inv (ctl_push t c) = mode_inv c" "pcs_inv (ctl_push t c) = pcs_inv c"
    by (simp_all add: mode_inv_def pcs_inv_def ctl_push_def all_arrived_def)
  ultimately show ?thesis
    using assms by (auto simp: ctl_inv_def threads_inv_def log_inv_def ctl_push_def)
qed

lemma stop_inv:
  assumes "ctl_inv s ok ans c"
  shows "ctl_inv s ok ans (ctl_stop c)"
proof -
  have "handled (ctl_stop c) = handled c" by (simp add: handled_def ctl_stop_def fun_eq_iff)
  then have "data_inv s ans (ctl_stop c) = data_inv s ans c"
    by (intro data_inv_cong) (simp_all add: ctl_stop_def)
  then show ?thesis
    using assms by (auto simp: ctl_inv_def threads_inv_def log_inv_def ctl_stop_def mode_inv_def
        pcs_inv_def all_arrived_def)
qed

lemma start_inv:
  assumes "0 < n" and "ok thread_start"
  shows "ctl_inv s ok ans (ctl_start n)"
  using assms
  by (simp add: ctl_inv_def threads_inv_def log_inv_def ctl_start_def mode_inv_def pcs_inv_def
      data_inv_def handled_def batch_def Task_new_def task_wf_def)

subsection \<open>Reachable states\<close>

lemma worker_step_workers: "worker_step s w c = Some c' \<Longrightarrow> c_waiting c' = c_waiting c \<and> c_queue c' = c_queue c
    \<and> c_phase c' = c_phase c \<and> c_halted c' = c_halted c"
  by (auto simp: worker_step_def work_def fetch_add_def split: worker_pc.splits Phase.splits sum.splits)

context request_policy
begin

lemma worker_step_inv:
  assumes inv: "ctl_inv s thread_ok answer_of c" and nc: "c_crashed c = None" and nw: "\<not> c_waiting c"
    and w: "w < workers c" and st: "worker_step s w c = Some c'"
    and svc: "s_create_key s = pre" "s_policy s = call"
  shows "ctl_inv s thread_ok answer_of c'"
proof (cases "pc c w")
  case Loop
  then have c': "c' = set_worker w (if c_stopped c then Done else Fetch) c"
    using st by (simp add: worker_step_def)
  have "c_halted c \<Longrightarrow> c_stopped c" using inv nc by (simp add: ctl_inv_def mode_inv_def)
  then show ?thesis
    unfolding c' by (intro move_inv [OF inv nc w nw]) (auto simp: Loop split: if_splits)
next
  case Fetch
  then have "c' = set_worker w (Work (t_index (c_task c)))
      (c\<lparr>c_task := (c_task c)\<lparr>t_index := t_index (c_task c) + 1\<rparr>\<rparr>)"
    using st by (simp add: worker_step_def fetch_add_def)
  then show ?thesis using fetch_inv [OF inv nc w nw Fetch] by simp
next
  case (Work i)
  show ?thesis
  proof (cases "c_phase c")
    case PREPROCESSTASK
    then show ?thesis
      using st Work preprocess_inv [OF inv nc w nw Work PREPROCESSTASK] crash_inv [OF inv]
      by (auto simp: worker_step_def work_def split: sum.splits)
  next
    case PROCESSTASK
    then show ?thesis
      using st Work process_inv [OF inv nc w nw Work PROCESSTASK svc] crash_inv [OF inv] svc
      by (auto simp: worker_step_def work_def split: sum.splits)
  qed
next
  case Check
  then have c': "c' = set_worker w (if more_work (c_task c) then Fetch else Arrived) c"
    using st by (simp add: worker_step_def)
  have "\<not> c_halted c" using inv nc w Check by (auto simp: ctl_inv_def mode_inv_def)
  then show ?thesis
    unfolding c' by (intro move_inv [OF inv nc w nw]) (auto simp: Check more_work_def split: if_splits)
next
  case Arrived
  then show ?thesis using st by (simp add: worker_step_def)
next
  case Done
  then show ?thesis using st by (simp add: worker_step_def)
qed

lemma internal_inv:
  assumes "ctl_internal s c c'" and "ctl_inv s thread_ok answer_of c"
    and "s_create_key s = pre" "s_policy s = call"
  shows "ctl_inv s thread_ok answer_of c'"
  using assms(1)
  by (cases rule: ctl_internalE)
    (use assms(2-) worker_step_inv complete_preprocess_inv complete_process_inv(1) next_task_inv in blast)+

lemma reach_inv:
  assumes "ctl_reach s n c" and "0 < n" and "s_create_key s = pre" "s_policy s = call"
  shows "ctl_inv s thread_ok answer_of c"
  using assms(1)
proof (induction rule: ctl_reach.induct)
  case start
  show ?case using start_inv assms(2) start_ok .
next
  case (step c c')
  then show ?case
    using internal_inv push_inv stop_inv assms(3,4) by (auto elim!: ctl_stepE)
qed

text \<open>Internal steps decrease the measure.\<close>

lemma internal_less:
  assumes st: "ctl_internal s c c'" and inv: "ctl_inv s thread_ok answer_of c"
  shows "(c', c) \<in> ctl_measure"
proof -
  note I = inv [unfolded ctl_inv_def]
  have n: "0 < workers c" using I by (simp add: threads_inv_def)
  show ?thesis
    using st
  proof cases
    case (worker w)
    have m: "mode_inv c" using I worker by simp
    show ?thesis
    proof (cases "c_crashed c'")
      case None
      then show ?thesis
        using worker worker_step_less [OF worker(4,3,1) None] worker_step_workers [OF worker(4)]
        by (simp add: ctl_measure_def stage_def)
    next
      case (Some e)
      then show ?thesis
        using worker worker_step_workers [OF worker(4)]
        by (simp add: ctl_measure_def stage_def split: Phase.splits)
    qed
  next
    case (preprocessed ordered)
    have "\<not> c_halted c" using arrived_not_halted I preprocessed n by blast
    then show ?thesis
      using preprocessed by (simp add: ctl_measure_def stage_def complete_preprocess_def)
  next
    case processed
    have "\<not> c_halted c" using arrived_not_halted I processed n by blast
    then show ?thesis
      using processed
      by (auto simp: ctl_measure_def stage_def complete_process_def finish_def)
  next
    case next_task
    have nh: "\<not> c_halted c" using I next_task by (simp add: mode_inv_def)
    then show ?thesis
      using next_task
      by (auto simp: ctl_measure_def stage_def next_task_def setNextTask_def split: if_splits list.splits)
  qed
qed

end

text \<open>When nothing can step and the server runs, the controller waits and has nothing to do.\<close>

lemma progress:
  assumes inv: "ctl_inv s ok ans c" and nc: "c_crashed c = None" and ns: "\<not> c_stopped c"
    and stuck: "\<nexists>c'. ctl_internal s c c'"
  shows "c_waiting c \<and> c_queue c = [] \<and> map batch (Task_new # c_pushed c) = map batch (c_finished c)"
proof -
  note I = inv [unfolded ctl_inv_def]
  have "c_waiting c"
  proof (rule ccontr)
    assume nw: "\<not> c_waiting c"
    have "pc c w = Arrived" if "w < workers c" for w
    proof (rule ccontr)
      assume "pc c w \<noteq> Arrived"
      moreover have "pc c w \<noteq> Done" using I nc ns that by (auto simp: pcs_inv_def)
      ultimately obtain c' where "worker_step s w c = Some c'"
        by (cases "pc c w") (auto simp: worker_step_def fetch_add_def)
      then show False using stuck ctl_internal.worker nc nw that by blast
    qed
    then have aa: "all_arrived c" by (simp add: all_arrived_pc)
    show False
    proof (cases "c_phase c")
      case PREPROCESSTASK
      then show False using stuck ctl_internal.preprocessed [OF nc nw aa _ sortIndices_sorts] by blast
    next
      case PROCESSTASK
      then show False using stuck ctl_internal.processed [OF nc nw aa] by blast
    qed
  qed
  moreover have q: "c_queue c = []"
  proof (rule ccontr)
    assume "c_queue c \<noteq> []"
    then obtain c' where "next_task c = Some c'"
      using ns by (cases "c_queue c") (auto simp: next_task_def setNextTask_def)
    then show False using stuck ctl_internal.next_task nc calculation by blast
  qed
  ultimately show ?thesis using I by (simp add: log_inv_def)
qed

subsection \<open>The controller of the server\<close>

definition service_of :: "server_env \<Rightarrow> service" where
  "service_of env = \<lparr>s_create_key = createSizeKey (env_useRegex env), s_policy = policy_call env,
     s_sorting = (env_policy env = SORTINPUT)\<rparr>"

lemma service_of_fields [simp]:
  "s_create_key (service_of env) = createSizeKey (env_useRegex env)"
  "s_policy (service_of env) = policy_call env"
  by (simp_all add: service_of_def)

lemma server_inv:
  "ctl_reach (service_of env) n c \<Longrightarrow> 0 < n \<Longrightarrow>
   ctl_inv (service_of env) (cache_ok (env_ads env)) (policy_answer env) c"
  by (rule server_policy.reach_inv) simp_all

lemma finished_task:
  assumes "ctl_reach (service_of env) n c" and "0 < n" and "t \<in> set (c_finished c)"
  shows "length (t_response t) = t_size t \<and>
    (\<forall>i < t_size t. \<exists>key. createSizeKey (env_useRegex env) (input_of t i) = Inr key \<and>
       policy_answer env key (input_of t i) (t_diagnostics t) = Inr (t_response t ! i))"
proof -
  have "completed (service_of env) (policy_answer env) t"
    using server_inv [OF assms(1,2)] assms(3) by (simp add: ctl_inv_def log_inv_def)
  then show ?thesis by (auto simp: completed_def pre_done_def ans_done_def)
qed

text \<open>
  C4: Every finished task has, at the position of each request, the answer of the policy to this
  request, however the workers interleave.
\<close>

theorem finished_answers:
  assumes "ctl_reach (service_of env) n c" and "0 < n" and "t \<in> set (c_finished c)"
  shows "length (t_response t) = t_size t \<and>
    (\<forall>i < t_size t. \<exists>key. createSizeKey (env_useRegex env) (input_of t i) = Inr key \<and>
       policy_answer env key (input_of t i) (t_diagnostics t) = Inr (t_response t ! i))"
  by (rule finished_task [OF assms])

text \<open>
  C16: Tasks are finished in the order they were pushed, each once.
\<close>

theorem finished_in_order:
  assumes "ctl_reach (service_of env) n c" and "0 < n"
  shows "\<exists>rest. map batch (Task_new # c_pushed c) = map batch (c_finished c) @ rest"
  using server_inv [OF assms] by (simp add: ctl_inv_def log_inv_def)

definition work_index :: "worker_pc \<Rightarrow> nat list" where
  "work_index p = (case p of Work i \<Rightarrow> [i] | _ \<Rightarrow> [])"

definition working :: "ctl \<Rightarrow> nat list" where
  "working c = concat (map (\<lambda>wk. work_index (w_pc wk)) (c_workers c))"

lemma distinct_working:
  assumes "\<And>v w i. v < length ps \<Longrightarrow> w < length ps \<Longrightarrow> ps ! v = Work i \<Longrightarrow> ps ! w = Work i \<Longrightarrow> v = w"
  shows "distinct (concat (map work_index ps))"
  using assms
proof (induction ps)
  case (Cons p ps)
  have "distinct (concat (map work_index ps))"
    by (rule Cons.IH) (use Cons.prems [of "Suc _" "Suc _"] in simp)
  moreover have "i \<notin> set (concat (map work_index ps))" if "p = Work i" for i
  proof
    assume "i \<in> set (concat (map work_index ps))"
    then obtain q where "q \<in> set ps" "i \<in> set (work_index q)" by auto
    then have "Work i \<in> set ps" by (cases q) (auto simp: work_index_def)
    then obtain w where "w < length ps" "ps ! w = Work i" by (auto simp: in_set_conv_nth)
    then show False using Cons.prems [of 0 "Suc w" i] that by simp
  qed
  moreover have "work_index p = [] \<or> (\<exists>i. p = Work i \<and> work_index p = [i])"
    by (cases p) (simp_all add: work_index_def)
  ultimately show ?case by auto
qed simp

text \<open>
  C17: No two workers ever work on the same request: the indices in work are distinct.
\<close>

theorem workers_exclusive:
  assumes "ctl_reach (service_of env) n c" and "0 < n" and "c_crashed c = None"
  shows "distinct (working c)"
proof -
  have "\<forall>v < workers c. \<forall>w < workers c. \<forall>i. pc c v = Work i \<and> pc c w = Work i \<longrightarrow> v = w"
    using server_inv [OF assms(1,2)] assms(3) unfolding ctl_inv_def pcs_inv_def by blast
  then have "distinct (concat (map work_index (map w_pc (c_workers c))))"
    by (intro distinct_working) auto
  then show ?thesis by (simp add: working_def comp_def)
qed


text \<open>
  C15: A server that is running and cannot step any more waits with an empty queue: every task that was
  pushed is finished, in order.
\<close>

theorem controller_at_rest:
  assumes "ctl_reach (service_of env) n c" and "0 < n" and "c_crashed c = None" and "\<not> c_stopped c"
    and "\<nexists>c'. ctl_internal (service_of env) c c'"
  shows "c_waiting c \<and> c_queue c = [] \<and> map batch (Task_new # c_pushed c) = map batch (c_finished c)"
  using progress [OF server_inv [OF assms(1,2)] assms(3-5)] .


text \<open>
  A stop that comes between the conditions of two workers: one of them returns, the other waits
  at the barrier for ever, and \<open>ThreadPoolBase::stop\<close> waits for it.
\<close>

lemma start_two: "c_workers (ctl_start 2) = [\<lparr>w_pc = Loop, w_thread = thread_start\<rparr>, \<lparr>w_pc = Loop, w_thread = thread_start\<rparr>]"
  by (simp add: ctl_start_def numeral_2_eq_2)

lemma stop_between_conditions:
  obtains c where "ctl_reach (service_of env) 2 c" "map w_pc (c_workers c) = [Arrived, Done]"
    "c_stopped c" "\<not> c_waiting c"
proof -
  let ?s = "service_of env"
  have step: "ctl_reach ?s 2 c'" if "ctl_reach ?s 2 c" "worker_step ?s w c = Some c'"
    "c_crashed c = None" "\<not> c_waiting c" "w < workers c" for c c' w
    using that ctl_reach.step ctl_step.internal ctl_internal.worker by meson
  define c1 where "c1 = set_worker 0 Fetch (ctl_start 2)"
  define c2 where "c2 = ctl_stop c1"
  define c3 where "c3 = set_worker 1 Done c2"
  define c4 where "c4 = set_worker 0 (Work 0) (c3\<lparr>c_task := Task_new\<lparr>t_index := 1\<rparr>\<rparr>)"
  define c5 where "c5 = set_worker 0 Check c4"
  define c6 where "c6 = set_worker 0 Arrived c5"
  note defs = c1_def c2_def c3_def c4_def c5_def c6_def
  have fields: "c_task c3 = Task_new" "c_phase c4 = PREPROCESSTASK" "c_task c4 = Task_new\<lparr>t_index := 1\<rparr>"
    by (simp_all add: defs ctl_stop_def ctl_start_def)
  have n: "workers (ctl_start 2) = 2" "workers c1 = 2" "workers c2 = 2" "workers c3 = 2"
    "workers c4 = 2" "workers c5 = 2"
    by (simp_all add: defs ctl_stop_def start_two)
  have ok: "c_crashed c = None \<and> \<not> c_waiting c" if "c \<in> {ctl_start 2, c1, c2, c3, c4, c5}" for c
    using that by (auto simp: defs ctl_stop_def ctl_start_def)
  have pcs: "pc (ctl_start 2) 0 = Loop" "pc c2 1 = Loop" "pc c3 0 = Fetch" "pc c4 0 = Work 0" "pc c5 0 = Check"
    by (simp_all add: defs ctl_stop_def start_two set_worker_def)
  have "worker_step ?s 0 (ctl_start 2) = Some c1" "worker_step ?s 1 c2 = Some c3"
    "worker_step ?s 0 c3 = Some c4" "worker_step ?s 0 c4 = Some c5" "worker_step ?s 0 c5 = Some c6"
    using pcs fields
    by (simp_all add: worker_step_def fetch_add_def work_def preprocess_def more_work_def Task_new_def)
      (simp_all add: defs ctl_stop_def ctl_start_def Task_new_def set_worker_def)
  moreover have "ctl_reach ?s 2 c2" if "ctl_reach ?s 2 c1"
    unfolding c2_def using that ctl_reach.step ctl_step.stop by blast
  ultimately have reach: "ctl_reach ?s 2 c6"
    using step [OF ctl_reach.start] step [of c2 1 c3] step [of c3 0 c4] step [of c4 0 c5] step [of c5 0 c6]
      ok n by simp
  have w6: "map w_pc (c_workers c6) = [Arrived, Done]"
    by (simp add: defs ctl_stop_def start_two set_worker_def)
  have "c_stopped c6" "\<not> c_waiting c6"
    by (simp_all add: defs ctl_stop_def ctl_start_def)
  then show ?thesis by (rule that [OF reach w6])
qed

text \<open>
  C30: A stop that comes between the conditions of two workers: one of them returns, the other waits
  at the barrier for ever.
\<close>

theorem stop_can_hang:
  "\<exists>c. ctl_reach (service_of env) 2 c \<and> c_stopped c \<and> map w_pc (c_workers c) = [Arrived, Done] \<and>
     (\<nexists>c'. ctl_internal (service_of env) c c')"
proof -
  obtain c where c: "ctl_reach (service_of env) 2 c" "map w_pc (c_workers c) = [Arrived, Done]"
    "c_stopped c" "\<not> c_waiting c"
    by (rule stop_between_conditions)
  then have len: "workers c = 2" "pc c 0 = Arrived" "pc c 1 = Done" by (auto simp: Cons_eq_map_conv)
  have "\<not> ctl_internal (service_of env) c c'" for c'
  proof
    assume "ctl_internal (service_of env) c c'"
    then show False
    proof cases
      case (worker w)
      then have "w = 0 \<or> w = 1" using len by auto
      then show False using worker len by (auto simp: worker_step_def)
    qed (use len c(3,4) in \<open>auto simp: all_arrived_pc\<close>)
  qed
  then have "\<nexists>c'. ctl_internal (service_of env) c c'" by simp
  with c show ?thesis by (intro exI [of _ c] conjI)
qed

subsection \<open>One schedule\<close>

text \<open>
  The relation leaves the order of the steps open. A schedule that moves a preferred worker, or
  else the first one that can move, is a function, so runs can be evaluated; it takes only steps
  of the relation.
\<close>

definition next_step :: "service \<Rightarrow> nat \<Rightarrow> ctl \<Rightarrow> ctl option" where
  "next_step s v c =
     (if c_crashed c \<noteq> None then None
      else if c_waiting c then next_task c
      else if all_arrived c then
        Some (case c_phase c of
            PREPROCESSTASK \<Rightarrow> complete_preprocess (t_sortedIndices (sortIndices (c_task c))) c
          | PROCESSTASK \<Rightarrow> complete_process c)
      else case filter (\<lambda>w. w < length (c_workers c) \<and> worker_step s w c \<noteq> None) (v # [0..<length (c_workers c)]) of
          [] \<Rightarrow> None
        | w # ws \<Rightarrow> worker_step s w c)"

fun drive :: "service \<Rightarrow> nat list \<Rightarrow> ctl \<Rightarrow> ctl" where
  "drive s [] c = c"
| "drive s (v # vs) c = (case next_step s v c of None \<Rightarrow> c | Some c' \<Rightarrow> drive s vs c')"

lemma next_step_internal:
  assumes "next_step s v c = Some c'"
  shows "ctl_internal s c c'"
proof -
  have nc: "c_crashed c = None" using assms by (auto simp: next_step_def split: if_splits)
  consider "c_waiting c" | "\<not> c_waiting c" "all_arrived c" | "\<not> c_waiting c" "\<not> all_arrived c" by blast
  then show ?thesis
  proof cases
    case 1
    then show ?thesis using assms nc ctl_internal.next_task by (simp add: next_step_def)
  next
    case 2
    then show ?thesis
      using assms nc sortIndices_sorts [of "c_task c"]
        ctl_internal.preprocessed [of c "t_sortedIndices (sortIndices (c_task c))" s]
        ctl_internal.processed [of c s]
      by (auto simp: next_step_def split: Phase.splits)
  next
    case 3
    let ?ok = "\<lambda>w. w < length (c_workers c) \<and> worker_step s w c \<noteq> None"
    obtain w ws where w: "filter ?ok (v # [0..<length (c_workers c)]) = w # ws"
      "worker_step s w c = Some c'"
      using assms nc 3 by (auto simp: next_step_def simp del: filter.simps split: list.splits)
    have "w \<in> set (filter ?ok (v # [0..<length (c_workers c)]))" unfolding w(1) by simp
    then have "w < length (c_workers c)" unfolding set_filter by simp
    then show ?thesis using nc 3(1) w(2) ctl_internal.worker by blast
  qed
qed

lemma drive_reach: "ctl_reach s n c \<Longrightarrow> ctl_reach s n (drive s vs c)"
proof (induction vs arbitrary: c)
  case (Cons v vs)
  show ?case
  proof (cases "next_step s v c")
    case (Some c')
    then have "ctl_reach s n c'"
      using Cons.prems ctl_reach.step ctl_step.internal next_step_internal by meson
    then show ?thesis using Cons.IH Some by simp
  qed (use Cons.prems in simp)
qed simp

subsection \<open>Witnesses\<close>

definition echo_env :: server_env where
  "echo_env = \<lparr>env_policy = ECHOPOLICY, env_useRegex = False, env_ads = ads_empty\<rparr>"

definition demo_request_header :: HEADER where
  "demo_request_header = \<lparr>header_type = SESSION, field1_size = 0, field2_size = 0, header_compressor = COMPR_NONE,
     header_diagnostics = DIAG_NONE, header_status = ST_NONE, field3_size = 0, field4_size = 0\<rparr>"

definition demo_task :: "string \<Rightarrow> Task" where
  "demo_task txt = task_update False demo_request_header txt Task_new"

definition demo_ctl :: "nat \<Rightarrow> string \<Rightarrow> nat list \<Rightarrow> ctl" where
  "demo_ctl n txt vs = drive (service_of echo_env) vs (ctl_push (demo_task txt) (ctl_start n))"

lemma demo_task_ok: "task_wf False (demo_task txt)" "\<not> t_promised (demo_task txt)"
  unfolding demo_task_def by (rule task_update_batch_facts(1) [OF refl], rule task_update_batch_facts(2) [OF refl])

lemma demo_ctl_reach: "ctl_reach (service_of echo_env) n (demo_ctl n txt vs)"
  unfolding demo_ctl_def
proof (rule drive_reach, rule ctl_reach.step [OF ctl_reach.start])
  show "ctl_step (service_of echo_env) (ctl_start n) (ctl_push (demo_task txt) (ctl_start n))"
    using demo_task_ok by (intro ctl_step.push) (simp_all add: service_of_def echo_env_def)
qed

lemma demo_ctl_finished:
  "map t_response (c_finished (demo_ctl 1 (''[0]x'' @ [CHR 0x0A]) (replicate 30 0))) = [[], [''x'' @ [CHR 0x0A]]]"
  by code_simp

definition echo_rest :: ctl where
  "echo_rest = demo_ctl 1 (''[0]x'' @ [CHR 0x0A]) (replicate 30 0)"

lemma echo_rest_reach: "ctl_reach (service_of echo_env) 1 echo_rest"
  unfolding echo_rest_def by (rule demo_ctl_reach)

lemma echo_rest_task:
  obtains t where "t \<in> set (c_finished echo_rest)" "t_response t = [''x'' @ [CHR 0x0A]]"
proof -
  obtain z t where "c_finished echo_rest = [z, t]" "t_response t = [''x'' @ [CHR 0x0A]]"
    using demo_ctl_finished unfolding echo_rest_def [symmetric] by (auto simp: map_eq_Cons_conv)
  then show ?thesis by (intro that) simp_all
qed

lemma finished_answers_witness:
  "\<exists>t key. t \<in> set (c_finished echo_rest) \<and> t_response t = [''x'' @ [CHR 0x0A]] \<and>
     policy_answer echo_env key (input_of t 0) (t_diagnostics t) = Inr (''x'' @ [CHR 0x0A])"
proof -
  obtain t where t: "t \<in> set (c_finished echo_rest)" "t_response t = [''x'' @ [CHR 0x0A]]"
    by (rule echo_rest_task)
  note f = finished_answers [OF echo_rest_reach _ t(1)]
  then have "t_size t = 1" using t(2) by simp
  then show ?thesis using f t by force
qed

lemma finished_in_order_witness:
  "\<exists>rest. map batch (Task_new # c_pushed echo_rest) = map batch (c_finished echo_rest) @ rest"
  by (rule finished_in_order [OF echo_rest_reach]) simp

definition two_at_work :: ctl where
  "two_at_work = demo_ctl 2 (''a'' @ [CHR 0x0A] @ ''b'' @ [CHR 0x0A]) (take 23 (concat (replicate 12 [0, 1])))"

lemma workers_exclusive_witness: "working two_at_work = [1, 0] \<and> distinct (working two_at_work)"
proof -
  have "ctl_reach (service_of echo_env) 2 two_at_work"
    unfolding two_at_work_def by (rule demo_ctl_reach)
  moreover have "working two_at_work = [1, 0]" "c_crashed two_at_work = None" by code_simp+
  ultimately show ?thesis using workers_exclusive by simp
qed


lemma controller_at_rest_witness:
  "c_waiting echo_rest \<and> c_queue echo_rest = [] \<and>
   map batch (Task_new # c_pushed echo_rest) = map batch (c_finished echo_rest)"
proof (rule controller_at_rest [OF echo_rest_reach])
  have e: "c_waiting echo_rest \<and> c_queue echo_rest = [] \<and> c_crashed echo_rest = None \<and> \<not> c_stopped echo_rest"
    by code_simp
  then show "c_crashed echo_rest = None" "\<not> c_stopped echo_rest" by simp_all
  show "\<nexists>c'. ctl_internal (service_of echo_env) echo_rest c'"
    using e by (auto elim!: ctl_internalE simp: next_task_def setNextTask_def)
qed simp

definition bad_size :: ctl where
  "bad_size = demo_ctl 1 (''size=abc'' @ [CHR 0x0A]) (replicate 13 0)"

lemma bad_size_state:
  "c_crashed bad_size = None" "\<not> c_waiting bad_size" "workers bad_size = 1" "pc bad_size 0 = Work 0"
  "c_phase bad_size = PREPROCESSTASK" "t_size (c_task bad_size) = 1"
  "input_of (c_task bad_size) 0 = ''size=abc''"
  by code_simp+


end
