(* ===== verification/Sessions.thy ===== *)
theory Sessions
  imports Crypto_Operations Task_Controller
begin

section \<open>Sessions (Session, TcpSession, FifoSession)\<close>

text \<open>
  A session authenticates its client when it is made, tells it its number and its public keys,
  and then takes one request after the other: it decrypts the message, gives the batch to the
  task controller and waits, and sends back the responses.

  The common part, \<open>Session\<close>, is a record with functions on it. \<open>FifoSession::run\<close> is a loop
  over what the pipe gives; \<open>TcpSession\<close> is a set of handlers that post each other to an
  \<open>io_context\<close>, a step relation here. A request given to the controller comes back finished:
  the relation \<open>served\<close> between the task before and after is an argument, which the theorems
  instantiate with the task controller.
\<close>

subsection \<open>Session\<close>

record session =
  se_clientId :: nat
  se_header :: HEADER
  se_request :: string
  se_task :: Task
  se_status :: STATUS
  se_primaryCryptopp :: "encryptor option"
  se_encryptors :: crypto_tuple
  se_primaryPubKeyAes :: string
  se_secondaryPubKeyAes :: string

text \<open>What the constructors of the encryptors draw at random.\<close>

record handshake_random =
  hr_kx0 :: bytes
  hr_sign0 :: bytes
  hr_hide0 :: bytes
  hr_kx1 :: bytes
  hr_sign1 :: bytes
  hr_hide1 :: bytes

text \<open>
  The constructor: an encryptor of Crypto++ if the primary one is of this kind, in any case one
  of Sodium from the same two strings, and the secondary one. \<open>fresh\<close> is a header that nothing
  was assigned to.
\<close>

definition Session_new ::
  "CRYPTO \<Rightarrow> crypto_libs \<Rightarrow> string \<Rightarrow> handshake_random \<Rightarrow> HEADER \<Rightarrow> nat \<Rightarrow>
   string \<Rightarrow> string \<Rightarrow> string \<Rightarrow> string \<Rightarrow> session result" where
  "Session_new primary lib auth hr fresh clientId
     primarySignatureWithKey primaryPubKeyAes secondarySignatureWithKey secondaryPubKeyAes =
     bindE (if primary = CRYPTOPP
            then bindE (CryptoPlPl_session (cl_cryptopp lib) auth (hr_kx1 hr) (hr_hide1 hr)
                   primaryPubKeyAes primarySignatureWithKey) (\<lambda>e. Inr (Some e))
            else Inr None) (\<lambda>primaryCryptopp.
     bindE (CryptoSodium_session (cl_sodium lib) auth (hr_kx0 hr) (hr_hide0 hr)
              primaryPubKeyAes primarySignatureWithKey) (\<lambda>sodium.
     bindE (CryptoPlPl_session (cl_cryptopp lib) auth (hr_kx1 hr) (hr_hide1 hr)
              secondaryPubKeyAes secondarySignatureWithKey) (\<lambda>secondary.
     Inr \<lparr>se_clientId = clientId, se_header = fresh, se_request = [], se_task = Task_new,
          se_status = ST_NONE, se_primaryCryptopp = primaryCryptopp,
          se_encryptors = \<lparr>tu_sodium = Some sodium, tu_cryptopp = Some secondary, tu_input = []\<rparr>,
          se_primaryPubKeyAes = en_encodedPubKeyAes sodium,
          se_secondaryPubKeyAes = en_encodedPubKeyAes secondary\<rparr>)))"

text \<open>\<open>sendStatusToClient\<close>: the header and the three payloads that are sent.\<close>

definition keyExchangeHeader :: "session \<Rightarrow> STATUS \<Rightarrow> HEADER" where
  "keyExchangeHeader se status =
     \<lparr>header_type = DH_HANDSHAKE, field1_size = length (toCharsBoost (se_clientId se) False),
      field2_size = length (se_primaryPubKeyAes se), header_compressor = COMPR_NONE,
      header_diagnostics = DIAG_NONE, header_status = status,
      field3_size = length (se_secondaryPubKeyAes se), field4_size = 0\<rparr>"

definition statusToClient :: "session \<Rightarrow> STATUS \<Rightarrow> HEADER \<times> string \<times> string \<times> string" where
  "statusToClient se status =
     (keyExchangeHeader se status, toCharsBoost (se_clientId se) False,
      se_primaryPubKeyAes se, se_secondaryPubKeyAes se)"

text \<open>The options that a session reads.\<close>

record server_opts =
  so_compressor :: COMPRESSORS
  so_compressionLevel :: int
  so_doEncrypt :: bool
  so_singleEncryptor :: CRYPTO
  so_doubleEncryption :: bool

definition processTask ::
  "server_opts \<Rightarrow> crypto_libs \<Rightarrow> terminals \<Rightarrow> HEADER \<Rightarrow> crypto_random \<Rightarrow> string \<Rightarrow> bool \<Rightarrow> session \<Rightarrow>
   session result" where
  "processTask opts lib t fresh rn buffer sorting se =
     bindE (message_in (so_doubleEncryption opts) lib t fresh rn (so_singleEncryptor opts) buffer
              (se_header se) (se_request se) (se_encryptors se))
       (\<lambda>(header, request, tu).
          Inr (se\<lparr>se_header := header, se_request := request, se_encryptors := tu,
                  se_task := task_update sorting header request (se_task se)\<rparr>))"

text \<open>
  \<open>buildReply\<close>: the header inside the encrypted message has the size of the responses, the one
  in front of it the size of what is sent.
\<close>

definition replyHeader :: "server_opts \<Rightarrow> STATUS \<Rightarrow> nat \<Rightarrow> HEADER" where
  "replyHeader opts status n =
     \<lparr>header_type = SESSION, field1_size = n, field2_size = 0, header_compressor = so_compressor opts,
      header_diagnostics = DIAG_NONE, header_status = status, field3_size = 0, field4_size = 0\<rparr>"

definition buildReply ::
  "server_opts \<Rightarrow> crypto_libs \<Rightarrow> terminals \<Rightarrow> crypto_random \<Rightarrow> string \<Rightarrow> session \<Rightarrow>
   (HEADER \<times> string \<times> session) result" where
  "buildReply opts lib t rn buffer se =
     (let responseData = concat (t_response (se_task se));
          header = replyHeader opts (se_status se) (length responseData) in
      bindE (message_out (so_doubleEncryption opts) lib t rn (so_singleEncryptor opts) buffer header
               (so_doEncrypt opts) (so_compressionLevel opts) responseData (se_encryptors se))
        (\<lambda>(payload, tu).
           Inr (replyHeader opts (se_status se) (length payload), payload, se\<lparr>se_encryptors := tu\<rparr>)))"

text \<open>Both sessions forget the status of a full pool when they begin to run.\<close>

definition clear_capacity :: "session \<Rightarrow> session" where
  "clear_capacity se =
     (if se_status se \<in> {MAX_OBJECTS_OF_TYPE, MAX_TOTAL_OBJECTS} then se\<lparr>se_status := ST_NONE\<rparr> else se)"

subsection \<open>FifoSession\<close>

text \<open>
  What the world gives to one turn of the loop: whether the session is stopped, whether the pipe
  exists at the two places where this is asked, what reading it gives, what the controller makes
  of the task (\<open>None\<close>: there is no controller any more), whether the pipe opens for writing and
  how the writes go, and the random bytes.
\<close>

record fifo_turn =
  ft_stopped :: bool
  ft_exists :: bool
  ft_readable :: bool
  ft_reads :: "read_result list"
  ft_controller :: "Task \<Rightarrow> Task option"
  ft_exists_still :: bool
  ft_writable :: bool
  ft_writes :: "write_result list"
  ft_random :: crypto_random
  ft_random_reply :: crypto_random
  ft_buffer :: string

text \<open>
  The results are the bytes written into the pipe, the session and the returned flag, and
  \<open>None\<close> when the call has not returned.
\<close>

definition sendResponse ::
  "server_opts \<Rightarrow> crypto_libs \<Rightarrow> terminals \<Rightarrow> fifo_turn \<Rightarrow> session \<Rightarrow> (string \<times> session \<times> bool) option result"
where
  "sendResponse opts lib t ft se =
     (if \<not> ft_exists_still ft then Inr (Some ([], se, False))
      else bindE (buildReply opts lib t (ft_random_reply ft) (ft_buffer ft) se) (\<lambda>(header, payload, se).
        if payload = [] then Inr (Some ([], se, False))
        else bindE (fifo_sendMessage (ft_writable ft) (ft_writes ft) header payload [] [] []) (\<lambda>r.
          case r of None \<Rightarrow> Inr None | Some (written, ok) \<Rightarrow> Inr (Some (written, se, ok)))))"

definition receiveRequest ::
  "server_opts \<Rightarrow> crypto_libs \<Rightarrow> terminals \<Rightarrow> HEADER \<Rightarrow> bool \<Rightarrow> fifo_turn \<Rightarrow> session \<Rightarrow>
   (string \<times> session \<times> bool) option result" where
  "receiveRequest opts lib t fresh sorting ft se =
     (if \<not> ft_exists ft then Inr (Some ([], se, False))
      else
        let se = (clear_capacity se)\<lparr>se_request := []\<rparr> in
        case bindE (fifo_readMessage (ft_readable ft) True (ft_reads ft) fresh [se_request se]) (\<lambda>r.
               case r of
                 None \<Rightarrow> Inr None
               | Some (_, array, ok) \<Rightarrow>
                   if \<not> ok then Inr (Some ([], se, False))
                   else bindE (processTask opts lib t fresh (ft_random ft) (ft_buffer ft) sorting
                                 (se\<lparr>se_request := hd array\<rparr>)) (\<lambda>se.
                     case ft_controller ft (se_task se) of
                       None \<Rightarrow> Inr (Some ([], se, False))
                     | Some task \<Rightarrow> sendResponse opts lib t ft (se\<lparr>se_task := task\<rparr>))) of
          Inl e \<Rightarrow> if std_exception e then Inr (Some ([], se, False)) else Inl e
        | Inr r \<Rightarrow> Inr r)"

text \<open>The loop of \<open>run\<close>: everything that was written, and whether it has returned.\<close>

fun fifo_run ::
  "server_opts \<Rightarrow> crypto_libs \<Rightarrow> terminals \<Rightarrow> HEADER \<Rightarrow> bool \<Rightarrow> fifo_turn list \<Rightarrow> session \<Rightarrow>
   (string list \<times> session \<times> bool) result" where
  "fifo_run opts lib t fresh sorting [] se = Inr ([], se, False)"
| "fifo_run opts lib t fresh sorting (ft # fts) se =
     (if ft_stopped ft then Inr ([], se, True)
      else bindE (receiveRequest opts lib t fresh sorting ft se) (\<lambda>r.
        case r of
          None \<Rightarrow> Inr ([], se, False)
        | Some (written, se, ok) \<Rightarrow>
            if \<not> ok then Inr ([written], se, True)
            else bindE (fifo_run opts lib t fresh sorting fts se)
              (\<lambda>(ws, se, returned). Inr (written # ws, se, returned))))"

subsection \<open>A batch through the session\<close>

text \<open>
  The task that the controller gave back: finished in some run of the controller, with the batch
  that the session pushed. What the responses are then is the specification \<open>batch_answer\<close>.
\<close>

definition served :: "server_env \<Rightarrow> Task \<Rightarrow> Task \<Rightarrow> bool" where
  "served env task task' \<longleftrightarrow>
     (\<exists>n c. 0 < n \<and> ctl_reach (service_of env) n c \<and> task' \<in> set (c_finished c) \<and> batch task' = batch task)"

definition batch_answer :: "server_env \<Rightarrow> bool \<Rightarrow> string \<Rightarrow> string result" where
  "batch_answer env diagnostics request =
     bindE (createSizeKey (env_useRegex env) request) (\<lambda>key. policy_answer env key request diagnostics)"

lemma served_response:
  assumes "served env task task'"
  shows "map Inr (t_response task') = map (batch_answer env (snd (batch task))) (fst (batch task))"
proof -
  obtain n c where c: "ctl_reach (service_of env) n c" "0 < n" "task' \<in> set (c_finished c)"
    "batch task' = batch task"
    using assms unfolding served_def by blast
  note f = finished_task [OF c(1-3)]
  have "map Inr (t_response task') = map (batch_answer env (snd (batch task'))) (fst (batch task'))"
    using f by (intro nth_equalityI) (auto simp: batch_def batch_answer_def)
  then show ?thesis by (simp add: c(4))
qed

text \<open>The requests of a text: its rows, each ended by a line feed.\<close>

definition requests_of :: "string \<Rightarrow> string list" where
  "requests_of body = take (count_list body (CHR 0x0A)) (rows_of (CHR 0x0A) False body)"

text \<open>The peer of a session: a client's options and encryptors that go with it.\<close>

definition opts_ok :: "server_opts \<Rightarrow> bool" where
  "opts_ok opts \<longleftrightarrow> so_singleEncryptor opts \<in> {CRYPTOSODIUM, CRYPTOPP} \<and>
     so_compressor opts \<notin> {COMPR_INVALIDLOW, COMPR_INVALIDHIGH}"

lemma processTask_batch:
  assumes "message_in (so_doubleEncryption opts) lib t' fresh rn' (so_singleEncryptor opts) buffer'
      (se_header se) (se_request se) (se_encryptors se) = Inr (h, body, tu3)"
  obtains se' where "processTask opts lib t' fresh rn' buffer' sorting se = Inr se'"
    "se_encryptors se' = tu3" "se_status se' = se_status se" "task_wf sorting (se_task se')"
    "\<not> t_promised (se_task se')" "batch (se_task se') = (requests_of body, isDiagnosticsEnabled h)"
proof -
  let ?t = "task_update sorting h body (se_task se)"
  note b = task_update_batch_facts [OF refl [of ?t]]
  show ?thesis
    by (rule that [of "se\<lparr>se_header := h, se_request := body, se_encryptors := tu3, se_task := ?t\<rparr>"])
      (use assms b in \<open>simp_all add: processTask_def requests_of_def\<close>)
qed

lemma buildReply_opens:
  assumes "crypto_libs_ok lib" "crypto_random_ok rn" "tuple_peers t' (se_encryptors se) t tu" "opts_ok opts"
    and "se_status se \<notin> {ST_INVALIDLOW, ST_INVALIDHIGH}"
    and "length (concat (t_response (se_task se))) < 10 ^ 10"
    and "recognised fresh (so_doubleEncryption opts) lib t' rn (so_singleEncryptor opts) buffer
      (replyHeader opts (se_status se) (length (concat (t_response (se_task se))))) (so_doEncrypt opts)
      (so_compressionLevel opts) (concat (t_response (se_task se))) (se_encryptors se)"
  obtains payload se' where
    "buildReply opts lib t' rn buffer se = Inr (replyHeader opts (se_status se) (length payload), payload, se')"
    "tuple_peers t' (se_encryptors se') t tu"
    "\<And>rn' buffer' h0. \<exists>h tu3. message_in (so_doubleEncryption opts) lib t fresh rn' (so_singleEncryptor opts)
       buffer' h0 payload tu = Inr (h, concat (t_response (se_task se)), tu3) \<and>
       tuple_peers t' (se_encryptors se') t tu3"
proof -
  let ?data = "concat (t_response (se_task se))"
  let ?h = "replyHeader opts (se_status se) (length ?data)"
  have wf: "header_wf ?h" using assms(4-6) by (simp add: header_wf_def replyHeader_def opts_ok_def)
  have len: "length ?data < 2 ^ 64" using assms(6) by simp
  have crypto: "so_singleEncryptor opts \<in> {CRYPTOSODIUM, CRYPTOPP}" using assms(4) by (simp add: opts_ok_def)
  obtain payload tu2 where m: "message_out (so_doubleEncryption opts) lib t' rn (so_singleEncryptor opts) buffer ?h
      (so_doEncrypt opts) (so_compressionLevel opts) ?data (se_encryptors se) = Inr (payload, tu2)"
    "tuple_peers t' tu2 t tu"
    "\<And>rn' buffer' h0. \<exists>tu3. message_in (so_doubleEncryption opts) lib t fresh rn' (so_singleEncryptor opts)
       buffer' h0 payload tu = Inr (received_header ?h, ?data, tu3) \<and> tuple_peers t' tu2 t tu3"
    using message_roundtrip [OF assms(1-3) wf len crypto assms(7)] by blast
  show ?thesis
  proof (rule that [of payload "se\<lparr>se_encryptors := tu2\<rparr>"])
    show "buildReply opts lib t' rn buffer se =
        Inr (replyHeader opts (se_status se) (length payload), payload, se\<lparr>se_encryptors := tu2\<rparr>)"
      using m(1) by (simp add: buildReply_def Let_def)
    show "tuple_peers t' (se_encryptors (se\<lparr>se_encryptors := tu2\<rparr>)) t tu" using m(2) by simp
    show "\<exists>h tu3. message_in (so_doubleEncryption opts) lib t fresh rn' (so_singleEncryptor opts)
       buffer' h0 payload tu = Inr (h, ?data, tu3) \<and>
       tuple_peers t' (se_encryptors (se\<lparr>se_encryptors := tu2\<rparr>)) t tu3" for rn' buffer' h0
      using m(3) [of rn' buffer' h0] by auto
  qed
qed

lemma message_in_nonempty:
  assumes "tuple_peers t tu t' tu'" and "message_in double lib t' fresh rn crypto buffer h0 data tu' = Inr r"
    and "crypto \<in> {CRYPTOSODIUM, CRYPTOPP}"
  shows "data \<noteq> []"
proof
  assume data: "data = []"
  obtain e1 e2 where e: "tu_sodium tu' = Some e1" "may_use t' e1" "tu_cryptopp tu' = Some e2" "may_use t' e2"
    using assms(1) unfolding tuple_peers_def by blast
  have plain: "isEncrypted fresh [] = Inr False" by (simp add: isEncrypted_def)
  have "decrypt_sodium lib t' fresh rn [] tu' = Inr ([], tu')" "decrypt_cryptopp lib t' fresh rn [] tu' = Inr ([], tu')"
    using sodium_cipher.dec_plain [OF e(2) plain] cryptopp_cipher.dec_plain [OF e(4) plain] e
    by (simp_all add: decrypt_sodium_def decrypt_cryptopp_def)
  moreover have "deserialize h0 [] = Inl Undefined_Behaviour" by (simp add: deserialize_def HEADER_SIZE_44)
  ultimately show False
    using assms(2,3) data
    by (auto simp: message_in_def doubleDecryptDecompress_def singleDecryptDecompress_def doubleDecrypt_def
        singleDecrypt_def split: if_splits)
qed

lemma served_replies:
  assumes "served env task task'" and "batch task = (requests, d)"
    and "map (batch_answer env d) requests = map Inr replies"
  shows "t_response task' = replies"
proof -
  have "map Inr (t_response task') = (map Inr replies :: string result list)"
    using served_response [OF assms(1)] assms(2,3) by simp
  then show ?thesis using inj_map_eq_map [of "Inr :: string \<Rightarrow> string result"] by (simp add: inj_def)
qed

text \<open>
  What both kinds of session do between reading a message and sending the reply: the client's
  batch reaches the task, and the reply built from the task that came back opens to the answers,
  with any encryptors of the client that have the keys of the session.
\<close>

lemma session_answers:
  assumes se: "se_encryptors se = tu'" "se_status se = st" "se_request se = msg"
    and libs: "crypto_libs_ok lib" "crypto_random_ok rn" "crypto_random_ok rn'"
    and peers: "tuple_peers t tu t' tu'" and opts: "opts_ok opts"
    and status: "st \<notin> {ST_INVALIDLOW, ST_INVALIDHIGH}"
    and client: "header_wf h" "length body < 2 ^ 64"
      "recognised fresh (so_doubleEncryption opts) lib t rn (so_singleEncryptor opts) cbuffer h enc level body tu"
      "message_out (so_doubleEncryption opts) lib t rn (so_singleEncryptor opts) cbuffer h enc level body tu
         = Inr (msg, tu2)"
    and replies: "map (batch_answer env (isDiagnosticsEnabled h)) (requests_of body) = map Inr replies"
      "length (concat replies) < 10 ^ 10"
      "\<forall>tu3. tuple_peers t tu2 t' tu3 \<longrightarrow> recognised fresh (so_doubleEncryption opts) lib t'
         rn' (so_singleEncryptor opts) buffer' (replyHeader opts st (length (concat replies)))
         (so_doEncrypt opts) (so_compressionLevel opts) (concat replies) tu3"
  obtains se1 where "processTask opts lib t' fresh rs bs sorting se = Inr se1"
    and "batch (se_task se1) = (requests_of body, isDiagnosticsEnabled h)" and "msg \<noteq> []"
    and "tuple_peers t tu2 t' (se_encryptors se1)"
    and "\<And>task. served env (se_task se1) task \<Longrightarrow> \<exists>payload se'. t_response task = replies \<and> payload \<noteq> [] \<and>
      buildReply opts lib t' rn' buffer' (se1\<lparr>se_task := task\<rparr>) =
        Inr (replyHeader opts st (length payload), payload, se') \<and> se_status se' = st \<and>
      (\<forall>tuc. tuple_peers t tuc t' (se_encryptors se1) \<longrightarrow> tuple_peers t tuc t' (se_encryptors se') \<and>
        (\<forall>rn2 buffer2 h0. \<exists>h' tu4. message_in (so_doubleEncryption opts) lib t fresh rn2 (so_singleEncryptor opts)
           buffer2 h0 payload tuc = Inr (h', concat replies, tu4) \<and> tuple_peers t tu4 t' (se_encryptors se')))"
proof -
  let ?double = "so_doubleEncryption opts" and ?crypto = "so_singleEncryptor opts"
  have crypto: "?crypto \<in> {CRYPTOSODIUM, CRYPTOPP}" using opts by (simp add: opts_ok_def)
  obtain tu3 where tu3: "message_in ?double lib t' fresh rs ?crypto bs (se_header se) (se_request se)
      (se_encryptors se) = Inr (received_header h, body, tu3)" "tuple_peers t tu2 t' tu3"
    using message_roundtrip [OF libs(1,2) peers client(1,2) crypto client(3)] client(4) se by fastforce
  have msg: "msg \<noteq> []" using message_in_nonempty [OF peers tu3(1) [unfolded se] crypto] by (simp add: se)
  have diag: "isDiagnosticsEnabled (received_header h) = isDiagnosticsEnabled h"
    by (simp add: isDiagnosticsEnabled_def extractDiagnostics_def received_header_def)
  obtain se1 where se1: "processTask opts lib t' fresh rs bs sorting se = Inr se1"
    "se_encryptors se1 = tu3" "se_status se1 = st"
    "batch (se_task se1) = (requests_of body, isDiagnosticsEnabled h)"
    by (rule processTask_batch [OF tu3(1), of sorting]) (use diag se in auto)
  have peers2: "tuple_peers t tu2 t' (se_encryptors se1)" using tu3(2) se1(2) by simp
  show ?thesis
  proof (rule that [OF se1(1,4) msg peers2])
    fix task assume task: "served env (se_task se1) task"
    have resp: "t_response task = replies" by (rule served_replies [OF task se1(4) replies(1)])
    let ?se2 = "se1\<lparr>se_task := task\<rparr>"
    have opens: "\<exists>payload se'. buildReply opts lib t' rn' buffer' ?se2 =
        Inr (replyHeader opts st (length payload), payload, se') \<and> tuple_peers t tuc t' (se_encryptors se') \<and>
        (\<forall>rn2 buffer2 h0. \<exists>h' tu4. message_in ?double lib t fresh rn2 ?crypto buffer2 h0 payload tuc =
           Inr (h', concat replies, tu4) \<and> tuple_peers t tu4 t' (se_encryptors se'))"
      if p: "tuple_peers t tuc t' (se_encryptors se1)" for tuc
    proof -
      have p': "tuple_peers t' (se_encryptors ?se2) t tuc" using p tuple_peers_sym by simp
      obtain payload se' where reply: "buildReply opts lib t' rn' buffer' ?se2 =
          Inr (replyHeader opts (se_status ?se2) (length payload), payload, se')"
        "tuple_peers t' (se_encryptors se') t tuc"
        and opens: "\<And>rn2 buffer2 h0. \<exists>h tu4. message_in ?double lib t fresh rn2 ?crypto
           buffer2 h0 payload tuc = Inr (h, concat (t_response (se_task ?se2)), tu4) \<and>
           tuple_peers t' (se_encryptors se') t tu4"
        by (rule buildReply_opens [OF libs(1,3) p' opts, of fresh buffer'])
          (use replies resp status se1(2,3) tu3(2) in auto)
      have "\<exists>h' tu4. message_in ?double lib t fresh rn2 ?crypto buffer2 h0 payload tuc =
          Inr (h', concat replies, tu4) \<and> tuple_peers t tu4 t' (se_encryptors se')" for rn2 buffer2 h0
        using opens [of rn2 buffer2 h0] resp tuple_peers_sym by fastforce
      then show ?thesis using reply se1(3) tuple_peers_sym by (intro exI [of _ payload] exI [of _ se']) simp
    qed
    obtain payload se' where reply: "buildReply opts lib t' rn' buffer' ?se2 =
        Inr (replyHeader opts st (length payload), payload, se')"
      "\<exists>h' tu4. message_in ?double lib t fresh rn ?crypto [] fresh payload tu2 = Inr (h', concat replies, tu4)"
      using opens [OF peers2] by blast
    have "se_status se' = st" using reply(1) se1(3) by (auto simp: buildReply_def bindE_Inr_iff Let_def)
    moreover have "payload \<noteq> []"
      using message_in_nonempty [OF tuple_peers_sym [OF peers2]] reply(2) crypto by blast
    ultimately show "\<exists>payload se'. t_response task = replies \<and> payload \<noteq> [] \<and>
      buildReply opts lib t' rn' buffer' ?se2 =
        Inr (replyHeader opts st (length payload), payload, se') \<and> se_status se' = st \<and>
      (\<forall>tuc. tuple_peers t tuc t' (se_encryptors se1) \<longrightarrow> tuple_peers t tuc t' (se_encryptors se') \<and>
        (\<forall>rn2 buffer2 h0. \<exists>h' tu4. message_in ?double lib t fresh rn2 ?crypto
           buffer2 h0 payload tuc = Inr (h', concat replies, tu4) \<and> tuple_peers t tu4 t' (se_encryptors se')))"
      using reply(1) resp opens by (intro exI [of _ payload] exI [of _ se']) fastforce
  qed
qed

text \<open>In particular with the encryptors that the client is left with when it has sealed the batch.\<close>

lemma session_exchange:
  assumes se: "se_encryptors se = tu'" "se_status se = st" "se_request se = msg"
    and libs: "crypto_libs_ok lib" "crypto_random_ok rn" "crypto_random_ok rn'"
    and peers: "tuple_peers t tu t' tu'" and opts: "opts_ok opts"
    and status: "st \<notin> {ST_INVALIDLOW, ST_INVALIDHIGH}"
    and client: "header_wf h" "length body < 2 ^ 64"
      "recognised fresh (so_doubleEncryption opts) lib t rn (so_singleEncryptor opts) cbuffer h enc level body tu"
      "message_out (so_doubleEncryption opts) lib t rn (so_singleEncryptor opts) cbuffer h enc level body tu
         = Inr (msg, tu2)"
    and replies: "map (batch_answer env (isDiagnosticsEnabled h)) (requests_of body) = map Inr replies"
      "length (concat replies) < 10 ^ 10"
      "\<forall>tu3. tuple_peers t tu2 t' tu3 \<longrightarrow> recognised fresh (so_doubleEncryption opts) lib t'
         rn' (so_singleEncryptor opts) buffer'
         (replyHeader opts (st) (length (concat replies)))
         (so_doEncrypt opts) (so_compressionLevel opts) (concat replies) tu3"
  obtains se1 where "processTask opts lib t' fresh rs bs sorting se = Inr se1"
    and "batch (se_task se1) = (requests_of body, isDiagnosticsEnabled h)" and "msg \<noteq> []"
    and "\<And>task. served env (se_task se1) task \<Longrightarrow> \<exists>payload se'. t_response task = replies \<and> payload \<noteq> [] \<and>
      buildReply opts lib t' rn' buffer' (se1\<lparr>se_task := task\<rparr>) =
        Inr (replyHeader opts (st) (length payload), payload, se') \<and>
      tuple_peers t tu2 t' (se_encryptors se') \<and>
      (\<forall>rn2 buffer2 h0. \<exists>h' tu4. message_in (so_doubleEncryption opts) lib t fresh rn2 (so_singleEncryptor opts)
         buffer2 h0 payload tu2 = Inr (h', concat replies, tu4) \<and> tuple_peers t tu4 t' (se_encryptors se'))"
proof -
  obtain se1 where se1: "processTask opts lib t' fresh rs bs sorting se = Inr se1"
    "batch (se_task se1) = (requests_of body, isDiagnosticsEnabled h)" "msg \<noteq> []" "tuple_peers t tu2 t' (se_encryptors se1)"
    and answer: "\<And>task. served env (se_task se1) task \<Longrightarrow> \<exists>payload se'. t_response task = replies \<and> payload \<noteq> [] \<and>
      buildReply opts lib t' rn' buffer' (se1\<lparr>se_task := task\<rparr>) =
        Inr (replyHeader opts st (length payload), payload, se') \<and> se_status se' = st \<and>
      (\<forall>tuc. tuple_peers t tuc t' (se_encryptors se1) \<longrightarrow> tuple_peers t tuc t' (se_encryptors se') \<and>
        (\<forall>rn2 buffer2 h0. \<exists>h' tu4. message_in (so_doubleEncryption opts) lib t fresh rn2 (so_singleEncryptor opts)
           buffer2 h0 payload tuc = Inr (h', concat replies, tu4) \<and> tuple_peers t tu4 t' (se_encryptors se')))"
    by (rule session_answers [OF se libs peers opts status client replies, of rs bs sorting]; rule that; assumption)
  show ?thesis
  proof (rule that [OF se1(1-3)])
    fix task assume "served env (se_task se1) task"
    from answer [OF this] obtain payload se' where r: "t_response task = replies" "payload \<noteq> []"
      "buildReply opts lib t' rn' buffer' (se1\<lparr>se_task := task\<rparr>) =
        Inr (replyHeader opts st (length payload), payload, se')"
      and c: "\<And>tuc. tuple_peers t tuc t' (se_encryptors se1) \<Longrightarrow> tuple_peers t tuc t' (se_encryptors se') \<and>
        (\<forall>rn2 buffer2 h0. \<exists>h' tu4. message_in (so_doubleEncryption opts) lib t fresh rn2 (so_singleEncryptor opts)
           buffer2 h0 payload tuc = Inr (h', concat replies, tu4) \<and> tuple_peers t tu4 t' (se_encryptors se'))"
      by blast
    show "\<exists>payload se'. t_response task = replies \<and> payload \<noteq> [] \<and>
      buildReply opts lib t' rn' buffer' (se1\<lparr>se_task := task\<rparr>) =
        Inr (replyHeader opts st (length payload), payload, se') \<and> tuple_peers t tu2 t' (se_encryptors se') \<and>
      (\<forall>rn2 buffer2 h0. \<exists>h' tu4. message_in (so_doubleEncryption opts) lib t fresh rn2 (so_singleEncryptor opts)
         buffer2 h0 payload tu2 = Inr (h', concat replies, tu4) \<and> tuple_peers t tu4 t' (se_encryptors se'))"
      using r c [OF se1(4)] by (intro exI [of _ payload] exI [of _ se']) simp
  qed
qed

subsection \<open>One turn of a FIFO session\<close>

lemma fifo_turn_reads:
  assumes "unmarked (serialize h1 @ msg)" "concat cs = message_bytes h1 msg [] [] []" "header_wf h1"
    "field1_size h1 = length msg" "msg \<noteq> []"
  shows "fifo_readMessage True True (map Read_Bytes cs) fresh [[]] = Inr (Some (received_header h1, [msg], True))"
  using fifo_readMessage_chunks [OF assms(1), of cs fresh "[[]]"] processMessage_one [OF assms(3,4), of "[]" fresh]
    assms(2,5)
  by (simp add: message_bytes_def)

lemma receiveRequest_steps:
  assumes "ft_exists ft" "ft_readable ft" "ft_reads ft = rs"
    and "fifo_readMessage True True rs fresh [[]] = Inr (Some (h, [msg], True))"
    and "processTask opts lib t' fresh (ft_random ft) (ft_buffer ft) sorting
      ((clear_capacity se)\<lparr>se_request := msg\<rparr>) = Inr se1"
    and "ft_controller ft (se_task se1) = Some task"
  shows "receiveRequest opts lib t' fresh sorting ft se =
    (case sendResponse opts lib t' ft (se1\<lparr>se_task := task\<rparr>) of
       Inl e \<Rightarrow> if std_exception e
         then Inr (Some ([], (clear_capacity se)\<lparr>se_request := []\<rparr>, False)) else Inl e
     | Inr r \<Rightarrow> Inr r)"
  using assms by (simp add: receiveRequest_def Let_def)

text \<open>
  C5: A client's batch, sealed by its encryptors and written into the pipe in whatever pieces, is
  answered in one turn: the session writes the reply that the client opens to the answers of the
  policy to the requests of the batch, one after the other. Both sides have matching encryptors
  again for the next turn.
\<close>

theorem fifo_exchange:
  assumes libs: "crypto_libs_ok lib" "crypto_random_ok rn" "crypto_random_ok (ft_random_reply ft)"
    and peers: "tuple_peers t tu t' (se_encryptors se)" and opts: "opts_ok opts"
    and status: "se_status (clear_capacity se) \<notin> {ST_INVALIDLOW, ST_INVALIDHIGH}"
    and client: "header_wf h" "length body < 2 ^ 64"
      "recognised fresh (so_doubleEncryption opts) lib t rn (so_singleEncryptor opts) cbuffer h enc level body tu"
      "message_out (so_doubleEncryption opts) lib t rn (so_singleEncryptor opts) cbuffer h enc level body tu
         = Inr (msg, tu2)"
    and wire: "header_wf h1" "field1_size h1 = length msg" "unmarked (serialize h1 @ msg)"
      "concat cs = message_bytes h1 msg [] [] []"
    and turn: "ft_exists ft" "ft_readable ft" "ft_reads ft = map Read_Bytes cs" "ft_exists_still ft"
      "\<forall>task. batch task = (requests_of body, isDiagnosticsEnabled h) \<longrightarrow>
         (\<exists>task'. ft_controller ft task = Some task' \<and> served env task task')"
    and replies: "map (batch_answer env (isDiagnosticsEnabled h)) (requests_of body) = map Inr replies"
      "length (concat replies) < 10 ^ 10"
      "\<forall>tu3. tuple_peers t tu2 t' tu3 \<longrightarrow> recognised fresh (so_doubleEncryption opts) lib t'
         (ft_random_reply ft) (so_singleEncryptor opts) (ft_buffer ft)
         (replyHeader opts (se_status (clear_capacity se)) (length (concat replies)))
         (so_doEncrypt opts) (so_compressionLevel opts) (concat replies) tu3"
  shows "\<exists>payload se'.
    receiveRequest opts lib t' fresh sorting ft se =
      (case fifo_sendMessage (ft_writable ft) (ft_writes ft)
         (replyHeader opts (se_status (clear_capacity se)) (length payload)) payload [] [] [] of
         Inl e \<Rightarrow> if std_exception e
           then Inr (Some ([], (clear_capacity se)\<lparr>se_request := []\<rparr>, False)) else Inl e
       | Inr r \<Rightarrow> Inr (map_option (\<lambda>(w, ok). (w, se', ok)) r)) \<and>
    tuple_peers t tu2 t' (se_encryptors se') \<and>
    (\<forall>rn2 buffer2 h0. \<exists>h' tu4. message_in (so_doubleEncryption opts) lib t fresh rn2 (so_singleEncryptor opts)
       buffer2 h0 payload tu2 = Inr (h', concat replies, tu4) \<and> tuple_peers t tu4 t' (se_encryptors se'))"
proof -
  let ?se0 = "(clear_capacity se)\<lparr>se_request := msg\<rparr>"
  have se0: "se_encryptors ?se0 = se_encryptors se" "se_request ?se0 = msg"
    "se_status ?se0 = se_status (clear_capacity se)"
    by (simp_all add: clear_capacity_def)
  obtain se1 where se1: "processTask opts lib t' fresh (ft_random ft) (ft_buffer ft) sorting ?se0 = Inr se1"
    "batch (se_task se1) = (requests_of body, isDiagnosticsEnabled h)" "msg \<noteq> []"
    and answer: "\<And>task. served env (se_task se1) task \<Longrightarrow> \<exists>payload se'. t_response task = replies \<and> payload \<noteq> [] \<and>
      buildReply opts lib t' (ft_random_reply ft) (ft_buffer ft) (se1\<lparr>se_task := task\<rparr>) =
        Inr (replyHeader opts (se_status (clear_capacity se)) (length payload), payload, se') \<and>
      tuple_peers t tu2 t' (se_encryptors se') \<and>
      (\<forall>rn2 buffer2 h0. \<exists>h' tu4. message_in (so_doubleEncryption opts) lib t fresh rn2 (so_singleEncryptor opts)
         buffer2 h0 payload tu2 = Inr (h', concat replies, tu4) \<and> tuple_peers t tu4 t' (se_encryptors se'))"
    by (rule session_exchange [OF se0(1,3,2) libs peers opts status client replies,
          of "ft_random ft" "ft_buffer ft" sorting]; rule that; assumption)
  obtain task where task: "ft_controller ft (se_task se1) = Some task" "served env (se_task se1) task"
    using turn(5) se1(2) by blast
  obtain payload se' where reply: "payload \<noteq> []"
    "buildReply opts lib t' (ft_random_reply ft) (ft_buffer ft) (se1\<lparr>se_task := task\<rparr>) =
        Inr (replyHeader opts (se_status (clear_capacity se)) (length payload), payload, se')"
    "tuple_peers t tu2 t' (se_encryptors se')"
    "\<forall>rn2 buffer2 h0. \<exists>h' tu4. message_in (so_doubleEncryption opts) lib t fresh rn2 (so_singleEncryptor opts)
         buffer2 h0 payload tu2 = Inr (h', concat replies, tu4) \<and> tuple_peers t tu4 t' (se_encryptors se')"
    using answer [OF task(2)] by blast
  then have "sendResponse opts lib t' ft (se1\<lparr>se_task := task\<rparr>) =
      bindE (fifo_sendMessage (ft_writable ft) (ft_writes ft)
        (replyHeader opts (se_status (clear_capacity se)) (length payload)) payload [] [] [])
        (\<lambda>r. Inr (map_option (\<lambda>(w, ok). (w, se', ok)) r))"
    using turn(4) by (auto simp: sendResponse_def bindE_def split: sum.splits option.splits)
  then have "receiveRequest opts lib t' fresh sorting ft se =
      (case fifo_sendMessage (ft_writable ft) (ft_writes ft)
         (replyHeader opts (se_status (clear_capacity se)) (length payload)) payload [] [] [] of
         Inl e \<Rightarrow> if std_exception e
           then Inr (Some ([], (clear_capacity se)\<lparr>se_request := []\<rparr>, False)) else Inl e
       | Inr r \<Rightarrow> Inr (map_option (\<lambda>(w, ok). (w, se', ok)) r))"
    unfolding receiveRequest_steps [OF turn(1-3) fifo_turn_reads [OF wire(3,4,1,2) se1(3)] se1(1) task(1)]
    by (cases "fifo_sendMessage (ft_writable ft) (ft_writes ft)
         (replyHeader opts (se_status (clear_capacity se)) (length payload)) payload [] [] []") simp_all
  then show ?thesis using reply(3,4) by blast
qed

subsection \<open>Witness\<close>

definition demo_opts :: server_opts where
  "demo_opts = \<lparr>so_compressor = LZ4, so_compressionLevel = 3, so_doEncrypt = False,
     so_singleEncryptor = CRYPTOSODIUM, so_doubleEncryption = False\<rparr>"

definition demo_session :: session where
  "demo_session = \<lparr>se_clientId = 17, se_header = demo_header, se_request = [], se_task = Task_new,
     se_status = MAX_OBJECTS_OF_TYPE, se_primaryCryptopp = None, se_encryptors = demo_tuple False,
     se_primaryPubKeyAes = [], se_secondaryPubKeyAes = []\<rparr>"

definition echo_body :: string where
  "echo_body = ''[0]x'' @ [CHR 0x0A]"

text \<open>What the client sends: the batch, encrypted by the first encryptor.\<close>

definition demo_sealed :: "(string \<times> crypto_tuple) result" where
  "demo_sealed = message_out False demo_libs client_terminals demo_random CRYPTOSODIUM [] demo_request_header
     True 3 echo_body (demo_tuple True)"

definition demo_turn :: "string \<Rightarrow> Task \<Rightarrow> fifo_turn" where
  "demo_turn bytes task = \<lparr>ft_stopped = False, ft_exists = True, ft_readable = True,
     ft_reads = map Read_Bytes [take 50 bytes, drop 50 bytes], ft_controller = (\<lambda>_. Some task),
     ft_exists_still = True, ft_writable = True, ft_writes = replicate 6 (Wrote 100),
     ft_random = demo_random, ft_random_reply = demo_random, ft_buffer = []\<rparr>"

definition echo_answered :: Task where
  "echo_answered = last (c_finished echo_rest)"

lemma echo_served:
  assumes "batch task0 = ([''[0]x''], False)"
  shows "served echo_env task0 echo_answered"
proof -
  have "map batch (c_finished echo_rest) = [([], False), ([''[0]x''], False)]" by code_simp
  then obtain z task where fin: "c_finished echo_rest = [z, task]" and b: "batch task = ([''[0]x''], False)"
    by (auto simp: map_eq_Cons_conv)
  then show ?thesis
    unfolding served_def echo_answered_def using assms echo_rest_reach
    by (intro exI [of _ 1] exI [of _ echo_rest]) simp
qed

lemma map_sum_InrE:
  assumes "map_sum f g x = Inr b"
  obtains a where "x = Inr a" "g a = b"
  using assms by (cases x) simp_all

lemma demo_sealed_message:
  obtains msg tu2 where "demo_sealed = Inr (msg, tu2)" "length msg = 77"
    "unmarked (serialize (demo_request_header\<lparr>field1_size := length msg\<rparr>) @ msg)"
proof -
  have "map_sum id (\<lambda>(res, _). (length res,
      unmarked (serialize (demo_request_header\<lparr>field1_size := length res\<rparr>) @ res))) demo_sealed = Inr (77, True)"
    by code_simp
  then show ?thesis by (elim map_sum_InrE) (auto intro: that)
qed

lemma demo_sealed_recognised:
  "recognised demo_header False demo_libs client_terminals demo_random CRYPTOSODIUM [] demo_request_header
     True 3 echo_body (demo_tuple True)"
proof -
  have "map_sum id (\<lambda>(res, _). isEncrypted demo_header res) demo_sealed = Inr (Inr True)" by code_simp
  then show ?thesis
    by (elim map_sum_InrE) (auto simp: recognised_def looks_encrypted_def demo_sealed_def)
qed

lemma echo_requests: "requests_of echo_body = [''[0]x'']" "isDiagnosticsEnabled demo_request_header = False"
  by code_simp+

lemma echo_answer: "batch_answer echo_env False ''[0]x'' = Inr (''x'' @ [CHR 0x0A])"
  by code_simp

lemma demo_request_wf: "n < 10 ^ 10 \<Longrightarrow> header_wf (demo_request_header\<lparr>field1_size := n\<rparr>)"
  "header_wf demo_request_header"
  by (simp_all add: header_wf_def demo_request_header_def)

lemma fifo_exchange_witness:
  "\<exists>msg tu2 payload se' h' tu4. demo_sealed = Inr (msg, tu2) \<and>
    receiveRequest demo_opts demo_libs server_terminals demo_header False
      (demo_turn (message_bytes (demo_request_header\<lparr>field1_size := length msg\<rparr>) msg [] [] []) echo_answered) demo_session =
      (case fifo_sendMessage True (replicate 6 (Wrote 100)) (replyHeader demo_opts ST_NONE (length payload))
         payload [] [] [] of
         Inl e \<Rightarrow> if std_exception e then Inr (Some ([], (clear_capacity demo_session)\<lparr>se_request := []\<rparr>, False)) else Inl e
       | Inr r \<Rightarrow> Inr (map_option (\<lambda>(w, ok). (w, se', ok)) r)) \<and>
    message_in False demo_libs client_terminals demo_header demo_random CRYPTOSODIUM [] demo_header payload tu2 =
      Inr (h', ''x'' @ [CHR 0x0A], tu4)"
proof -
  let ?h = "demo_request_header"
  obtain msg tu2 where msg: "demo_sealed = Inr (msg, tu2)" "length msg = 77"
    "unmarked (serialize (?h\<lparr>field1_size := length msg\<rparr>) @ msg)"
    by (rule demo_sealed_message)
  let ?bytes = "message_bytes (?h\<lparr>field1_size := length msg\<rparr>) msg [] [] []"
  let ?ft = "demo_turn ?bytes echo_answered"
  have opts: "so_doubleEncryption demo_opts = False" "so_singleEncryptor demo_opts = CRYPTOSODIUM"
    "so_doEncrypt demo_opts = False" "opts_ok demo_opts"
    by (simp_all add: demo_opts_def opts_ok_def)
  have ft: "ft_exists ?ft" "ft_readable ?ft" "ft_reads ?ft = map Read_Bytes [take 50 ?bytes, drop 50 ?bytes]"
    "ft_exists_still ?ft" "ft_controller ?ft = (\<lambda>_. Some echo_answered)" "ft_writable ?ft"
    "ft_writes ?ft = replicate 6 (Wrote 100)" "crypto_random_ok (ft_random_reply ?ft)"
    by (simp_all add: demo_turn_def demo_random_ok)
  have st: "se_status (clear_capacity demo_session) = ST_NONE" "se_encryptors demo_session = demo_tuple False"
    by (simp_all add: demo_session_def clear_capacity_def)
  have "header_wf ?h" "header_wf (?h\<lparr>field1_size := length msg\<rparr>)"
    using msg(2) demo_request_wf by simp_all
  then have "\<exists>payload se'. receiveRequest demo_opts demo_libs server_terminals demo_header False ?ft demo_session =
      (case fifo_sendMessage (ft_writable ?ft) (ft_writes ?ft) (replyHeader demo_opts (se_status (clear_capacity demo_session))
         (length payload)) payload [] [] [] of
         Inl e \<Rightarrow> if std_exception e then Inr (Some ([], (clear_capacity demo_session)\<lparr>se_request := []\<rparr>, False)) else Inl e
       | Inr r \<Rightarrow> Inr (map_option (\<lambda>(w, ok). (w, se', ok)) r)) \<and>
    tuple_peers client_terminals tu2 server_terminals (se_encryptors se') \<and>
    (\<forall>rn2 buffer2 h0. \<exists>h' tu4. message_in (so_doubleEncryption demo_opts) demo_libs client_terminals demo_header rn2
       (so_singleEncryptor demo_opts) buffer2 h0 payload tu2 = Inr (h', concat [''x'' @ [CHR 0x0A]], tu4) \<and>
       tuple_peers client_terminals tu4 server_terminals (se_encryptors se'))"
    using msg opts ft st echo_requests echo_answer echo_served demo_sealed_recognised demo_peers
    by (intro fifo_exchange [OF demo_libs_ok demo_random_ok, where tu = "demo_tuple True"
          and cbuffer = "[]" and h = ?h and enc = True and level = 3 and body = echo_body and msg = msg
          and env = echo_env and ?h1.0 = "?h\<lparr>field1_size := length msg\<rparr>"
          and cs = "[take 50 ?bytes, drop 50 ?bytes]"])
      (simp_all add: demo_sealed_def recognised_def [of _ _ _ _ _ _ _ _ False] echo_body_def)
  then show ?thesis using msg(1) opts ft st by fastforce
qed

end
