(* ===== verification/Tcp_Sessions.thy ===== *)
theory Tcp_Sessions
  imports Sessions
begin

section \<open>TCP sessions (TcpSession)\<close>

text \<open>
  A TCP session has an \<open>io_context\<close> of its own, run by one thread of the pool: a queue of posted
  handlers, the asynchronous operation on its socket and a timer. \<open>run\<close> returns when none of
  them is left, or when an exception leaves a handler.

  Every handler of the code is a function here; the relation \<open>tcp_step\<close> runs the next handler,
  completes the operation on the socket with what the client or the system did, or lets the timer
  expire. The argument \<open>late\<close> of two handlers says that the wait they cancel had already ended.
  The tasks that came back from the controller and the messages that were written whole are
  recorded to state what a client sees.
\<close>

datatype tcp_handler = H_readRequest | H_sendReply | H_write HEADER string | H_cancel

datatype tcp_op = Op_read | Op_write HEADER string

record tcp_session =
  ts_session :: session
  ts_posted :: "tcp_handler list"
  ts_ops :: "tcp_op list"
  ts_timer :: bool
  ts_exit :: "exn option"
  ts_done :: "Task list"
  ts_sent :: "(HEADER \<times> string) list"

record tcp_config =
  tc_opts :: server_opts
  tc_libs :: crypto_libs
  tc_terminals :: terminals
  tc_fresh :: HEADER
  tc_env :: server_env

abbreviation tc_sorting :: "tcp_config \<Rightarrow> bool" where
  "tc_sorting cfg \<equiv> env_policy (tc_env cfg) = SORTINPUT"

subsection \<open>Handlers\<close>

definition post :: "tcp_handler \<Rightarrow> tcp_session \<Rightarrow> tcp_session" where
  "post h ts = ts\<lparr>ts_posted := ts_posted ts @ [h]\<rparr>"

text \<open>\<open>start\<close>, and the beginning of \<open>run\<close>.\<close>

definition tcp_start :: "session \<Rightarrow> tcp_session" where
  "tcp_start se = \<lparr>ts_session = clear_capacity se, ts_posted = [H_readRequest], ts_ops = [],
     ts_timer = False, ts_exit = None, ts_done = [], ts_sent = []\<rparr>"

text \<open>A new expiry time cancels the wait that is pending.\<close>

definition asyncWait :: "tcp_session \<Rightarrow> tcp_session" where
  "asyncWait ts = ts\<lparr>ts_timer := True\<rparr>"

definition cancel_timer :: "tcp_session \<Rightarrow> tcp_session" where
  "cancel_timer ts = ts\<lparr>ts_timer := False\<rparr>"

definition timed_out :: "tcp_session \<Rightarrow> tcp_session" where
  "timed_out ts = ts\<lparr>ts_session := (ts_session ts)\<lparr>se_status := TCP_TIMEOUT\<rparr>\<rparr>"

text \<open>
  \<open>readRequest\<close> starts the read and then, at once and not when the read has ended, cancels the
  timer that it has just set.
\<close>

definition readRequest :: "bool \<Rightarrow> tcp_session \<Rightarrow> tcp_session" where
  "readRequest late ts =
     (let ts = asyncWait ts;
          ts = ts\<lparr>ts_ops := ts_ops ts @ [Op_read]\<rparr>;
          ts = cancel_timer ts
      in if late then timed_out ts else ts)"

text \<open>
  The handler of the read: \<open>bytes\<close> is what the read appended to the request, \<open>transferred\<close> counts
  up to the end of the first marker, and is 0 after an error.
\<close>

definition transferred :: "asio_error option \<Rightarrow> string \<Rightarrow> nat" where
  "transferred ec request =
     (if ec \<noteq> None then 0
      else case find_str ENDOFMESSAGE request of None \<Rightarrow> 0 | Some n \<Rightarrow> n + ENDOFMESSAGESZ)"

definition on_read ::
  "tcp_config \<Rightarrow> asio_error option \<Rightarrow> string \<Rightarrow> crypto_random \<Rightarrow> string \<Rightarrow> (Task \<Rightarrow> Task option) \<Rightarrow>
   tcp_session \<Rightarrow> tcp_session result" where
  "on_read cfg ec bytes rn buffer controller ts =
     (let se = ts_session ts; request = se_request se @ bytes; n = transferred ec request in
      bindE (if ends_with request ENDOFMESSAGE
             then if n < ENDOFMESSAGESZ then Inl Out_Of_Range else Inr (resize request (n - ENDOFMESSAGESZ))
             else Inr request) (\<lambda>request.
      if ec \<noteq> None then Inr (post H_cancel (ts\<lparr>ts_session := se\<lparr>se_request := request\<rparr>\<rparr>))
      else
        bindE (deserialize (se_header se) request) (\<lambda>(header, ok).
        let request = (if ok then drop HEADER_SIZE request else request) in
        bindE (processTask (tc_opts cfg) (tc_libs cfg) (tc_terminals cfg) (tc_fresh cfg) rn buffer
                 (tc_sorting cfg) (se\<lparr>se_header := header, se_request := request\<rparr>)) (\<lambda>se.
        case controller (se_task se) of
          None \<Rightarrow> Inr (post H_cancel (ts\<lparr>ts_session := se\<rparr>))
        | Some task \<Rightarrow> Inr (post H_sendReply
            (ts\<lparr>ts_session := se\<lparr>se_task := task\<rparr>, ts_done := ts_done ts @ [task]\<rparr>))))))"

definition sendReply ::
  "tcp_config \<Rightarrow> crypto_random \<Rightarrow> string \<Rightarrow> tcp_session \<Rightarrow> tcp_session result" where
  "sendReply cfg rn buffer ts =
     bindE (buildReply (tc_opts cfg) (tc_libs cfg) (tc_terminals cfg) rn buffer (ts_session ts))
       (\<lambda>(header, payload, se).
          let ts = ts\<lparr>ts_session := se\<rparr> in
          if payload = [] then Inr ts else Inr (post (H_write header payload) (asyncWait ts)))"

definition tcp_write :: "HEADER \<Rightarrow> string \<Rightarrow> tcp_session \<Rightarrow> tcp_session" where
  "tcp_write header payload ts = ts\<lparr>ts_ops := ts_ops ts @ [Op_write header payload]\<rparr>"

definition on_write :: "asio_error option \<Rightarrow> bool \<Rightarrow> HEADER \<Rightarrow> string \<Rightarrow> tcp_session \<Rightarrow> tcp_session" where
  "on_write ec late header payload ts =
     (if ec \<noteq> None then post H_cancel ts
      else
        let ts = cancel_timer (ts\<lparr>ts_sent := ts_sent ts @ [(header, payload)]\<rparr>) in
        if late then timed_out ts
        else post H_readRequest (ts\<lparr>ts_session := (ts_session ts)\<lparr>se_request := []\<rparr>\<rparr>))"

subsection \<open>Steps\<close>

definition leave :: "tcp_session result \<Rightarrow> tcp_session \<Rightarrow> tcp_session" where
  "leave r ts = (case r of Inl e \<Rightarrow> ts\<lparr>ts_exit := Some e\<rparr> | Inr ts' \<Rightarrow> ts')"

definition serves :: "server_env \<Rightarrow> (Task \<Rightarrow> Task option) \<Rightarrow> bool" where
  "serves env controller \<longleftrightarrow> (\<forall>task task'. controller task = Some task' \<longrightarrow> served env task task')"

inductive tcp_step :: "tcp_config \<Rightarrow> tcp_session \<Rightarrow> tcp_session \<Rightarrow> bool" for cfg where
  read_request: "ts_exit ts = None \<Longrightarrow> ts_posted ts = H_readRequest # hs \<Longrightarrow>
    tcp_step cfg ts (readRequest late (ts\<lparr>ts_posted := hs\<rparr>))"
| send_reply: "ts_exit ts = None \<Longrightarrow> ts_posted ts = H_sendReply # hs \<Longrightarrow>
    tcp_step cfg ts (leave (sendReply cfg rn buffer (ts\<lparr>ts_posted := hs\<rparr>)) ts)"
| write_start: "ts_exit ts = None \<Longrightarrow> ts_posted ts = H_write h p # hs \<Longrightarrow>
    tcp_step cfg ts (tcp_write h p (ts\<lparr>ts_posted := hs\<rparr>))"
| cancel: "ts_exit ts = None \<Longrightarrow> ts_posted ts = H_cancel # hs \<Longrightarrow>
    tcp_step cfg ts (cancel_timer (ts\<lparr>ts_posted := hs\<rparr>))"
| read_done: "ts_exit ts = None \<Longrightarrow> ts_ops ts = Op_read # ops \<Longrightarrow>
    ec = None \<longrightarrow> find_str ENDOFMESSAGE (se_request (ts_session ts) @ bytes) \<noteq> None \<Longrightarrow>
    serves (tc_env cfg) controller \<Longrightarrow>
    tcp_step cfg ts (leave (on_read cfg ec bytes rn buffer controller (ts\<lparr>ts_ops := ops\<rparr>)) ts)"
| write_done: "ts_exit ts = None \<Longrightarrow> ts_ops ts = Op_write h p # ops \<Longrightarrow>
    tcp_step cfg ts (on_write ec late h p (ts\<lparr>ts_ops := ops\<rparr>))"
| expired: "ts_exit ts = None \<Longrightarrow> ts_timer ts \<Longrightarrow> tcp_step cfg ts (cancel_timer ts)"

inductive tcp_reach :: "tcp_config \<Rightarrow> session \<Rightarrow> tcp_session \<Rightarrow> bool" for cfg se where
  start: "tcp_reach cfg se (tcp_start se)"
| step: "tcp_reach cfg se ts \<Longrightarrow> tcp_step cfg ts ts' \<Longrightarrow> tcp_reach cfg se ts'"

inductive_cases tcp_stepE: "tcp_step cfg ts ts'"

subsection \<open>One thing at a time\<close>

definition reply_to :: "tcp_config \<Rightarrow> Task \<Rightarrow> HEADER \<times> string \<Rightarrow> bool" where
  "reply_to cfg task m \<longleftrightarrow>
     (\<exists>rn buffer se se'. se_task se = task \<and> snd m \<noteq> [] \<and>
        buildReply (tc_opts cfg) (tc_libs cfg) (tc_terminals cfg) rn buffer se = Inr (fst m, snd m, se'))"

definition was_served :: "server_env \<Rightarrow> Task \<Rightarrow> bool" where
  "was_served env task' \<longleftrightarrow> (\<exists>task. served env task task')"

definition answered :: "tcp_config \<Rightarrow> tcp_session \<Rightarrow> Task list \<Rightarrow> bool" where
  "answered cfg ts tasks \<longleftrightarrow> list_all2 (reply_to cfg) tasks (ts_sent ts)"

text \<open>
  What the session is about to do next, and what that says of the tasks and the messages so far.
\<close>

definition stage_inv :: "tcp_config \<Rightarrow> tcp_session \<Rightarrow> bool" where
  "stage_inv cfg ts \<longleftrightarrow>
     (case (ts_posted ts, ts_ops ts) of
        ([H_readRequest], []) \<Rightarrow> answered cfg ts (ts_done ts) \<and> \<not> ts_timer ts \<and>
           se_request (ts_session ts) = []
      | ([], [Op_read]) \<Rightarrow> answered cfg ts (ts_done ts) \<and> \<not> ts_timer ts \<and> se_request (ts_session ts) = []
      | ([H_sendReply], []) \<Rightarrow> (\<exists>tasks. ts_done ts = tasks @ [se_task (ts_session ts)] \<and> answered cfg ts tasks)
      | ([H_write h p], []) \<Rightarrow> (\<exists>tasks task. ts_done ts = tasks @ [task] \<and> answered cfg ts tasks \<and>
           reply_to cfg task (h, p))
      | ([], [Op_write h p]) \<Rightarrow> (\<exists>tasks task. ts_done ts = tasks @ [task] \<and> answered cfg ts tasks \<and>
           reply_to cfg task (h, p))
      | ([H_cancel], []) \<Rightarrow> (\<exists>n. answered cfg ts (take n (ts_done ts)) \<and> length (ts_done ts) \<le> n + 1)
      | ([], []) \<Rightarrow> (\<exists>n. answered cfg ts (take n (ts_done ts)) \<and> length (ts_done ts) \<le> n + 1)
      | _ \<Rightarrow> False)"

definition tcp_inv :: "tcp_config \<Rightarrow> tcp_session \<Rightarrow> bool" where
  "tcp_inv cfg ts \<longleftrightarrow> (\<forall>task \<in> set (ts_done ts). was_served (tc_env cfg) task) \<and>
     (\<exists>n. answered cfg ts (take n (ts_done ts)) \<and> length (ts_done ts) \<le> n + 1) \<and>
     (ts_exit ts = None \<longrightarrow> stage_inv cfg ts)"

lemma stage_posted:
  assumes "stage_inv cfg ts" "ts_posted ts = h # hs"
  shows "hs = [] \<and> ts_ops ts = []"
  using assms by (cases "ts_ops ts") (auto simp: stage_inv_def split: list.splits tcp_handler.splits)

lemma stage_ops:
  assumes "stage_inv cfg ts" "ts_ops ts = op # ops"
  shows "ops = [] \<and> ts_posted ts = []"
  using assms by (auto simp: stage_inv_def split: list.splits tcp_handler.splits tcp_op.splits)

lemma answered_cong: "ts_sent ts' = ts_sent ts \<Longrightarrow> answered cfg ts' = answered cfg ts"
  by (simp add: answered_def fun_eq_iff)

lemma cancel_timer_fields [simp]:
  "ts_posted (cancel_timer ts) = ts_posted ts" "ts_ops (cancel_timer ts) = ts_ops ts"
  "ts_done (cancel_timer ts) = ts_done ts" "ts_session (cancel_timer ts) = ts_session ts"
  "\<not> ts_timer (cancel_timer ts)" "ts_sent (cancel_timer ts) = ts_sent ts"
  "answered cfg (cancel_timer ts) = answered cfg ts"
  by (simp_all add: cancel_timer_def answered_def fun_eq_iff)

lemma answered_all:
  "answered cfg ts (ts_done ts) \<Longrightarrow> \<exists>n. answered cfg ts (take n (ts_done ts)) \<and> length (ts_done ts) \<le> n + 1"
  by (rule exI [of _ "length (ts_done ts)"]) simp

lemma answered_but_last:
  "ts_done ts = tasks @ [task] \<Longrightarrow> answered cfg ts tasks \<Longrightarrow>
   \<exists>n. answered cfg ts (take n (ts_done ts)) \<and> length (ts_done ts) \<le> n + 1"
  by (rule exI [of _ "length tasks"]) simp

text \<open>What a handler may leave behind: it suffices to look at the stage that comes next.\<close>

lemma tcp_invI:
  assumes "tcp_inv cfg ts" "stage_inv cfg ts'"
    and "\<forall>task \<in> set (ts_done ts'). task \<in> set (ts_done ts) \<or> was_served (tc_env cfg) task"
  shows "tcp_inv cfg ts'"
proof -
  have "\<exists>n. answered cfg ts' (take n (ts_done ts')) \<and> length (ts_done ts') \<le> n + 1"
    using assms(2) answered_all [of cfg ts'] answered_but_last [of ts' _ _ cfg]
    by (cases "ts_ops ts'") (auto simp: stage_inv_def split: list.splits tcp_handler.splits tcp_op.splits)
  then show ?thesis using assms by (auto simp: tcp_inv_def)
qed

lemma tcp_inv_exit: "tcp_inv cfg ts \<Longrightarrow> tcp_inv cfg (ts\<lparr>ts_exit := Some e\<rparr>)"
  by (simp add: tcp_inv_def answered_def)

lemma tcp_start_inv: "se_request se = [] \<Longrightarrow> tcp_inv cfg (tcp_start se)"
  by (simp add: tcp_inv_def tcp_start_def stage_inv_def answered_def clear_capacity_def)

lemma on_read_inv:
  assumes inv: "tcp_inv cfg ts" "ts_exit ts = None" "ts_ops ts = Op_read # ops" and serves: "serves (tc_env cfg) controller"
    and run: "on_read cfg ec bytes rn buffer controller (ts\<lparr>ts_ops := ops\<rparr>) = Inr ts'"
  shows "tcp_inv cfg ts'"
proof -
  have stage: "stage_inv cfg ts" using inv by (simp add: tcp_inv_def)
  have idle: "ops = []" "ts_posted ts = []" using stage_ops [OF stage inv(3)] by simp_all
  have all: "answered cfg ts (ts_done ts)" using stage inv(3) idle by (simp add: stage_inv_def)
  consider
      (cancel) se where "ts' = post H_cancel (ts\<lparr>ts_ops := [], ts_session := se\<rparr>)"
    | (reply) se task' task where "controller task' = Some task"
        "ts' = post H_sendReply (ts\<lparr>ts_ops := [], ts_session := se\<lparr>se_task := task\<rparr>, ts_done := ts_done ts @ [task]\<rparr>)"
    using run idle
    by (auto simp: on_read_def bindE_Inr_iff Let_def split: if_splits option.splits prod.splits)
  then show ?thesis
  proof cases
    case cancel
    then show ?thesis
      using idle answered_all [OF all] all
      by (intro tcp_invI [OF inv(1)]) (auto simp: stage_inv_def post_def answered_def)
  next
    case reply
    then have "was_served (tc_env cfg) task" using serves by (auto simp: serves_def was_served_def)
    then show ?thesis
      using reply idle all
      by (intro tcp_invI [OF inv(1)]) (auto simp: stage_inv_def post_def answered_def)
  qed
qed

lemma sendReply_inv:
  assumes inv: "tcp_inv cfg ts" "ts_exit ts = None" "ts_posted ts = H_sendReply # hs"
    and run: "sendReply cfg rn buffer (ts\<lparr>ts_posted := hs\<rparr>) = Inr ts'"
  shows "tcp_inv cfg ts'"
proof -
  have stage: "stage_inv cfg ts" using inv by (simp add: tcp_inv_def)
  have idle: "hs = []" "ts_ops ts = []" using stage_posted [OF stage inv(3)] by simp_all
  obtain tasks where tasks: "ts_done ts = tasks @ [se_task (ts_session ts)]" "answered cfg ts tasks"
    using stage inv(3) idle by (auto simp: stage_inv_def)
  obtain h p se where b1: "buildReply (tc_opts cfg) (tc_libs cfg) (tc_terminals cfg) rn buffer (ts_session ts) =
      Inr (h, p, se)"
    using run by (auto simp: sendReply_def bindE_Inr_iff)
  then have b2: "ts' = (if p = [] then ts\<lparr>ts_posted := hs, ts_session := se\<rparr>
       else post (H_write h p) (asyncWait (ts\<lparr>ts_posted := hs, ts_session := se\<rparr>)))"
    using run by (simp add: sendReply_def Let_def split: if_splits)
  note b = b1 b2
  show ?thesis
  proof (cases "p = []")
    case True
    then show ?thesis
      using b idle answered_but_last [OF tasks]
      by (intro tcp_invI [OF inv(1)]) (simp_all add: stage_inv_def answered_def)
  next
    case False
    then have "reply_to cfg (se_task (ts_session ts)) (h, p)" using b(1) by (auto simp: reply_to_def)
    then show ?thesis
      using False b(2) idle tasks
      by (intro tcp_invI [OF inv(1)]) (auto simp: stage_inv_def post_def asyncWait_def answered_def)
  qed
qed

lemma on_write_inv:
  assumes inv: "tcp_inv cfg ts" "ts_exit ts = None" "ts_ops ts = Op_write h p # ops"
  shows "tcp_inv cfg (on_write ec late h p (ts\<lparr>ts_ops := ops\<rparr>))"
proof -
  have stage: "stage_inv cfg ts" using inv by (simp add: tcp_inv_def)
  have idle: "ops = []" "ts_posted ts = []" using stage_ops [OF stage inv(3)] by simp_all
  obtain tasks task where tasks: "ts_done ts = tasks @ [task]" "answered cfg ts tasks" "reply_to cfg task (h, p)"
    using stage inv(3) idle by (auto simp: stage_inv_def)
  have sent: "list_all2 (reply_to cfg) (ts_done ts) (ts_sent ts @ [(h, p)])"
    using tasks by (simp add: answered_def list_all2_appendI)
  show ?thesis
  proof (cases "ec = None")
    case True
    have "\<exists>n. list_all2 (reply_to cfg) (take n (ts_done ts)) (ts_sent ts @ [(h, p)]) \<and> length (ts_done ts) \<le> n + 1"
      using sent by (intro exI [of _ "length (ts_done ts)"]) simp
    then show ?thesis
      using True idle sent
      by (intro tcp_invI [OF inv(1)])
        (auto simp: stage_inv_def on_write_def post_def cancel_timer_def timed_out_def answered_def Let_def)
  next
    case False
    then show ?thesis
      using idle answered_but_last [OF tasks(1,2)]
      by (intro tcp_invI [OF inv(1)]) (auto simp: stage_inv_def on_write_def post_def answered_def)
  qed
qed

lemma tcp_step_inv:
  assumes "tcp_inv cfg ts" "tcp_step cfg ts ts'"
  shows "tcp_inv cfg ts'"
  using assms(2)
proof (cases rule: tcp_step.cases)
  case (read_request hs late)
  then have stage: "stage_inv cfg ts" using assms(1) by (simp add: tcp_inv_def)
  then show ?thesis
    using read_request stage_posted [OF stage read_request(3)]
    by (intro tcp_invI [OF assms(1)])
      (auto simp: stage_inv_def readRequest_def asyncWait_def cancel_timer_def timed_out_def answered_def Let_def)
next
  case (send_reply hs rn buffer)
  then show ?thesis
    using sendReply_inv [OF assms(1)] tcp_inv_exit [OF assms(1)] by (auto simp: leave_def split: sum.split)
next
  case (write_start h p hs)
  then have stage: "stage_inv cfg ts" using assms(1) by (simp add: tcp_inv_def)
  then show ?thesis
    using write_start stage_posted [OF stage write_start(3)]
    by (intro tcp_invI [OF assms(1)]) (auto simp: stage_inv_def tcp_write_def answered_def)
next
  case (cancel hs)
  then have stage: "stage_inv cfg ts" using assms(1) by (simp add: tcp_inv_def)
  then show ?thesis
    using cancel stage_posted [OF stage cancel(3)]
    by (intro tcp_invI [OF assms(1)]) (auto simp: stage_inv_def cancel_timer_def answered_def)
next
  case (read_done ops ec bytes controller rn buffer)
  then show ?thesis
    using on_read_inv [OF assms(1)] tcp_inv_exit [OF assms(1)] by (auto simp: leave_def split: sum.split)
next
  case (write_done h p ops ec late)
  then show ?thesis using on_write_inv [OF assms(1)] by blast
next
  case expired
  then have stage: "stage_inv cfg ts" using assms(1) by (simp add: tcp_inv_def)
  then have "stage_inv cfg (cancel_timer ts)"
    by (auto simp: stage_inv_def split: list.splits tcp_handler.splits tcp_op.splits)
  then show ?thesis
    using expired by (intro tcp_invI [OF assms(1)]) (simp_all add: cancel_timer_def)
qed

lemma tcp_reach_inv: "tcp_reach cfg se ts \<Longrightarrow> se_request se = [] \<Longrightarrow> tcp_inv cfg ts"
  by (induction rule: tcp_reach.induct) (simp_all add: tcp_start_inv tcp_step_inv)

text \<open>
  C8: A session never reads ahead: at most one handler or operation is waiting, every reply that was
  sent answers the task at its place, and at most one task has no reply yet. All tasks went
  through the controller.
\<close>

theorem tcp_lockstep:
  assumes "tcp_reach cfg se ts" and "se_request se = []"
  shows "(ts_exit ts = None \<longrightarrow> length (ts_posted ts) + length (ts_ops ts) \<le> 1) \<and>
    length (ts_done ts) \<le> length (ts_sent ts) + 1 \<and>
    list_all2 (reply_to cfg) (take (length (ts_sent ts)) (ts_done ts)) (ts_sent ts) \<and>
    (\<forall>task \<in> set (ts_done ts). was_served (tc_env cfg) task)"
proof -
  note inv = tcp_reach_inv [OF assms, unfolded tcp_inv_def]
  obtain n where n: "list_all2 (reply_to cfg) (take n (ts_done ts)) (ts_sent ts)" "length (ts_done ts) \<le> n + 1"
    using inv by (auto simp: answered_def)
  then have len: "length (ts_sent ts) = min n (length (ts_done ts))"
    by (metis length_take list_all2_lengthD min.commute)
  then have "take (length (ts_sent ts)) (ts_done ts) = take n (ts_done ts)" by (simp add: min_def)
  moreover have "length (ts_posted ts) + length (ts_ops ts) \<le> 1" if "stage_inv cfg ts"
    using that by (cases "ts_ops ts") (auto simp: stage_inv_def split: list.splits tcp_handler.splits tcp_op.splits)
  ultimately show ?thesis using inv n len by auto
qed


text \<open>
  A reply that takes longer than the timeout is the last one: the session sets the status, which
  no message carries any more, and nothing is left to do.
\<close>

theorem tcp_late_write_ends:
  assumes "tcp_reach cfg se ts" and "se_request se = []" and "ts_exit ts = None" and "ts_ops ts = [Op_write h p]"
  shows "ts_sent (on_write None True h p (ts\<lparr>ts_ops := []\<rparr>)) = ts_sent ts @ [(h, p)] \<and>
    (\<nexists>ts'. tcp_step cfg (on_write None True h p (ts\<lparr>ts_ops := []\<rparr>)) ts')"
proof -
  have stage: "stage_inv cfg ts" using tcp_reach_inv [OF assms(1,2)] assms(3) by (simp add: tcp_inv_def)
  have idle: "ts_posted ts = []" using stage_ops [OF stage assms(4)] by simp
  let ?ts = "on_write None True h p (ts\<lparr>ts_ops := []\<rparr>)"
  have "ts_posted ?ts = []" "ts_ops ?ts = []" "\<not> ts_timer ?ts" "ts_sent ?ts = ts_sent ts @ [(h, p)]"
    using idle by (simp_all add: on_write_def timed_out_def Let_def)
  then show ?thesis by (auto elim: tcp_stepE)
qed

subsection \<open>A batch through a TCP session\<close>

lemma on_read_message:
  assumes "unmarked (serialize h1 @ msg)" "header_wf h1" "se_request (ts_session ts) = []"
    and "processTask (tc_opts cfg) (tc_libs cfg) (tc_terminals cfg) (tc_fresh cfg) rs bs (tc_sorting cfg)
      ((ts_session ts)\<lparr>se_header := received_header h1, se_request := msg\<rparr>) = Inr se1"
    and "controller (se_task se1) = Some task"
  shows "on_read cfg None (message_bytes h1 msg [] [] []) rs bs controller ts =
    Inr (post H_sendReply (ts\<lparr>ts_session := se1\<lparr>se_task := task\<rparr>, ts_done := ts_done ts @ [task]\<rparr>))"
proof -
  have n: "transferred None (serialize h1 @ msg @ ENDOFMESSAGE) = length (serialize h1 @ msg) + ENDOFMESSAGESZ"
    using assms(1) by (simp add: transferred_def unmarked_def)
  have end_mark: "ends_with (serialize h1 @ msg @ ENDOFMESSAGE) ENDOFMESSAGE"
    using ends_with_append [of "serialize h1 @ msg" ENDOFMESSAGE] by simp
  have cut: "resize (serialize h1 @ msg @ ENDOFMESSAGE) (length (serialize h1 @ msg)) = serialize h1 @ msg"
    by (simp add: resize_def)
  show ?thesis
    using assms(3-5) n end_mark cut deserialize_serialize [OF assms(2), of "se_header (ts_session ts)" msg]
    by (simp add: on_read_def message_bytes_def Let_def HEADER_SIZE_44)
qed

lemma tcp_exchange_aux:
  assumes libs: "crypto_libs_ok (tc_libs cfg)" "crypto_random_ok rn" "crypto_random_ok rn'"
    and peers: "tuple_peers t tu (tc_terminals cfg) (se_encryptors (ts_session ts))" and opts: "opts_ok (tc_opts cfg)"
    and idle: "se_status (ts_session ts) \<notin> {ST_INVALIDLOW, ST_INVALIDHIGH}" "se_request (ts_session ts) = []"
    and client: "header_wf h" "length body < 2 ^ 64"
      "recognised (tc_fresh cfg) (so_doubleEncryption (tc_opts cfg)) (tc_libs cfg) t rn
         (so_singleEncryptor (tc_opts cfg)) cbuffer h enc level body tu"
      "message_out (so_doubleEncryption (tc_opts cfg)) (tc_libs cfg) t rn
         (so_singleEncryptor (tc_opts cfg)) cbuffer h enc level body tu = Inr (msg, tu2)"
    and wire: "header_wf h1" "field1_size h1 = length msg" "unmarked (serialize h1 @ msg)"
    and controller: "\<forall>task. batch task = (requests_of body, isDiagnosticsEnabled h) \<longrightarrow>
         (\<exists>task'. controller task = Some task' \<and> served env task task')"
    and replies: "map (batch_answer env (isDiagnosticsEnabled h)) (requests_of body) = map Inr replies"
      "length (concat replies) < 10 ^ 10"
      "\<forall>tu3. tuple_peers t tu2 (tc_terminals cfg) tu3 \<longrightarrow> recognised (tc_fresh cfg)
         (so_doubleEncryption (tc_opts cfg)) (tc_libs cfg) (tc_terminals cfg)
         rn' (so_singleEncryptor (tc_opts cfg)) bs'
         (replyHeader (tc_opts cfg) (se_status (ts_session ts)) (length (concat replies)))
         (so_doEncrypt (tc_opts cfg)) (so_compressionLevel (tc_opts cfg)) (concat replies) tu3"
  shows "\<exists>task se1 payload se'. t_response task = replies \<and> se_task se1 = task \<and>
    on_read cfg None (message_bytes h1 msg [] [] []) rs bs controller ts =
      Inr (post H_sendReply (ts\<lparr>ts_session := se1, ts_done := ts_done ts @ [task]\<rparr>)) \<and>
    sendReply cfg rn' bs' (ts\<lparr>ts_session := se1, ts_done := ts_done ts @ [task]\<rparr>) =
      Inr (post (H_write (replyHeader (tc_opts cfg) (se_status (ts_session ts)) (length payload)) payload)
        (asyncWait (ts\<lparr>ts_session := se', ts_done := ts_done ts @ [task]\<rparr>))) \<and>
    tuple_peers t tu2 (tc_terminals cfg) (se_encryptors se') \<and>
    (\<forall>rn2 buffer2 h0. \<exists>h' tu4. message_in (so_doubleEncryption (tc_opts cfg)) (tc_libs cfg) t (tc_fresh cfg) rn2
       (so_singleEncryptor (tc_opts cfg)) buffer2 h0 payload tu2 = Inr (h', concat replies, tu4) \<and>
       tuple_peers t tu4 (tc_terminals cfg) (se_encryptors se'))"
proof -
  let ?se0 = "(ts_session ts)\<lparr>se_header := received_header h1, se_request := msg\<rparr>"
  have se0: "se_encryptors ?se0 = se_encryptors (ts_session ts)" "se_status ?se0 = se_status (ts_session ts)"
    "se_request ?se0 = msg"
    by simp_all
  obtain se1 where se1: "processTask (tc_opts cfg) (tc_libs cfg) (tc_terminals cfg) (tc_fresh cfg) rs bs
      (tc_sorting cfg) ?se0 = Inr se1"
    "batch (se_task se1) = (requests_of body, isDiagnosticsEnabled h)" "msg \<noteq> []"
    and answer: "\<And>task. served env (se_task se1) task \<Longrightarrow> \<exists>payload se'. t_response task = replies \<and> payload \<noteq> [] \<and>
      buildReply (tc_opts cfg) (tc_libs cfg) (tc_terminals cfg) rn' bs' (se1\<lparr>se_task := task\<rparr>) =
        Inr (replyHeader (tc_opts cfg) (se_status (ts_session ts)) (length payload), payload, se') \<and>
      tuple_peers t tu2 (tc_terminals cfg) (se_encryptors se') \<and>
      (\<forall>rn2 buffer2 h0. \<exists>h' tu4. message_in (so_doubleEncryption (tc_opts cfg)) (tc_libs cfg) t (tc_fresh cfg) rn2
         (so_singleEncryptor (tc_opts cfg)) buffer2 h0 payload tu2 = Inr (h', concat replies, tu4) \<and>
         tuple_peers t tu4 (tc_terminals cfg) (se_encryptors se'))"
    by (rule session_exchange [OF se0 libs peers opts idle(1) client replies, of rs bs "tc_sorting cfg"];
        rule that; assumption)
  obtain task where task: "controller (se_task se1) = Some task" "served env (se_task se1) task"
    using controller se1(2) by blast
  have read: "on_read cfg None (message_bytes h1 msg [] [] []) rs bs controller ts =
      Inr (post H_sendReply (ts\<lparr>ts_session := se1\<lparr>se_task := task\<rparr>, ts_done := ts_done ts @ [task]\<rparr>))"
    by (rule on_read_message) (use wire(3,1) idle(2) se1(1) task(1) in simp_all)
  obtain payload se' where reply: "t_response task = replies" "payload \<noteq> []"
    "buildReply (tc_opts cfg) (tc_libs cfg) (tc_terminals cfg) rn' bs' (se1\<lparr>se_task := task\<rparr>) =
        Inr (replyHeader (tc_opts cfg) (se_status (ts_session ts)) (length payload), payload, se')"
    "tuple_peers t tu2 (tc_terminals cfg) (se_encryptors se')"
    "\<forall>rn2 buffer2 h0. \<exists>h' tu4. message_in (so_doubleEncryption (tc_opts cfg)) (tc_libs cfg) t (tc_fresh cfg) rn2
         (so_singleEncryptor (tc_opts cfg)) buffer2 h0 payload tu2 = Inr (h', concat replies, tu4) \<and>
         tuple_peers t tu4 (tc_terminals cfg) (se_encryptors se')"
    using answer [OF task(2)] by blast
  have "sendReply cfg rn' bs' (ts\<lparr>ts_session := se1\<lparr>se_task := task\<rparr>, ts_done := ts_done ts @ [task]\<rparr>) =
      Inr (post (H_write (replyHeader (tc_opts cfg) (se_status (ts_session ts)) (length payload)) payload)
        (asyncWait (ts\<lparr>ts_session := se', ts_done := ts_done ts @ [task]\<rparr>)))"
    using reply(2,3) by (cases ts) (simp add: sendReply_def Let_def)
  then show ?thesis
    using read reply(1,4,5) by (intro exI [of _ task] exI [of _ "se1\<lparr>se_task := task\<rparr>"]) auto
qed

text \<open>
  C6: The batch of a client goes through the handlers of a session: the bytes that \<open>Tcp::sendMessage\<close>
  puts on the wire become the task, and the reply that is posted for writing opens, on the side of
  the client, to the answers of the policy in the order of the requests.
\<close>

theorem tcp_exchange:
  assumes libs: "crypto_libs_ok (tc_libs cfg)" "crypto_random_ok rn" "crypto_random_ok rn'"
    and peers: "tuple_peers t tu (tc_terminals cfg) (se_encryptors (ts_session ts))" and opts: "opts_ok (tc_opts cfg)"
    and idle: "se_status (ts_session ts) \<notin> {ST_INVALIDLOW, ST_INVALIDHIGH}" "se_request (ts_session ts) = []"
    and client: "header_wf h" "length body < 2 ^ 64"
      "recognised (tc_fresh cfg) (so_doubleEncryption (tc_opts cfg)) (tc_libs cfg) t rn
         (so_singleEncryptor (tc_opts cfg)) cbuffer h enc level body tu"
      "message_out (so_doubleEncryption (tc_opts cfg)) (tc_libs cfg) t rn
         (so_singleEncryptor (tc_opts cfg)) cbuffer h enc level body tu = Inr (msg, tu2)"
    and wire: "header_wf h1" "field1_size h1 = length msg" "unmarked (serialize h1 @ msg)"
    and controller: "\<forall>task. batch task = (requests_of body, isDiagnosticsEnabled h) \<longrightarrow>
         (\<exists>task'. controller task = Some task' \<and> served env task task')"
    and replies: "map (batch_answer env (isDiagnosticsEnabled h)) (requests_of body) = map Inr replies"
      "length (concat replies) < 10 ^ 10"
      "\<forall>tu3. tuple_peers t tu2 (tc_terminals cfg) tu3 \<longrightarrow> recognised (tc_fresh cfg)
         (so_doubleEncryption (tc_opts cfg)) (tc_libs cfg) (tc_terminals cfg)
         rn' (so_singleEncryptor (tc_opts cfg)) bs'
         (replyHeader (tc_opts cfg) (se_status (ts_session ts)) (length (concat replies)))
         (so_doEncrypt (tc_opts cfg)) (so_compressionLevel (tc_opts cfg)) (concat replies) tu3"
  shows "\<exists>task se1 payload se'. t_response task = replies \<and> se_task se1 = task \<and>
    on_read cfg None (message_bytes h1 msg [] [] []) rs bs controller ts =
      Inr (post H_sendReply (ts\<lparr>ts_session := se1, ts_done := ts_done ts @ [task]\<rparr>)) \<and>
    sendReply cfg rn' bs' (ts\<lparr>ts_session := se1, ts_done := ts_done ts @ [task]\<rparr>) =
      Inr (post (H_write (replyHeader (tc_opts cfg) (se_status (ts_session ts)) (length payload)) payload)
        (asyncWait (ts\<lparr>ts_session := se', ts_done := ts_done ts @ [task]\<rparr>))) \<and>
    tuple_peers t tu2 (tc_terminals cfg) (se_encryptors se') \<and>
    (\<forall>rn2 buffer2 h0. \<exists>h' tu4. message_in (so_doubleEncryption (tc_opts cfg)) (tc_libs cfg) t (tc_fresh cfg) rn2
       (so_singleEncryptor (tc_opts cfg)) buffer2 h0 payload tu2 = Inr (h', concat replies, tu4) \<and>
       tuple_peers t tu4 (tc_terminals cfg) (se_encryptors se'))"
  by (rule tcp_exchange_aux [OF assms])

subsection \<open>Witnesses\<close>

definition demo_tcp :: tcp_config where
  "demo_tcp = \<lparr>tc_opts = demo_opts, tc_libs = demo_libs, tc_terminals = server_terminals,
     tc_fresh = demo_header, tc_env = echo_env\<rparr>"

definition demo_controller :: "Task \<Rightarrow> Task option" where
  "demo_controller task = (if batch task = ([''[0]x''], False) then Some echo_answered else None)"

definition demo_reading :: tcp_session where
  "demo_reading = readRequest False ((tcp_start demo_session)\<lparr>ts_posted := []\<rparr>)"

lemma demo_reading_fields:
  "ts_exit demo_reading = None" "ts_ops demo_reading = [Op_read]" "ts_posted demo_reading = []"
  "ts_done demo_reading = []" "ts_sent demo_reading = []" "ts_session demo_reading = clear_capacity demo_session"
  "ts_timer demo_reading = False"
  by (simp_all add: demo_reading_def readRequest_def tcp_start_def asyncWait_def cancel_timer_def Let_def)

lemma demo_session_fields: "se_request demo_session = []" "se_request (clear_capacity demo_session) = []"
  "se_status (clear_capacity demo_session) = ST_NONE"
  "se_encryptors (clear_capacity demo_session) = demo_tuple False"
  by (simp_all add: demo_session_def clear_capacity_def)

lemma demo_reading_reach: "tcp_reach demo_tcp demo_session demo_reading"
  unfolding demo_reading_def
  by (rule tcp_reach.step [OF tcp_reach.start tcp_step.read_request]) (simp_all add: tcp_start_def)

lemma demo_serves: "serves (tc_env demo_tcp) demo_controller"
  by (auto simp: serves_def demo_controller_def demo_tcp_def echo_served)

lemma demo_exchange:
  obtains msg tu2 task se1 payload se' h' tu4 where "demo_sealed = Inr (msg, tu2)"
    "on_read demo_tcp None (message_bytes (demo_request_header\<lparr>field1_size := length msg\<rparr>) msg [] [] [])
       demo_random [] demo_controller (demo_reading\<lparr>ts_ops := []\<rparr>) =
     Inr (post H_sendReply (demo_reading\<lparr>ts_ops := [], ts_session := se1, ts_done := [task]\<rparr>))"
    "sendReply demo_tcp demo_random [] (demo_reading\<lparr>ts_ops := [], ts_session := se1, ts_done := [task]\<rparr>) =
     Inr (post (H_write (replyHeader demo_opts ST_NONE (length payload)) payload)
       (asyncWait (demo_reading\<lparr>ts_ops := [], ts_session := se', ts_done := [task]\<rparr>)))"
    "message_in False demo_libs client_terminals demo_header demo_random CRYPTOSODIUM [] demo_header payload tu2 =
      Inr (h', ''x'' @ [CHR 0x0A], tu4)"
proof -
  obtain msg tu2 where msg: "demo_sealed = Inr (msg, tu2)" "length msg = 77"
    "unmarked (serialize (demo_request_header\<lparr>field1_size := length msg\<rparr>) @ msg)"
    by (rule demo_sealed_message)
  let ?ts = "demo_reading\<lparr>ts_ops := []\<rparr>" and ?h1 = "demo_request_header\<lparr>field1_size := length msg\<rparr>"
  have opts: "so_doubleEncryption demo_opts = False" "so_singleEncryptor demo_opts = CRYPTOSODIUM"
    "so_doEncrypt demo_opts = False" "opts_ok demo_opts"
    by (simp_all add: demo_opts_def opts_ok_def)
  have cfg: "tc_opts demo_tcp = demo_opts" "tc_libs demo_tcp = demo_libs" "tc_terminals demo_tcp = server_terminals"
    "tc_fresh demo_tcp = demo_header"
    by (simp_all add: demo_tcp_def)
  have wf: "header_wf demo_request_header" "header_wf ?h1" using msg(2) demo_request_wf by simp_all
  have "\<exists>task se1 payload se'. t_response task = [''x'' @ [CHR 0x0A]] \<and> se_task se1 = task \<and>
    on_read demo_tcp None (message_bytes ?h1 msg [] [] []) demo_random [] demo_controller ?ts =
      Inr (post H_sendReply (?ts\<lparr>ts_session := se1, ts_done := ts_done ?ts @ [task]\<rparr>)) \<and>
    sendReply demo_tcp demo_random [] (?ts\<lparr>ts_session := se1, ts_done := ts_done ?ts @ [task]\<rparr>) =
      Inr (post (H_write (replyHeader demo_opts (se_status (ts_session ?ts)) (length payload)) payload)
        (asyncWait (?ts\<lparr>ts_session := se', ts_done := ts_done ?ts @ [task]\<rparr>))) \<and>
    tuple_peers client_terminals tu2 server_terminals (se_encryptors se') \<and>
    (\<forall>rn2 buffer2 h0. \<exists>h' tu4. message_in False demo_libs client_terminals demo_header rn2
       CRYPTOSODIUM buffer2 h0 payload tu2 = Inr (h', concat [''x'' @ [CHR 0x0A]], tu4) \<and>
       tuple_peers client_terminals tu4 server_terminals (se_encryptors se'))"
    using tcp_exchange_aux [of demo_tcp demo_random demo_random client_terminals "demo_tuple True" ?ts
        demo_request_header echo_body "[]" True 3 msg tu2 ?h1 demo_controller echo_env "[''x'' @ [CHR 0x0A]]" "[]"
        demo_random "[]"]
      demo_libs_ok demo_random_ok demo_peers opts wf msg echo_requests echo_answer echo_served
      demo_sealed_recognised demo_reading_fields demo_session_fields
    by (simp add: cfg demo_sealed_def demo_controller_def recognised_def [of _ _ _ _ _ _ _ _ False] echo_body_def)
  then obtain task se1 payload se' where run:
    "on_read demo_tcp None (message_bytes ?h1 msg [] [] []) demo_random [] demo_controller ?ts =
      Inr (post H_sendReply (?ts\<lparr>ts_session := se1, ts_done := ts_done ?ts @ [task]\<rparr>))"
    "sendReply demo_tcp demo_random [] (?ts\<lparr>ts_session := se1, ts_done := ts_done ?ts @ [task]\<rparr>) =
      Inr (post (H_write (replyHeader demo_opts (se_status (ts_session ?ts)) (length payload)) payload)
        (asyncWait (?ts\<lparr>ts_session := se', ts_done := ts_done ?ts @ [task]\<rparr>)))"
    "\<exists>h' tu4. message_in False demo_libs client_terminals demo_header demo_random
       CRYPTOSODIUM [] demo_header payload tu2 = Inr (h', concat [''x'' @ [CHR 0x0A]], tu4)"
    by blast
  then obtain h' tu4 where "message_in False demo_libs client_terminals demo_header demo_random
       CRYPTOSODIUM [] demo_header payload tu2 = Inr (h', ''x'' @ [CHR 0x0A], tu4)"
    by auto
  then show ?thesis
    using that [OF msg(1), of task se1 payload se' h' tu4] run(1,2) demo_reading_fields demo_session_fields by simp
qed

lemma demo_message_marked:
  assumes "unmarked (serialize h @ msg)"
  shows "find_str ENDOFMESSAGE (message_bytes h msg [] [] []) \<noteq> None"
  using assms by (simp add: message_bytes_def unmarked_def)

lemma demo_writing:
  obtains ts h p where "tcp_reach demo_tcp demo_session ts" "ts_exit ts = None" "ts_ops ts = [Op_write h p]"
    "ts_sent ts = []" "length (ts_done ts) = 1"
proof -
  obtain msg tu2 task se1 payload se' h' tu4 where run: "demo_sealed = Inr (msg, tu2)"
    "on_read demo_tcp None (message_bytes (demo_request_header\<lparr>field1_size := length msg\<rparr>) msg [] [] [])
       demo_random [] demo_controller (demo_reading\<lparr>ts_ops := []\<rparr>) =
     Inr (post H_sendReply (demo_reading\<lparr>ts_ops := [], ts_session := se1, ts_done := [task]\<rparr>))"
    "sendReply demo_tcp demo_random [] (demo_reading\<lparr>ts_ops := [], ts_session := se1, ts_done := [task]\<rparr>) =
     Inr (post (H_write (replyHeader demo_opts ST_NONE (length payload)) payload)
       (asyncWait (demo_reading\<lparr>ts_ops := [], ts_session := se', ts_done := [task]\<rparr>)))"
    by (rule demo_exchange) blast
  let ?h = "replyHeader demo_opts ST_NONE (length payload)"
  let ?r1 = "demo_reading\<lparr>ts_ops := [], ts_session := se1, ts_done := [task]\<rparr>"
  let ?r2 = "asyncWait (demo_reading\<lparr>ts_ops := [], ts_session := se', ts_done := [task]\<rparr>)"
  let ?bytes = "message_bytes (demo_request_header\<lparr>field1_size := length msg\<rparr>) msg [] [] []"
  note fields = demo_reading_fields demo_session_fields
  have "unmarked (serialize (demo_request_header\<lparr>field1_size := length msg\<rparr>) @ msg)"
    using demo_sealed_message run(1) by (metis Inr_inject Pair_inject)
  then have marked: "find_str ENDOFMESSAGE (se_request (ts_session demo_reading) @ ?bytes) \<noteq> None"
    using demo_message_marked fields by simp
  have "tcp_step demo_tcp demo_reading (leave (on_read demo_tcp None ?bytes demo_random [] demo_controller
      (demo_reading\<lparr>ts_ops := []\<rparr>)) demo_reading)"
    by (rule tcp_step.read_done) (use fields marked demo_serves in simp_all)
  then have s1: "tcp_reach demo_tcp demo_session (post H_sendReply ?r1)"
    using tcp_reach.step [OF demo_reading_reach] run(2) by (simp add: leave_def)
  have "tcp_step demo_tcp (post H_sendReply ?r1)
      (leave (sendReply demo_tcp demo_random [] ((post H_sendReply ?r1)\<lparr>ts_posted := []\<rparr>)) (post H_sendReply ?r1))"
    by (rule tcp_step.send_reply) (use fields in \<open>simp_all add: post_def\<close>)
  moreover have "(post H_sendReply ?r1)\<lparr>ts_posted := []\<rparr> = ?r1"
    using fields by (cases demo_reading) (simp add: post_def)
  ultimately have s2: "tcp_reach demo_tcp demo_session (post (H_write ?h payload) ?r2)"
    using tcp_reach.step [OF s1] run(3) by (simp add: leave_def)
  have "tcp_step demo_tcp (post (H_write ?h payload) ?r2)
      (tcp_write ?h payload ((post (H_write ?h payload) ?r2)\<lparr>ts_posted := []\<rparr>))"
    by (rule tcp_step.write_start) (use fields in \<open>simp_all add: post_def asyncWait_def\<close>)
  from tcp_reach.step [OF s2 this] show ?thesis
    by (rule that [of _ ?h payload]) (use fields in \<open>simp_all add: post_def asyncWait_def tcp_write_def\<close>)
qed

lemma tcp_lockstep_witness:
  "\<exists>ts. tcp_reach demo_tcp demo_session ts \<and> length (ts_done ts) = 1 \<and> length (ts_sent ts) = 1 \<and>
    list_all2 (reply_to demo_tcp) (ts_done ts) (ts_sent ts)"
proof -
  obtain ts h p where ts: "tcp_reach demo_tcp demo_session ts" "ts_exit ts = None" "ts_ops ts = [Op_write h p]"
    "ts_sent ts = []" "length (ts_done ts) = 1"
    by (rule demo_writing)
  let ?ts = "on_write None False h p (ts\<lparr>ts_ops := []\<rparr>)"
  have reach: "tcp_reach demo_tcp demo_session ?ts"
    by (rule tcp_reach.step [OF ts(1) tcp_step.write_done]) (use ts in simp_all)
  have "ts_sent ?ts = [(h, p)]" "ts_done ?ts = ts_done ts"
    using ts by (simp_all add: on_write_def post_def cancel_timer_def Let_def)
  then show ?thesis
    using tcp_lockstep [OF reach demo_session_fields(1)] ts reach by (intro exI [of _ ?ts]) simp
qed


lemma tcp_late_write_ends_witness:
  "\<exists>ts h p. tcp_reach demo_tcp demo_session ts \<and> ts_ops ts = [Op_write h p] \<and>
     (\<nexists>ts'. tcp_step demo_tcp (on_write None True h p (ts\<lparr>ts_ops := []\<rparr>)) ts')"
proof -
  obtain ts h p where ts: "tcp_reach demo_tcp demo_session ts" "ts_exit ts = None" "ts_ops ts = [Op_write h p]"
    by (rule demo_writing)
  then show ?thesis using tcp_late_write_ends [OF ts(1) demo_session_fields(1) ts(2,3)] by blast
qed

lemma tcp_exchange_witness:
  "\<exists>msg tu2 task se1 payload se'. demo_sealed = Inr (msg, tu2) \<and> t_response task = [''x'' @ [CHR 0x0A]] \<and>
    on_read demo_tcp None (message_bytes (demo_request_header\<lparr>field1_size := length msg\<rparr>) msg [] [] [])
       demo_random [] demo_controller (demo_reading\<lparr>ts_ops := []\<rparr>) =
      Inr (post H_sendReply (demo_reading\<lparr>ts_ops := [], ts_session := se1, ts_done := [task]\<rparr>)) \<and>
    sendReply demo_tcp demo_random [] (demo_reading\<lparr>ts_ops := [], ts_session := se1, ts_done := [task]\<rparr>) =
      Inr (post (H_write (replyHeader demo_opts ST_NONE (length payload)) payload)
       (asyncWait (demo_reading\<lparr>ts_ops := [], ts_session := se', ts_done := [task]\<rparr>))) \<and>
    tuple_peers client_terminals tu2 server_terminals (se_encryptors se')"
proof -
  obtain msg tu2 where msg: "demo_sealed = Inr (msg, tu2)" "length msg = 77"
    "unmarked (serialize (demo_request_header\<lparr>field1_size := length msg\<rparr>) @ msg)"
    by (rule demo_sealed_message)
  let ?ts = "demo_reading\<lparr>ts_ops := []\<rparr>" and ?h1 = "demo_request_header\<lparr>field1_size := length msg\<rparr>"
  have opts: "so_doubleEncryption demo_opts = False" "so_singleEncryptor demo_opts = CRYPTOSODIUM"
    "so_doEncrypt demo_opts = False" "opts_ok demo_opts"
    by (simp_all add: demo_opts_def opts_ok_def)
  have cfg: "tc_opts demo_tcp = demo_opts" "tc_libs demo_tcp = demo_libs" "tc_terminals demo_tcp = server_terminals"
    "tc_fresh demo_tcp = demo_header"
    by (simp_all add: demo_tcp_def)
  have wf: "header_wf demo_request_header" "header_wf ?h1" using msg(2) demo_request_wf by simp_all
  have ts: "se_request (ts_session ?ts) = []" "se_status (ts_session ?ts) = ST_NONE" "ts_done ?ts = []"
    "se_encryptors (ts_session ?ts) = demo_tuple False"
    using demo_reading_fields demo_session_fields by simp_all
  from tcp_exchange [of demo_tcp demo_random demo_random client_terminals "demo_tuple True" ?ts
        demo_request_header echo_body "[]" True 3 msg tu2 ?h1 demo_controller echo_env "[''x'' @ [CHR 0x0A]]" "[]"
        demo_random "[]"]
  show ?thesis
    using demo_libs_ok demo_random_ok demo_peers opts wf msg echo_requests echo_answer echo_served
      demo_sealed_recognised ts
    by (fastforce simp: cfg demo_sealed_def demo_controller_def recognised_def [of _ _ _ _ _ _ _ _ False] echo_body_def)
qed

end
