(* ===== verification/Task_Builder.thy ===== *)
theory Task_Builder
  imports Crypto_Operations Line_Reader
begin

section \<open>Making requests into subtasks (client_src/TaskBuilder)\<close>

text \<open>
  The task builder has a thread of its own: it reads the source line by line, puts a number in
  front of each line, collects the lines up to the size of the buffer, and makes of each
  collection a subtask, compressed and encrypted. The last subtask of a source makes the task
  complete; the client then takes the subtasks and, in a loop, lets the builder read again.

  The encryptors belong to the client; the tuple is an argument and a result of what uses it, and
  so are the random bytes, those of each subtask under its number.
  The lines come from the model of \<open>FileLines\<close>. \<open>fuel\<close> bounds the number of lines that a loop
  takes: one more than the number of characters that are left is enough, since every line has one.
\<close>

record client_opts =
  co_compressor :: COMPRESSORS
  co_compressionLevel :: int
  co_diagnostics :: DIAGNOSTICS
  co_doEncrypt :: bool
  co_singleEncryptor :: CRYPTO
  co_doubleEncryption :: bool
  co_bufferSize :: nat
  co_runLoop :: bool
  co_maxNumberTasks :: int

record Subtask =
  sb_data :: string
  sb_header :: HEADER

record task_builder =
  tb_batch :: string
  tb_subtasks :: "Subtask list"
  tb_subtaskIndex :: nat
  tb_status :: STATUS
  tb_stopped :: bool
  tb_resume :: bool
  tb_buffer :: string

definition TaskBuilder_new :: task_builder where
  "TaskBuilder_new = \<lparr>tb_batch = [], tb_subtasks = [], tb_subtaskIndex = 0, tb_status = ST_NONE,
     tb_stopped = False, tb_resume = False, tb_buffer = []\<rparr>"

subsection \<open>Collecting lines\<close>

definition file_getLine :: "lines \<Rightarrow> (lines \<times> string option) result" where
  "file_getLine = getLineImpl FileLines_getInputPosition FileLines_refillBuffer"

definition copyRequestWithId :: "string \<Rightarrow> int \<Rightarrow> string \<Rightarrow> string result" where
  "copyRequestWithId line index batch =
     bindE (getRequestId (nat index)) (\<lambda>requestId. Inr ((batch @ requestId) @ line))"

text \<open>The size is subtracted from an unsigned number.\<close>

definition maxSubtaskSize :: "nat \<Rightarrow> nat" where
  "maxSubtaskSize bufferSize =
     (if HEADER_SIZE \<le> bufferSize then bufferSize - HEADER_SIZE else 2 ^ 64 + bufferSize - HEADER_SIZE)"

text \<open>
  The loop of \<open>createSubtask\<close>: \<open>None\<close> inside the result says that the lines ended before the
  batch was large enough; what was collected until then is not sent.
\<close>

fun collectBatch ::
  "nat \<Rightarrow> nat \<Rightarrow> lines \<Rightarrow> string \<Rightarrow> (lines \<times> (string \<times> bool) option) option result" where
  "collectBatch 0 maxSize l batch = Inr None"
| "collectBatch (Suc fuel) maxSize l batch =
     bindE (file_getLine l) (\<lambda>(l, line).
       case line of
         None \<Rightarrow> Inr (Some (l, None))
       | Some line \<Rightarrow> bindE (copyRequestWithId line (ln_index l) batch) (\<lambda>batch.
           let alldone = ln_last l in
           if maxSize \<le> length batch \<or> alldone then Inr (Some (l, Some (batch, alldone)))
           else collectBatch fuel maxSize l batch))"

subsection \<open>Subtasks\<close>

definition subtaskHeader :: "client_opts \<Rightarrow> STATUS \<Rightarrow> nat \<Rightarrow> HEADER" where
  "subtaskHeader opts status n =
     \<lparr>header_type = SESSION, field1_size = n, field2_size = 0, header_compressor = co_compressor opts,
      header_diagnostics = co_diagnostics opts, header_status = status, field3_size = 0, field4_size = 0\<rparr>"

definition compressEncryptSubtask ::
  "client_opts \<Rightarrow> crypto_libs \<Rightarrow> terminals \<Rightarrow> crypto_random \<Rightarrow> bool \<Rightarrow> task_builder \<Rightarrow> crypto_tuple \<Rightarrow>
   (STATUS \<times> task_builder \<times> crypto_tuple) result" where
  "compressEncryptSubtask opts lib t rn alldone tb tu =
     (let header = subtaskHeader opts (tb_status tb) 0 in
      if tb_stopped tb then Inr (STOPPED, tb, tu)
      else bindE (message_out (co_doubleEncryption opts) lib t rn (co_singleEncryptor opts) (tb_buffer tb)
             header (co_doEncrypt opts) defaultCompressionLevel (tb_batch tb) tu) (\<lambda>(encrypted, tu).
        let header = subtaskHeader opts (tb_status tb) (length encrypted);
            subtask = \<lparr>sb_data = encrypted, sb_header = header\<rparr>;
            subtasks = tb_subtasks tb; index = tb_subtaskIndex tb;
            status = (if alldone then TASK_DONE else SUBTASK_DONE)
        in if length subtasks < index then Inl Undefined_Behaviour
           else Inr (status,
             tb\<lparr>tb_subtasks := (if index = length subtasks then subtasks @ [subtask] else subtasks[index := subtask]),
                tb_status := status, tb_subtaskIndex := (if alldone then index else index + 1)\<rparr>,
             tu)))"

definition createSubtask ::
  "client_opts \<Rightarrow> crypto_libs \<Rightarrow> terminals \<Rightarrow> (nat \<Rightarrow> crypto_random) \<Rightarrow> nat \<Rightarrow> lines \<Rightarrow> task_builder \<Rightarrow>
   crypto_tuple \<Rightarrow> (STATUS \<times> lines \<times> task_builder \<times> crypto_tuple) option result" where
  "createSubtask opts lib t rn fuel l tb tu =
     bindE (collectBatch fuel (maxSubtaskSize (co_bufferSize opts)) l []) (\<lambda>r.
       case r of
         None \<Rightarrow> Inr None
       | Some (l, None) \<Rightarrow> Inr (Some (ST_NONE, l, tb, tu))
       | Some (l, Some (batch, alldone)) \<Rightarrow>
           bindE (compressEncryptSubtask opts lib t (rn (tb_subtaskIndex tb)) alldone (tb\<lparr>tb_batch := batch\<rparr>) tu)
             (\<lambda>(status, tb, tu). Inr (Some (status, l, tb, tu))))"

text \<open>\<open>while (createSubtask(lines) == STATUS::SUBTASK_DONE);\<close>\<close>

fun createTask ::
  "client_opts \<Rightarrow> crypto_libs \<Rightarrow> terminals \<Rightarrow> (nat \<Rightarrow> crypto_random) \<Rightarrow> nat \<Rightarrow> nat \<Rightarrow> lines \<Rightarrow> task_builder \<Rightarrow>
   crypto_tuple \<Rightarrow> (STATUS \<times> lines \<times> task_builder \<times> crypto_tuple) option result" where
  "createTask opts lib t rn 0 fuel l tb tu = Inr None"
| "createTask opts lib t rn (Suc n) fuel l tb tu =
     bindE (createSubtask opts lib t rn fuel l tb tu) (\<lambda>r.
       case r of
         None \<Rightarrow> Inr None
       | Some (status, l, tb, tu) \<Rightarrow>
           if status = SUBTASK_DONE then createTask opts lib t rn n fuel l tb tu
           else Inr (Some (status, l, tb, tu)))"

text \<open>
  \<open>getTask\<close> exchanges the subtasks for what the client still had from the task before; it waits
  (\<open>None\<close>) until there is a task or there will be none any more.
\<close>

definition getTask :: "Subtask list \<Rightarrow> task_builder \<Rightarrow> (Subtask list \<times> nat \<times> STATUS \<times> task_builder) option" where
  "getTask task tb =
     (if tb_status tb \<in> {TASK_DONE, ST_ERROR, STOPPED}
      then Some (tb_subtasks tb, tb_subtaskIndex tb + 1, tb_status tb, tb\<lparr>tb_subtasks := task\<rparr>)
      else None)"

definition builder_stop :: "task_builder \<Rightarrow> task_builder" where
  "builder_stop tb = tb\<lparr>tb_stopped := True, tb_status := STOPPED\<rparr>"

definition builder_resume :: "task_builder \<Rightarrow> task_builder" where
  "builder_resume tb =
     (if tb_stopped tb then tb else tb\<lparr>tb_subtaskIndex := 0, tb_status := ST_NONE, tb_resume := True\<rparr>)"

subsection \<open>What the batches are\<close>

text \<open>The lines with their numbers, from \<open>i\<close> on, each with its delimiter.\<close>

fun numbered :: "nat \<Rightarrow> string list \<Rightarrow> string list" where
  "numbered i [] = []"
| "numbered i (x # xs) = (''['' @ to_digits i @ '']'' @ x) # numbered (Suc i) xs"

definition as_lines :: "string list \<Rightarrow> string" where
  "as_lines xs = concat (map (\<lambda>x. x @ [CHR 0x0A]) xs)"

text \<open>Specification of the batches: a batch is closed when it is large enough or at the end.\<close>

fun batches :: "nat \<Rightarrow> string list \<Rightarrow> string list \<Rightarrow> string list list" where
  "batches maxSize acc [] = []"
| "batches maxSize acc (x # xs) =
     (if maxSize \<le> length (as_lines (acc @ [x])) \<or> xs = [] then (acc @ [x]) # batches maxSize [] xs
      else batches maxSize (acc @ [x]) xs)"

lemma as_lines_simps [simp]:
  "as_lines [] = []" "as_lines (x # xs) = x @ CHR 0x0A # as_lines xs"
  "as_lines (xs @ ys) = as_lines xs @ as_lines ys"
  by (simp_all add: as_lines_def)

lemma concat_batches: "xs \<noteq> [] \<Longrightarrow> concat (batches maxSize acc xs) = acc @ xs"
proof (induction maxSize acc xs rule: batches.induct)
  case (2 maxSize acc x xs)
  then show ?case by (cases "xs = []") auto
qed simp

lemma batches_nonempty: "xs \<noteq> [] \<Longrightarrow> batches maxSize acc xs \<noteq> []"
  by (induction maxSize acc xs rule: batches.induct) (auto split: if_splits)

lemma batches_full:
  "xs \<noteq> [] \<Longrightarrow> \<forall>b \<in> set (butlast (batches maxSize acc xs)). maxSize \<le> length (as_lines b)"
proof (induction maxSize acc xs rule: batches.induct)
  case (2 maxSize acc x xs)
  then show ?case by (cases "xs = []") auto
qed simp

lemma length_numbered [simp]: "length (numbered i xs) = length xs"
  by (induction xs arbitrary: i) simp_all

lemma numbered_Nil_iff [simp]: "numbered i xs = [] \<longleftrightarrow> xs = []"
  by (cases xs) simp_all

lemma numbered_append: "numbered i (xs @ ys) = numbered i xs @ numbered (i + length xs) ys"
  by (induction xs arbitrary: i) simp_all

lemma as_lines_Nil_iff [simp]: "as_lines xs = [] \<longleftrightarrow> xs = []"
  by (cases xs) simp_all

definition source_ok :: "string list \<Rightarrow> nat \<Rightarrow> lines \<Rightarrow> bool" where
  "source_ok xs i l \<longleftrightarrow> lines_inv l \<and> unread l = as_lines xs \<and> ln_delimiter l = CHR 0x0A \<and> ln_keepDelimiter l \<and>
     ln_position l = ln_inputSize l \<and> ln_index l = int i - 1 \<and> i + length xs \<le> TASK_MAX_SIZE \<and>
     (\<forall>x \<in> set xs. x \<noteq> [] \<and> CHR 0x0A \<notin> set x \<and> length x < length (ln_buffer l))"

lemma source_ok_line:
  assumes "source_ok (x # xs) i l"
  obtains l' where "file_getLine l = Inr (l', Some (x @ [CHR 0x0A]))" "source_ok xs (Suc i) l'"
    "ln_index l' = int i" "ln_last l' \<longleftrightarrow> xs = []"
proof -
  have l: "lines_inv l" "unread l = x @ ln_delimiter l # as_lines xs" "ln_delimiter l \<notin> set x" "x \<noteq> []"
    "length x < length (ln_buffer l)" "\<not> at_boundary l"
    using assms by (simp_all add: source_ok_def at_boundary_def)
  obtain l' where l': "getLineImpl FileLines_getInputPosition FileLines_refillBuffer l =
      Inr (l', Some (x @ (if ln_keepDelimiter l then [ln_delimiter l] else [])))"
    "lines_inv l'" "unread l' = as_lines xs" "length (ln_buffer l') = length (ln_buffer l)"
    "ln_delimiter l' = ln_delimiter l" "ln_keepDelimiter l' = ln_keepDelimiter l"
    "ln_index l' = ln_index l + 1" "ln_last l' \<longleftrightarrow> as_lines xs = []"
    "ln_position l = ln_inputSize l \<longrightarrow> ln_position l' = ln_inputSize l'"
    by (rule file_source.getLine_line [OF l])
  show ?thesis
    by (rule that [of l']) (use l' assms in \<open>simp_all add: file_getLine_def source_ok_def\<close>)
qed

lemma copyRequestWithId_numbered:
  "i < TASK_MAX_SIZE \<Longrightarrow> copyRequestWithId (x @ [CHR 0x0A]) (int i) (as_lines acc) =
     Inr (as_lines (acc @ [''['' @ to_digits i @ '']'' @ x]))"
  by (simp add: copyRequestWithId_def getRequestId_def)

text \<open>One batch of the code is the first batches of the specification.\<close>

lemma collectBatch_group:
  assumes "source_ok xs i l" and "xs \<noteq> []" and "length xs \<le> fuel"
  shows "\<exists>b rest l'. collectBatch fuel maxSize l (as_lines acc) = Inr (Some (l', Some (as_lines b, rest = []))) \<and>
    source_ok rest (i + (length xs - length rest)) l' \<and> length rest < length xs \<and>
    batches maxSize acc (numbered i xs) = b # batches maxSize [] (numbered (i + (length xs - length rest)) rest)"
  using assms
proof (induction xs arbitrary: i l acc fuel)
  case (Cons x xs)
  obtain f where f: "fuel = Suc f" "length xs \<le> f" using Cons.prems(3) by (cases fuel) auto
  obtain l' where l': "file_getLine l = Inr (l', Some (x @ [CHR 0x0A]))" "source_ok xs (Suc i) l'"
    "ln_index l' = int i" "ln_last l' \<longleftrightarrow> xs = []"
    by (rule source_ok_line [OF Cons.prems(1)])
  have i: "i < TASK_MAX_SIZE" using Cons.prems(1) by (simp add: source_ok_def)
  let ?item = "''['' @ to_digits i @ '']'' @ x"
  let ?acc = "acc @ [?item]"
  have step: "collectBatch fuel maxSize l (as_lines acc) =
      (if maxSize \<le> length (as_lines ?acc) \<or> xs = [] then Inr (Some (l', Some (as_lines ?acc, xs = [])))
       else collectBatch f maxSize l' (as_lines ?acc))"
    using f(1) l' copyRequestWithId_numbered [OF i, of x acc] by (simp add: Let_def del: as_lines_simps(3))
  show ?case
  proof (cases "maxSize \<le> length (as_lines ?acc) \<or> xs = []")
    case True
    then show ?thesis
      unfolding step using l'(2)
      by (intro exI [of _ ?acc] exI [of _ xs] exI [of _ l']) (simp del: as_lines_simps(3))
  next
    case False
    obtain b rest l'' where IH: "collectBatch f maxSize l' (as_lines ?acc) =
        Inr (Some (l'', Some (as_lines b, rest = [])))"
      "source_ok rest (Suc i + (length xs - length rest)) l''" "length rest < length xs"
      "batches maxSize ?acc (numbered (Suc i) xs) =
        b # batches maxSize [] (numbered (Suc i + (length xs - length rest)) rest)"
      using Cons.IH [OF l'(2) _ f(2), of ?acc] False by blast
    have "i + (length (x # xs) - length rest) = Suc i + (length xs - length rest)" using IH(3) by simp
    then show ?thesis
      unfolding step using IH False
      by (intro exI [of _ b] exI [of _ rest] exI [of _ l'']) (simp del: as_lines_simps(3))
  qed
qed simp

subsection \<open>What the subtasks are\<close>

text \<open>
  Specification of a task: the batches sealed one after the other, the header of the first with
  the status that the builder had, those of the others with \<open>SUBTASK_DONE\<close>.
\<close>

fun seal_batches ::
  "client_opts \<Rightarrow> crypto_libs \<Rightarrow> terminals \<Rightarrow> (nat \<Rightarrow> crypto_random) \<Rightarrow> string \<Rightarrow> nat \<Rightarrow> STATUS \<Rightarrow> string list \<Rightarrow>
   crypto_tuple \<Rightarrow> (Subtask list \<times> crypto_tuple) result" where
  "seal_batches opts lib t rn buffer k status [] tu = Inr ([], tu)"
| "seal_batches opts lib t rn buffer k status (b # bs) tu =
     bindE (message_out (co_doubleEncryption opts) lib t (rn k) (co_singleEncryptor opts) buffer
              (subtaskHeader opts status 0) (co_doEncrypt opts) defaultCompressionLevel b tu) (\<lambda>(d, tu).
     bindE (seal_batches opts lib t rn buffer (Suc k) SUBTASK_DONE bs tu) (\<lambda>(ss, tu).
       Inr (\<lparr>sb_data = d, sb_header = subtaskHeader opts status (length d)\<rparr> # ss, tu)))"

text \<open>The subtasks that the builder has after it wrote \<open>ss\<close> from the index \<open>k\<close> on.\<close>

definition put_subtasks :: "nat \<Rightarrow> Subtask list \<Rightarrow> Subtask list \<Rightarrow> Subtask list" where
  "put_subtasks k old ss = take k old @ ss @ drop (k + length ss) old"

lemma put_subtasks_Cons:
  assumes "k \<le> length old"
  shows "put_subtasks (Suc k) (if k = length old then old @ [s] else old[k := s]) ss = put_subtasks k old (s # ss)"
  using assms
  by (simp add: put_subtasks_def take_Suc_conv_app_nth [of k "old[k := s]"] drop_update_cancel)

lemma seal_batches_length:
  "seal_batches opts lib t rn buffer k status bs tu = Inr (ss, tu') \<Longrightarrow> length ss = length bs"
  by (induction bs arbitrary: k status tu ss tu') (auto simp: bindE_Inr_iff)

lemma createTask_seals:
  assumes "source_ok xs i l" and "xs \<noteq> []" and "length xs \<le> fuel" and "length xs \<le> n" and "\<not> tb_stopped tb"
    and "tb_subtaskIndex tb \<le> length (tb_subtasks tb)"
  shows "\<exists>l' batch. createTask opts lib t rn n fuel l tb tu =
    bindE (seal_batches opts lib t rn (tb_buffer tb) (tb_subtaskIndex tb) (tb_status tb)
       (map as_lines (batches (maxSubtaskSize (co_bufferSize opts)) [] (numbered i xs))) tu) (\<lambda>(ss, tu').
    Inr (Some (TASK_DONE, l', tb\<lparr>tb_batch := batch, tb_subtaskIndex := tb_subtaskIndex tb + length ss - 1,
       tb_status := TASK_DONE, tb_subtasks := put_subtasks (tb_subtaskIndex tb) (tb_subtasks tb) ss\<rparr>, tu')))"
  using assms
proof (induction xs arbitrary: i l n tb tu rule: measure_induct_rule [of length])
  case (less xs)
  let ?max = "maxSubtaskSize (co_bufferSize opts)" and ?k = "tb_subtaskIndex tb"
  obtain m where m: "n = Suc m" using less.prems(2,4) by (cases n) auto
  obtain b rest l1 where b: "collectBatch fuel ?max l [] = Inr (Some (l1, Some (as_lines b, rest = [])))"
    "source_ok rest (i + (length xs - length rest)) l1" "length rest < length xs"
    "batches ?max [] (numbered i xs) = b # batches ?max [] (numbered (i + (length xs - length rest)) rest)"
    using collectBatch_group [OF less.prems(1-3), of ?max "[]"] by auto
  let ?r = "message_out (co_doubleEncryption opts) lib t (rn ?k) (co_singleEncryptor opts) (tb_buffer tb)
      (subtaskHeader opts (tb_status tb) 0) (co_doEncrypt opts) defaultCompressionLevel (as_lines b) tu"
  show ?case
  proof (cases ?r)
    case (Inl e)
    then show ?thesis
      using b(1,4) less.prems(5) m by (simp add: createSubtask_def compressEncryptSubtask_def Let_def)
  next
    case (Inr dtu)
    obtain d tu1 where d: "dtu = (d, tu1)" by (cases dtu)
    let ?s = "\<lparr>sb_data = d, sb_header = subtaskHeader opts (tb_status tb) (length d)\<rparr>"
    let ?put = "if ?k = length (tb_subtasks tb) then tb_subtasks tb @ [?s] else (tb_subtasks tb)[?k := ?s]"
    have put: "length ?put = (if ?k = length (tb_subtasks tb) then Suc ?k else length (tb_subtasks tb))"
      by simp
    have put_one: "?put = put_subtasks ?k (tb_subtasks tb) [?s]"
      using put_subtasks_Cons [OF less.prems(6), of ?s "[]"] put less.prems(6)
      by (cases "?k = length (tb_subtasks tb)") (simp_all add: put_subtasks_def upd_conv_take_nth_drop)
    show ?thesis
    proof (cases "rest = []")
      case True
      then have "createTask opts lib t rn n fuel l tb tu =
          Inr (Some (TASK_DONE, l1, tb\<lparr>tb_batch := as_lines b, tb_subtasks := ?put, tb_status := TASK_DONE\<rparr>, tu1))"
        using b(1) Inr d less.prems(5,6) m by (simp add: createSubtask_def compressEncryptSubtask_def Let_def)
      then show ?thesis
        using True b(4) Inr d put_one by (intro exI [of _ l1] exI [of _ "as_lines b"]) simp
    next
      case False
      let ?tb1 = "tb\<lparr>tb_batch := as_lines b, tb_subtasks := ?put, tb_status := SUBTASK_DONE, tb_subtaskIndex := ?k + 1\<rparr>"
      have run: "createTask opts lib t rn n fuel l tb tu = createTask opts lib t rn m fuel l1 ?tb1 tu1"
        using b(1) Inr d less.prems(5,6) m False by (simp add: createSubtask_def compressEncryptSubtask_def Let_def)
      have "\<exists>l2 batch. createTask opts lib t rn m fuel l1 ?tb1 tu1 =
        bindE (seal_batches opts lib t rn (tb_buffer ?tb1) (tb_subtaskIndex ?tb1) (tb_status ?tb1)
           (map as_lines (batches ?max [] (numbered (i + (length xs - length rest)) rest))) tu1) (\<lambda>(ss, tu').
        Inr (Some (TASK_DONE, l2, ?tb1\<lparr>tb_batch := batch, tb_subtaskIndex := tb_subtaskIndex ?tb1 + length ss - 1,
           tb_status := TASK_DONE, tb_subtasks := put_subtasks (tb_subtaskIndex ?tb1) (tb_subtasks ?tb1) ss\<rparr>, tu')))"
        by (rule less.IH [OF b(3,2) False]) (use b(3) less.prems(3-6) m put in auto)
      then obtain l2 batch where IH: "createTask opts lib t rn m fuel l1 ?tb1 tu1 =
        bindE (seal_batches opts lib t rn (tb_buffer ?tb1) (tb_subtaskIndex ?tb1) (tb_status ?tb1)
           (map as_lines (batches ?max [] (numbered (i + (length xs - length rest)) rest))) tu1) (\<lambda>(ss, tu').
        Inr (Some (TASK_DONE, l2, ?tb1\<lparr>tb_batch := batch, tb_subtaskIndex := tb_subtaskIndex ?tb1 + length ss - 1,
           tb_status := TASK_DONE, tb_subtasks := put_subtasks (tb_subtaskIndex ?tb1) (tb_subtasks ?tb1) ss\<rparr>, tu')))"
        by blast
      have nonempty: "batches ?max [] (numbered (i + (length xs - length rest)) rest) \<noteq> []"
        using batches_nonempty False by simp
      show ?thesis
        unfolding run IH b(4) using Inr d put_subtasks_Cons [OF less.prems(6), of ?s]
        by (intro exI [of _ l2] exI [of _ batch])
          (auto simp: bindE_def split: sum.splits dest: seal_batches_length)
    qed
  qed
qed

lemma FileLines_source:
  assumes "\<forall>x \<in> set xs. x \<noteq> [] \<and> CHR 0x0A \<notin> set x" and "length (as_lines xs) \<le> length a"
    and "length xs \<le> TASK_MAX_SIZE"
  obtains l where "FileLines a (CHR 0x0A) True (as_lines xs) = Inr l" "source_ok xs 0 l"
proof -
  obtain l where l: "FileLines a (CHR 0x0A) True (as_lines xs) = Inr l" "lines_inv l" "unread l = as_lines xs"
    "length (ln_buffer l) = length a" "ln_delimiter l = CHR 0x0A" "ln_keepDelimiter l = True"
    "ln_index l = -1" "ln_processed l = 0"
    unfolding FileLines_StringLines by (rule StringLines_constructed)
  have "\<not> ln_position l < ln_inputSize l"
  proof
    assume "ln_position l < ln_inputSize l"
    then have "length (unread l) > length a"
      using l(2,4,8) by (auto simp: lines_inv_def bounds_ok_def unread_def)
    then show False using assms(2) l(3) by simp
  qed
  then have "ln_position l = ln_inputSize l" using l(2) by (auto simp: lines_inv_def bounds_ok_def)
  moreover have "length x < length a" if "x \<in> set xs" for x
  proof -
    have "length x < length (as_lines xs)" using that by (induction xs) (auto simp: less_Suc_eq_le)
    then show ?thesis using assms(2) by simp
  qed
  ultimately show ?thesis using l assms(1,3) by (intro that [of l]) (simp_all add: source_ok_def)
qed

text \<open>What a client gets that calls \<open>getTask\<close> with no subtasks of its own.\<close>

definition taken :: "task_builder \<Rightarrow> (Subtask list \<times> nat \<times> STATUS) option" where
  "taken tb = map_option (\<lambda>(ss, n, status, _). (ss, n, status)) (getTask [] tb)"

text \<open>
  C9: A source of non-empty lines that fits into the array of \<open>Lines\<close> becomes a task: the numbered
  lines, in order and each once, in batches that are all but the last as large as the buffer
  asks for, and a subtask for each batch.
\<close>

theorem builder_task:
  assumes "\<forall>x \<in> set xs. x \<noteq> [] \<and> CHR 0x0A \<notin> set x" and "xs \<noteq> []" and "length (as_lines xs) \<le> length a"
    and "length xs \<le> TASK_MAX_SIZE" and "length xs \<le> fuel" and "\<not> tb_stopped tb" and "tb_subtaskIndex tb = 0"
  shows "\<exists>l bs. FileLines a (CHR 0x0A) True (as_lines xs) = Inr l \<and> concat bs = numbered 0 xs \<and>
    (\<forall>b \<in> set (butlast bs). maxSubtaskSize (co_bufferSize opts) \<le> length (as_lines b)) \<and>
    map_sum id (map_option (\<lambda>(status, l, tb, tu). (status, taken tb, tu))) (createTask opts lib t rn fuel fuel l tb tu) =
    map_sum id (\<lambda>(ss, tu). Some (TASK_DONE, Some (ss @ drop (length bs) (tb_subtasks tb), length bs, TASK_DONE), tu))
      (seal_batches opts lib t rn (tb_buffer tb) 0 (tb_status tb) (map as_lines bs) tu)"
proof -
  obtain l where l: "FileLines a (CHR 0x0A) True (as_lines xs) = Inr l" "source_ok xs 0 l"
    by (rule FileLines_source [OF assms(1,3,4)])
  let ?bs = "batches (maxSubtaskSize (co_bufferSize opts)) [] (numbered 0 xs)"
  let ?seal = "seal_batches opts lib t rn (tb_buffer tb) 0 (tb_status tb) (map as_lines ?bs) tu"
  have ne: "numbered 0 xs \<noteq> []" "?bs \<noteq> []" using assms(2) batches_nonempty by simp_all
  obtain l' batch where run: "createTask opts lib t rn fuel fuel l tb tu =
    bindE ?seal (\<lambda>(ss, tu').
    Inr (Some (TASK_DONE, l', tb\<lparr>tb_batch := batch, tb_subtaskIndex := 0 + length ss - 1,
       tb_status := TASK_DONE, tb_subtasks := put_subtasks 0 (tb_subtasks tb) ss\<rparr>, tu')))"
    using createTask_seals [OF l(2) assms(2,5,5,6), of opts lib t rn tu] assms(7) by auto
  have "map_sum id (map_option (\<lambda>(status, l, tb, tu). (status, taken tb, tu))) (createTask opts lib t rn fuel fuel l tb tu) =
    map_sum id (\<lambda>(ss, tu). Some (TASK_DONE, Some (ss @ drop (length ?bs) (tb_subtasks tb), length ?bs, TASK_DONE), tu)) ?seal"
  proof (cases ?seal)
    case (Inr r)
    obtain ss tu' where r: "r = (ss, tu')" by (cases r)
    have "length ss = length ?bs" using seal_batches_length [of opts lib t rn "tb_buffer tb" 0 "tb_status tb"] Inr r by fastforce
    then show ?thesis
      using Inr r ne run by (simp add: taken_def getTask_def put_subtasks_def Suc_diff_le)
  qed (simp add: run)
  then show ?thesis
    using l(1) concat_batches [OF ne(1)] batches_full [OF ne(1)] by (intro exI [of _ l] exI [of _ ?bs]) simp
qed

subsection \<open>The two threads\<close>

text \<open>
  The thread of the builder runs \<open>run\<close>; the other one calls \<open>getTask\<close>, in a loop \<open>resume\<close> after it,
  and at last \<open>stop\<close>. A thread that waits at a condition variable goes on when the variable is
  notified and then looks at its condition again; it is not woken otherwise. \<open>sources\<close> is what
  opening the source may give.
\<close>

datatype builder_at = B_Loop | B_Read lines | B_Wait | B_Sleep | B_End

datatype taker_at = T_Call | T_Sleep | T_Got | T_End

record builder_sys =
  ys_builder :: task_builder
  ys_tuple :: crypto_tuple
  ys_at :: builder_at
  ys_taker :: taker_at
  ys_task :: "Subtask list"
  ys_taken :: "(Subtask list \<times> nat \<times> STATUS) list"

definition builder_start :: "crypto_tuple \<Rightarrow> builder_sys" where
  "builder_start tu = \<lparr>ys_builder = TaskBuilder_new, ys_tuple = tu, ys_at = B_Loop, ys_taker = T_Call,
     ys_task = [], ys_taken = []\<rparr>"

definition builder_error :: "task_builder \<Rightarrow> task_builder" where
  "builder_error tb = tb\<lparr>tb_status := ST_ERROR\<rparr>"

definition notify_builder :: "builder_at \<Rightarrow> builder_at" where
  "notify_builder at = (if at = B_Sleep then B_Wait else at)"

definition notify_taker :: "taker_at \<Rightarrow> taker_at" where
  "notify_taker at = (if at = T_Sleep then T_Call else at)"

inductive builder_step ::
  "client_opts \<Rightarrow> crypto_libs \<Rightarrow> terminals \<Rightarrow> lines result set \<Rightarrow> builder_sys \<Rightarrow> builder_sys \<Rightarrow> bool"
  for opts lib t sources where
  leave_loop: "ys_at ys = B_Loop \<Longrightarrow> tb_stopped (ys_builder ys) \<Longrightarrow>
    builder_step opts lib t sources ys (ys\<lparr>ys_at := B_End\<rparr>)"
| open_source: "ys_at ys = B_Loop \<Longrightarrow> \<not> tb_stopped (ys_builder ys) \<Longrightarrow> Inr l \<in> sources \<Longrightarrow>
    builder_step opts lib t sources ys
      (ys\<lparr>ys_builder := (ys_builder ys)\<lparr>tb_resume := False\<rparr>, ys_at := B_Read l\<rparr>)"
| open_fails: "ys_at ys = B_Loop \<Longrightarrow> \<not> tb_stopped (ys_builder ys) \<Longrightarrow> Inl e \<in> sources \<Longrightarrow> std_exception e \<Longrightarrow>
    builder_step opts lib t sources ys
      (ys\<lparr>ys_builder := builder_error ((ys_builder ys)\<lparr>tb_resume := False\<rparr>), ys_at := B_End\<rparr>)"
| create: "ys_at ys = B_Read l \<Longrightarrow>
    createSubtask opts lib t rn fuel l (ys_builder ys) (ys_tuple ys) = Inr (Some (status, l', tb, tu)) \<Longrightarrow>
    builder_step opts lib t sources ys
      (ys\<lparr>ys_builder := tb, ys_tuple := tu, ys_at := (if status = SUBTASK_DONE then B_Read l' else B_Wait),
          ys_taker := (if status = TASK_DONE then notify_taker (ys_taker ys) else ys_taker ys)\<rparr>)"
| create_fails: "ys_at ys = B_Read l \<Longrightarrow>
    createSubtask opts lib t rn fuel l (ys_builder ys) (ys_tuple ys) = Inl e \<Longrightarrow> std_exception e \<Longrightarrow>
    builder_step opts lib t sources ys (ys\<lparr>ys_builder := builder_error (ys_builder ys), ys_at := B_End\<rparr>)"
| wait_resume: "ys_at ys = B_Wait \<Longrightarrow>
    builder_step opts lib t sources ys (ys\<lparr>ys_at :=
      (if tb_resume (ys_builder ys) \<or> tb_stopped (ys_builder ys) then B_Loop else B_Sleep)\<rparr>)"
| call_getTask: "ys_taker ys = T_Call \<Longrightarrow> getTask (ys_task ys) (ys_builder ys) = Some (task, n, status, tb) \<Longrightarrow>
    builder_step opts lib t sources ys (ys\<lparr>ys_builder := tb, ys_taker := T_Got, ys_task := task,
      ys_taken := ys_taken ys @ [(task, n, status)]\<rparr>)"
| wait_task: "ys_taker ys = T_Call \<Longrightarrow> getTask (ys_task ys) (ys_builder ys) = None \<Longrightarrow>
    builder_step opts lib t sources ys (ys\<lparr>ys_taker := T_Sleep\<rparr>)"
| call_resume: "ys_taker ys = T_Got \<Longrightarrow>
    builder_step opts lib t sources ys (ys\<lparr>ys_builder := builder_resume (ys_builder ys), ys_taker := T_Call,
      ys_at := (if tb_stopped (ys_builder ys) then ys_at ys else notify_builder (ys_at ys))\<rparr>)"
| call_stop: "ys_taker ys = T_Got \<Longrightarrow>
    builder_step opts lib t sources ys (ys\<lparr>ys_builder := builder_stop (ys_builder ys), ys_taker := T_End,
      ys_at := notify_builder (ys_at ys)\<rparr>)"

inductive builder_reach ::
  "client_opts \<Rightarrow> crypto_libs \<Rightarrow> terminals \<Rightarrow> lines result set \<Rightarrow> crypto_tuple \<Rightarrow> builder_sys \<Rightarrow> bool"
  for opts lib t sources tu where
  start: "builder_reach opts lib t sources tu (builder_start tu)"
| step: "builder_reach opts lib t sources tu ys \<Longrightarrow> builder_step opts lib t sources ys ys' \<Longrightarrow>
    builder_reach opts lib t sources tu ys'"

inductive_cases builder_stepE: "builder_step opts lib t sources ys ys'"

lemma compressEncryptSubtask_status:
  assumes "compressEncryptSubtask opts lib t rn alldone tb tu = Inr (status, tb', tu')"
  shows "tb_stopped tb' = tb_stopped tb \<and> tb_resume tb' = tb_resume tb \<and>
    (tb_status tb' = status \<and> status \<in> {SUBTASK_DONE, TASK_DONE} \<or>
     tb_status tb' = tb_status tb \<and> status \<notin> {SUBTASK_DONE, TASK_DONE})"
  using assms by (auto simp: compressEncryptSubtask_def bindE_Inr_iff Let_def split: if_splits)

lemma createSubtask_status:
  assumes "createSubtask opts lib t rn fuel l tb tu = Inr (Some (status, l', tb', tu'))"
  shows "tb_stopped tb' = tb_stopped tb \<and> tb_resume tb' = tb_resume tb \<and>
    (tb_status tb' = status \<and> status \<in> {SUBTASK_DONE, TASK_DONE} \<or>
     tb_status tb' = tb_status tb \<and> status \<notin> {SUBTASK_DONE, TASK_DONE})"
proof -
  obtain r where r: "collectBatch fuel (maxSubtaskSize (co_bufferSize opts)) l [] = Inr r"
    using assms by (auto simp: createSubtask_def bindE_Inr_iff)
  then consider "r = None" | l1 where "r = Some (l1, None)" | l1 batch d where "r = Some (l1, Some (batch, d))"
    by (cases r) (auto, metis option.exhaust surj_pair)
  then show ?thesis
  proof cases
    case (3 l1 batch d)
    then have "compressEncryptSubtask opts lib t (rn (tb_subtaskIndex tb)) d (tb\<lparr>tb_batch := batch\<rparr>) tu =
        Inr (status, tb', tu')"
      using assms r by (auto simp: createSubtask_def bindE_Inr_iff)
    from compressEncryptSubtask_status [OF this] show ?thesis by simp
  qed (use assms r in \<open>auto simp: createSubtask_def\<close>)
qed

lemma builder_stopped:
  "builder_reach opts lib t sources tu ys \<Longrightarrow> tb_stopped (ys_builder ys) \<Longrightarrow> ys_taker ys = T_End"
proof (induction rule: builder_reach.induct)
  case (step ys ys')
  from step.hyps(2) show ?case
  proof cases
    case (create l rn fuel status l' tb tu)
    then show ?thesis
      using step.IH step.prems createSubtask_status [OF create(3)] by (auto simp: notify_taker_def)
  qed (use step.IH step.prems in \<open>auto simp: builder_error_def getTask_def builder_resume_def split: if_splits\<close>)
qed (simp add: builder_start_def TaskBuilder_new_def)

text \<open>
  No wake-up is lost but the one after an error: a client does not sleep while its task is ready or
  the builder is stopped, and the builder does not sleep when it was resumed or stopped.
\<close>

theorem builder_wakeups:
  assumes "builder_reach opts lib t sources tu ys"
  shows "(ys_taker ys = T_Sleep \<longrightarrow> tb_status (ys_builder ys) \<notin> {TASK_DONE, STOPPED} \<and> \<not> tb_stopped (ys_builder ys)) \<and>
    (ys_at ys = B_Sleep \<longrightarrow> \<not> tb_resume (ys_builder ys) \<and> \<not> tb_stopped (ys_builder ys))"
  using assms
proof induction
  case start
  then show ?case by (simp add: builder_start_def)
next
  case (step ys ys')
  from step.hyps(2) show ?case
  proof cases
    case (create l rn fuel status l' tb tu)
    then show ?thesis
      using step.IH createSubtask_status [OF create(3)] by (auto simp: notify_taker_def)
  qed (use step.IH builder_stopped [OF step.hyps(1)] in \<open>auto simp: builder_error_def getTask_def
      builder_resume_def builder_stop_def notify_builder_def split: if_splits\<close>)
qed

text \<open>
  C32: The defect: after an exception the builder ends without a notification, and a client that was
  already waiting sleeps for ever, although \<open>getTask\<close> would return at once.
\<close>

theorem builder_error_unnoticed:
  assumes "std_exception e"
  shows "\<exists>ys. builder_reach opts lib t {Inl e} tu ys \<and> ys_taker ys = T_Sleep \<and>
    getTask (ys_task ys) (ys_builder ys) \<noteq> None \<and> (\<nexists>ys'. builder_step opts lib t {Inl e} ys ys')"
proof -
  let ?y1 = "(builder_start tu)\<lparr>ys_taker := T_Sleep\<rparr>"
  let ?y2 = "?y1\<lparr>ys_builder := builder_error ((ys_builder ?y1)\<lparr>tb_resume := False\<rparr>), ys_at := B_End\<rparr>"
  have "builder_reach opts lib t {Inl e} tu ?y1"
    by (rule builder_reach.step [OF builder_reach.start builder_step.wait_task])
      (simp_all add: builder_start_def TaskBuilder_new_def getTask_def)
  then have "builder_reach opts lib t {Inl e} tu ?y2"
    by (rule builder_reach.step, intro builder_step.open_fails)
      (use assms in \<open>simp_all add: builder_start_def TaskBuilder_new_def\<close>)
  moreover have "\<nexists>ys'. builder_step opts lib t {Inl e} ?y2 ys'"
    by (auto elim: builder_stepE)
  moreover have "getTask (ys_task ?y2) (ys_builder ?y2) \<noteq> None"
    by (simp add: getTask_def builder_error_def)
  ultimately show ?thesis by (intro exI [of _ ?y2]) simp
qed

text \<open>A source without a line makes no task: both threads sleep for ever.\<close>

theorem builder_empty_source:
  "\<exists>ys. builder_reach opts lib t {FileLines a (CHR 0x0A) True []} tu ys \<and> ys_taker ys = T_Sleep \<and>
    ys_at ys = B_Sleep \<and> (\<nexists>ys'. builder_step opts lib t {FileLines a (CHR 0x0A) True []} ys ys')"
proof -
  obtain l where l: "FileLines a (CHR 0x0A) True [] = Inr l" "lines_inv l" "unread l = []"
    unfolding FileLines_StringLines by (rule StringLines_constructed)
  obtain l' where l': "file_getLine l = Inr (l', None)"
    using file_source.getLine_end [OF l(2,3)] by (auto simp: file_getLine_def)
  let ?s = "{FileLines a (CHR 0x0A) True []}"
  let ?y1 = "(builder_start tu)\<lparr>ys_taker := T_Sleep\<rparr>"
  let ?y2 = "?y1\<lparr>ys_builder := (ys_builder ?y1)\<lparr>tb_resume := False\<rparr>, ys_at := B_Read l\<rparr>"
  let ?y3 = "?y1\<lparr>ys_at := B_Wait\<rparr>"
  let ?y4 = "?y1\<lparr>ys_at := B_Sleep\<rparr>"
  have "builder_reach opts lib t ?s tu ?y1"
    by (rule builder_reach.step [OF builder_reach.start builder_step.wait_task])
      (simp_all add: builder_start_def TaskBuilder_new_def getTask_def)
  then have y2: "builder_reach opts lib t ?s tu ?y2"
    by (rule builder_reach.step, intro builder_step.open_source)
      (simp_all add: l(1) builder_start_def TaskBuilder_new_def)
  have "createSubtask opts lib t undefined 1 l (ys_builder ?y2) (ys_tuple ?y2) =
      Inr (Some (ST_NONE, l', ys_builder ?y2, ys_tuple ?y2))"
    by (simp add: createSubtask_def l')
  from builder_step.create [where ys = ?y2 and sources = ?s, OF _ this] have "builder_step opts lib t ?s ?y2 ?y3"
    by (simp add: builder_start_def TaskBuilder_new_def)
  from builder_reach.step [OF y2 this] have y3: "builder_reach opts lib t ?s tu ?y3" .
  have "builder_step opts lib t ?s ?y3 ?y4"
    using builder_step.wait_resume [of ?y3 opts lib t ?s] by (simp add: builder_start_def TaskBuilder_new_def)
  from builder_reach.step [OF y3 this] have "builder_reach opts lib t ?s tu ?y4" .
  moreover have "\<nexists>ys'. builder_step opts lib t ?s ?y4 ys'"
    by (auto elim: builder_stepE)
  ultimately show ?thesis by (intro exI [of _ ?y4]) simp
qed

subsection \<open>Witnesses\<close>

definition demo_client_opts :: client_opts where
  "demo_client_opts = \<lparr>co_compressor = LZ4, co_compressionLevel = 3, co_diagnostics = DIAG_NONE,
     co_doEncrypt = True, co_singleEncryptor = CRYPTOSODIUM, co_doubleEncryption = False,
     co_bufferSize = 50, co_runLoop = True, co_maxNumberTasks = 0\<rparr>"

lemma builder_task_witness:
  "\<exists>l bs. FileLines (replicate 20 nul) (CHR 0x0A) True (as_lines [''ab'', ''c'']) = Inr l \<and>
    concat bs = [''[0]ab'', ''[1]c''] \<and> (\<forall>b \<in> set (butlast bs). 6 \<le> length (as_lines b)) \<and>
    map_sum id (map_option (\<lambda>(status, l, tb, tu). (status, taken tb, tu)))
      (createTask demo_client_opts demo_libs client_terminals (\<lambda>_. demo_random) 2 2 l TaskBuilder_new (demo_tuple True)) =
    map_sum id (\<lambda>(ss, tu). Some (TASK_DONE, Some (ss, length bs, TASK_DONE), tu))
      (seal_batches demo_client_opts demo_libs client_terminals (\<lambda>_. demo_random) [] 0 ST_NONE (map as_lines bs)
        (demo_tuple True))"
proof -
  have max: "maxSubtaskSize (co_bufferSize demo_client_opts) = 6"
    by (simp add: maxSubtaskSize_def demo_client_opts_def HEADER_SIZE_44)
  have digits: "to_digits 0 = ''0''" "to_digits (Suc 0) = ''1''"
    by (simp_all add: to_digits.simps digit_char_def char_of_def bit_0)
  have size: "length [''ab'', ''c''] \<le> TASK_MAX_SIZE" by (simp add: TASK_MAX_SIZE_def)
  show ?thesis
    using builder_task [of "[''ab'', ''c'']" "replicate 20 nul" 2 TaskBuilder_new demo_client_opts demo_libs
        client_terminals "\<lambda>_. demo_random" "demo_tuple True", OF _ _ _ size]
    by (simp add: max digits TaskBuilder_new_def)
qed

lemma builder_wakeups_witness:
  "\<exists>ys. builder_reach demo_client_opts demo_libs client_terminals {FileLines (replicate 8 (CHR ''z'')) (CHR 0x0A) True []}
      (demo_tuple True) ys \<and> ys_taker ys = T_Sleep \<and> ys_at ys = B_Sleep \<and>
    tb_status (ys_builder ys) \<notin> {TASK_DONE, STOPPED} \<and> \<not> tb_stopped (ys_builder ys) \<and> \<not> tb_resume (ys_builder ys)"
proof -
  obtain ys where ys: "builder_reach demo_client_opts demo_libs client_terminals
      {FileLines (replicate 8 (CHR ''z'')) (CHR 0x0A) True []} (demo_tuple True) ys"
    "ys_taker ys = T_Sleep" "ys_at ys = B_Sleep"
    using builder_empty_source by blast
  then show ?thesis using builder_wakeups [OF ys(1)] by blast
qed

lemma builder_error_unnoticed_witness:
  "\<exists>ys. builder_reach demo_client_opts demo_libs client_terminals {Inl (Runtime_Error ''file_size'')}
     (demo_tuple True) ys \<and> ys_taker ys = T_Sleep \<and> getTask (ys_task ys) (ys_builder ys) \<noteq> None \<and>
     (\<nexists>ys'. builder_step demo_client_opts demo_libs client_terminals {Inl (Runtime_Error ''file_size'')} ys ys')"
  by (rule builder_error_unnoticed) simp

end
