(* ===== verification/Clients.thy ===== *)
theory Clients
  imports Tcp_Sessions Task_Builder
begin

section \<open>Clients (client_src/Client, TcpClient, FifoClient)\<close>

text \<open>
  A client makes its encryptors, sends their signatures and public keys, and takes the keys of
  the session from the status message that comes back. Then it sends the subtasks that the task
  builder has made, one after the other, and after each waits for the reply, decrypts it and
  writes it to its stream.

  \<open>Client\<close> is a record with functions on it; the two transports differ in how a message is sent
  and read. The results of the system calls, the bytes that arrive and the subtasks are arguments.
\<close>

subsection \<open>Client\<close>

text \<open>
  The first encryptor of Sodium and the second one of Crypto++ are those of the tuple. The code
  has room for the other two; the second of Sodium is never made.
\<close>

record client =
  ct_encryptors :: crypto_tuple
  ct_primaryCryptopp :: "encryptor option"
  ct_secondarySodium :: "encryptor option"
  ct_primarySignatureWithKey :: string
  ct_primaryPubKeyAes :: string
  ct_secondarySignatureWithKey :: string
  ct_secondaryPubKeyAes :: string
  ct_authenticationHeader :: HEADER
  ct_clientId :: nat
  ct_status :: STATUS
  ct_header :: HEADER
  ct_response :: string
  ct_fifoName :: string

record client_random =
  cr_kx :: bytes
  cr_sign :: bytes
  cr_dh :: bytes
  cr_rsa :: bytes
  cr_dh_primary :: bytes
  cr_rsa_primary :: bytes

definition authenticationHeader :: "string \<Rightarrow> string \<Rightarrow> string \<Rightarrow> string \<Rightarrow> HEADER" where
  "authenticationHeader p1 p2 p3 p4 =
     \<lparr>header_type = AUTHENTICATE, field1_size = length p1, field2_size = length p2,
      header_compressor = COMPR_NONE, header_diagnostics = DIAG_NONE, header_status = ST_NONE,
      field3_size = length p3, field4_size = length p4\<rparr>"

text \<open>
  The constructor. If the primary encryptor is not one of Sodium, one of Sodium is made all the
  same and its signature and key replace those of the other.
\<close>

definition Client_new ::
  "CRYPTO \<Rightarrow> crypto_libs \<Rightarrow> string \<Rightarrow> client_random \<Rightarrow> HEADER \<Rightarrow> client result" where
  "Client_new primary lib auth cr fresh =
     bindE (if primary = CRYPTOPP
            then bindE (CryptoPlPl_client (cl_cryptopp lib) auth (cr_dh_primary cr) (cr_rsa_primary cr))
              (\<lambda>e. Inr (Some e))
            else Inr None) (\<lambda>primaryCryptopp.
     bindE (CryptoSodium_client (cl_sodium lib) auth (cr_kx cr) (cr_sign cr)) (\<lambda>sodium.
     bindE (CryptoPlPl_client (cl_cryptopp lib) auth (cr_dh cr) (cr_rsa cr)) (\<lambda>secondary.
       Inr \<lparr>ct_encryptors = \<lparr>tu_sodium = Some sodium, tu_cryptopp = Some secondary, tu_input = []\<rparr>,
            ct_primaryCryptopp = primaryCryptopp, ct_secondarySodium = None,
            ct_primarySignatureWithKey = en_signatureWithPubKeySign sodium,
            ct_primaryPubKeyAes = en_encodedPubKeyAes sodium,
            ct_secondarySignatureWithKey = en_signatureWithPubKeySign secondary,
            ct_secondaryPubKeyAes = en_encodedPubKeyAes secondary,
            ct_authenticationHeader = authenticationHeader
              (en_signatureWithPubKeySign sodium) (en_encodedPubKeyAes sodium)
              (en_signatureWithPubKeySign secondary) (en_encodedPubKeyAes secondary),
            ct_clientId = 0, ct_status = ST_NONE, ct_header = fresh, ct_response = [], ct_fifoName = []\<rparr>)))"

text \<open>What a client sends first.\<close>

definition signature_bytes :: "client \<Rightarrow> string" where
  "signature_bytes c = message_bytes (ct_authenticationHeader c) (ct_primarySignatureWithKey c)
     (ct_primaryPubKeyAes c) (ct_secondarySignatureWithKey c) (ct_secondaryPubKeyAes c)"

text \<open>
  The encryptors report that the signature was sent, and every copy of the signatures and keys is
  overwritten. \<open>sendSignature\<close> of an encryptor never reports a failure.
\<close>

definition zeroed :: "string \<Rightarrow> string" where
  "zeroed s = replicate (length s) nul"

definition sendSignatureCommon :: "client \<Rightarrow> bool \<times> client" where
  "sendSignatureCommon c =
     (True, c\<lparr>ct_encryptors := (ct_encryptors c)
                \<lparr>tu_sodium := map_option sodium_sendSignature (tu_sodium (ct_encryptors c)),
                 tu_cryptopp := map_option cryptopp_sendSignature (tu_cryptopp (ct_encryptors c))\<rparr>,
              ct_secondarySodium := map_option sodium_sendSignature (ct_secondarySodium c),
              ct_primaryCryptopp := map_option cryptopp_sendSignature (ct_primaryCryptopp c),
              ct_primarySignatureWithKey := zeroed (ct_primarySignatureWithKey c),
              ct_primaryPubKeyAes := zeroed (ct_primaryPubKeyAes c),
              ct_secondarySignatureWithKey := zeroed (ct_secondarySignatureWithKey c),
              ct_secondaryPubKeyAes := zeroed (ct_secondaryPubKeyAes c)\<rparr>)"

subsection \<open>The status of the session\<close>

text \<open>
  \<open>optionally f e\<close>: what is done with an encryptor if there is one; the flag is what
  \<open>keysExchanged\<close> is then.
\<close>

definition optionally ::
  "(encryptor \<Rightarrow> encryptor result) \<Rightarrow> encryptor option \<Rightarrow> bool \<Rightarrow> (encryptor option \<times> bool) result" where
  "optionally f e flag =
     (case e of None \<Rightarrow> Inr (None, flag) | Some e \<Rightarrow> bindE (f e) (\<lambda>e. Inr (Some e, True)))"

record exchange_random =
  xr_sodium :: bytes
  xr_cryptopp :: bytes
  xr_secondary_sodium :: bytes
  xr_primary_cryptopp :: bytes

definition clientKeyExchange ::
  "crypto_libs \<Rightarrow> exchange_random \<Rightarrow> string \<Rightarrow> string \<Rightarrow> client \<Rightarrow> client result" where
  "clientKeyExchange lib xr primaryPeerPubKeyAes secondaryPeerPubKeyAes c =
     bindE (optionally (sodium_clientKeyExchange (cl_sodium lib) (xr_sodium xr) primaryPeerPubKeyAes)
              (tu_sodium (ct_encryptors c)) False) (\<lambda>(e0, exchanged).
     bindE (optionally (cryptopp_clientKeyExchange (cl_cryptopp lib) (xr_primary_cryptopp xr)
              primaryPeerPubKeyAes) (ct_primaryCryptopp c) exchanged) (\<lambda>(e1, exchanged).
     bindE (optionally (sodium_clientKeyExchange (cl_sodium lib) (xr_secondary_sodium xr)
              secondaryPeerPubKeyAes) (ct_secondarySodium c) exchanged) (\<lambda>(e2, exchanged).
     bindE (optionally (cryptopp_clientKeyExchange (cl_cryptopp lib) (xr_cryptopp xr)
              secondaryPeerPubKeyAes) (tu_cryptopp (ct_encryptors c)) exchanged) (\<lambda>(e3, exchanged).
       if \<not> exchanged then Inl (Runtime_Error ''clientKeyExchange failed'')
       else Inr (c\<lparr>ct_encryptors := (ct_encryptors c)\<lparr>tu_sodium := e0, tu_cryptopp := e3\<rparr>,
                   ct_primaryCryptopp := e1, ct_secondarySodium := e2\<rparr>)))))"

definition displayMaxTotalSessionsWarn :: string where
  "displayMaxTotalSessionsWarn =
     [CHR 0x0A, CHR 0x09] @ ''!!!!!!!!!'' @ [CHR 0x0A, CHR 0x09] @
     ''The total number of sessions exceeds system capacity.'' @ [CHR 0x0A, CHR 0x09] @
     ''This client will wait in the queue until load subsides.'' @ [CHR 0x0A, CHR 0x09] @
     ''It will start running if some other clients are closed.'' @ [CHR 0x0A, CHR 0x09] @
     ''You can also close this client and try again later,'' @ [CHR 0x0A, CHR 0x09] @
     ''but spot in the queue will be lost.'' @ [CHR 0x0A, CHR 0x09] @
     ''See '' @ [CHR 0x22] @ ''MaxTotalSessions'' @ [CHR 0x22] @ '' in ServerOptions.json.'' @
     [CHR 0x0A, CHR 0x09] @ ''!!!!!!!!!'' @ [CHR 0x0A]"

definition displayMaxSessionsOfTypeWarn :: "string \<Rightarrow> string" where
  "displayMaxSessionsOfTypeWarn type =
     [CHR 0x0A, CHR 0x09] @ ''!!!!!!!!!'' @ [CHR 0x0A, CHR 0x09] @
     ''The number of '' @ type @ '' sessions exceeds pool capacity.'' @ [CHR 0x0A, CHR 0x09] @
     ''This client is waiting in the queue for available thread.'' @ [CHR 0x0A, CHR 0x09] @
     ''It will start running if some other '' @ type @ '' clients'' @ [CHR 0x0A, CHR 0x09] @
     ''are closed.'' @ [CHR 0x0A, CHR 0x09] @
     ''You can also close this client and try again later,'' @ [CHR 0x0A, CHR 0x09] @
     ''but spot in the queue will be lost.'' @ [CHR 0x0A, CHR 0x09] @
     ''See '' @ [CHR 0x22] @ ''Max'' @ (if type = ''fifo'' then ''Fifo'' else ''Tcp'') @ ''Sessions'' @ [CHR 0x22] @
     '' in ServerOptions.json.'' @ [CHR 0x0A, CHR 0x09] @ ''!!!!!!!!!'' @ [CHR 0x0A]"

text \<open>
  \<open>processStatus\<close> returns its flag, the warning it writes and the client. An exception of the
  key exchange is caught; the caller then gives up the client.
\<close>

definition processStatus ::
  "crypto_libs \<Rightarrow> exchange_random \<Rightarrow> string \<Rightarrow> string \<Rightarrow> string \<Rightarrow> client \<Rightarrow> (bool \<times> string \<times> client) result" where
  "processStatus lib xr primaryPeerPubKeyAes type secondaryPeerPubKeyAes c =
     (let c = c\<lparr>ct_status := extractStatus (ct_header c)\<rparr> in
      case clientKeyExchange lib xr primaryPeerPubKeyAes secondaryPeerPubKeyAes c of
        Inl e \<Rightarrow> if std_exception e then Inr (False, [], c) else Inl e
      | Inr c \<Rightarrow>
          Inr (True,
               (if ct_status c = MAX_OBJECTS_OF_TYPE then displayMaxSessionsOfTypeWarn type
                else if ct_status c = MAX_TOTAL_OBJECTS then displayMaxTotalSessionsWarn else []),
               c))"

text \<open>What \<open>displayStatus\<close> writes to the log, and whether the status is an error.\<close>

definition displayStatus :: "STATUS \<Rightarrow> string \<times> bool" where
  "displayStatus status =
     (case status of
        ST_NONE \<Rightarrow> ([], False)
      | MAX_TOTAL_OBJECTS \<Rightarrow> ([], False)
      | MAX_OBJECTS_OF_TYPE \<Rightarrow> ([], False)
      | STOPPED \<Rightarrow> ([], False)
      | SESSION_STOPPED \<Rightarrow> ([], False)
      | BAD_HEADER \<Rightarrow> (''STATUS::BAD_HEADER'', True)
      | COMPRESSION_PROBLEM \<Rightarrow> (''STATUS::COMPRESSION_PROBLEM'', True)
      | DECOMPRESSION_PROBLEM \<Rightarrow> (''STATUS::DECOMPRESSION_PROBLEM'', True)
      | FIFO_PROBLEM \<Rightarrow> (''STATUS::FIFO_PROBLEM'', True)
      | TCP_PROBLEM \<Rightarrow> (''STATUS::TCP_PROBLEM'', True)
      | TCP_TIMEOUT \<Rightarrow> (CHR 0x09 # ''server timeout! Increase '' @ [CHR 0x22] @ ''TcpTimeout'' @ [CHR 0x22] @
          '' in ServerOptions.json'', True)
      | HEARTBEAT_PROBLEM \<Rightarrow> (''STATUS::HEARTBEAT_PROBLEM'', True)
      | HEARTBEAT_TIMEOUT \<Rightarrow> (CHR 0x09 # ''heartbeat timeout! Increase '' @ [CHR 0x22] @ ''HeartbeatTimeout'' @
          [CHR 0x22] @ '' in ClientOptions.json'', True)
      | ENCRYPTION_PROBLEM \<Rightarrow> (''Encryption problem'', True)
      | DECRYPTION_PROBLEM \<Rightarrow> (''Decryption problem'', True)
      | ST_ERROR \<Rightarrow> (''Internal error'', True)
      | _ \<Rightarrow> (''unexpected problem'', True))"

text \<open>
  \<open>receiveStatus\<close> of the two clients: the bytes that arrive, in pieces, hold the number of the
  client and the keys of the session.
\<close>

definition take_status ::
  "crypto_libs \<Rightarrow> exchange_random \<Rightarrow> string \<Rightarrow> (HEADER \<times> string list \<times> bool) result \<Rightarrow> client \<Rightarrow>
   (bool \<times> string \<times> client) result" where
  "take_status lib xr type r c =
     bindE r (\<lambda>(header, array, ok).
       if \<not> ok then Inl (Runtime_Error ''readMessage failed'')
       else bindE (fromChars 64 (array ! 0)) (\<lambda>clientId.
         processStatus lib xr (array ! 1) type (array ! 2)
           (c\<lparr>ct_header := header, ct_clientId := clientId\<rparr>)))"

definition tcp_receiveStatus ::
  "crypto_libs \<Rightarrow> exchange_random \<Rightarrow> string list \<Rightarrow> client \<Rightarrow> (bool \<times> string \<times> client) result" where
  "tcp_receiveStatus lib xr chunks c =
     (if ct_status c \<noteq> ST_NONE then Inr (False, [], c)
      else take_status lib xr ''tcp'' (tcp_readMessage chunks (ct_header c) [[], [], []]) c)"

definition fifo_receiveStatus ::
  "crypto_libs \<Rightarrow> exchange_random \<Rightarrow> string \<Rightarrow> bool \<Rightarrow> read_result list \<Rightarrow> client \<Rightarrow>
   (bool \<times> string \<times> client) option result" where
  "fifo_receiveStatus lib xr fifoDirectoryName opened rs c =
     (if ct_status c \<noteq> ST_NONE then Inr (Some (False, [], c))
      else bindE (fifo_readMessage opened True rs (ct_header c) [[], [], []]) (\<lambda>r.
        case r of
          None \<Rightarrow> Inr None
        | Some m \<Rightarrow>
            bindE (take_status lib xr ''fifo'' (Inr m)
              (c\<lparr>ct_fifoName := ct_fifoName c @ fifoDirectoryName @ ''/'' @ (fst (snd m) ! 0)\<rparr>))
              (\<lambda>r. Inr (Some r))))"

subsection \<open>Requests and replies\<close>

text \<open>
  \<open>printReply\<close> returns its flag, what it writes to the stream, and the client. The status of the
  heartbeat, if there is one, is asked first.
\<close>

definition printReply ::
  "client_opts \<Rightarrow> crypto_libs \<Rightarrow> terminals \<Rightarrow> HEADER \<Rightarrow> crypto_random \<Rightarrow> string \<Rightarrow> STATUS option \<Rightarrow> client \<Rightarrow>
   (bool \<times> string \<times> client) result" where
  "printReply opts lib t fresh rn buffer heartbeat c =
     (if (case heartbeat of None \<Rightarrow> False | Some status \<Rightarrow> snd (displayStatus status)) then Inr (False, [], c)
      else bindE (message_in (co_doubleEncryption opts) lib t fresh rn (co_singleEncryptor opts) buffer
             (ct_header c) (ct_response c) (ct_encryptors c)) (\<lambda>(header, response, tu).
        let c = c\<lparr>ct_header := header, ct_response := response, ct_encryptors := tu\<rparr> in
        Inr (response \<noteq> [], response, c)))"

text \<open>
  What the world gives to one subtask and its reply over TCP: whether the waits for the socket
  succeed, the error of the write, the bytes of the reply, the status of the heartbeat, the
  random bytes.
\<close>

record tcp_turn_env =
  te_wait_write :: bool
  te_write_error :: "asio_error option"
  te_wait_read :: bool
  te_chunks :: "string list"
  te_heartbeat :: "STATUS option"
  te_random :: crypto_random
  te_buffer :: string

definition tcp_send :: "tcp_turn_env \<Rightarrow> Subtask \<Rightarrow> string \<times> bool" where
  "tcp_send env subtask =
     (if \<not> te_wait_write env then ([], False)
      else (fst (tcp_sendMessage (te_write_error env) (sb_header subtask) (sb_data subtask) [] [] []), True))"

text \<open>
  \<open>receive\<close> catches what is thrown; the client then stops, and the encryptors are not used again.
  The reply goes into a string that still holds the reply before.
\<close>

definition caught :: "client \<Rightarrow> (bool \<times> string \<times> client) result \<Rightarrow> (bool \<times> string \<times> client) result" where
  "caught c r = (case r of Inl e \<Rightarrow> if std_exception e then Inr (False, [], c) else Inl e | Inr x \<Rightarrow> Inr x)"

definition tcp_receive ::
  "client_opts \<Rightarrow> crypto_libs \<Rightarrow> terminals \<Rightarrow> HEADER \<Rightarrow> tcp_turn_env \<Rightarrow> client \<Rightarrow> (bool \<times> string \<times> client) result" where
  "tcp_receive opts lib t fresh env c =
     caught c
       (if \<not> te_wait_read env then Inr (False, [], c)
        else bindE (tcp_readMessage (te_chunks env) fresh [ct_response c]) (\<lambda>(header, array, ok).
          let c = c\<lparr>ct_response := array ! 0\<rparr> in
          if \<not> ok then Inr (False, [], c)
          else printReply opts lib t fresh (te_random env) (te_buffer env) (te_heartbeat env)
                 (c\<lparr>ct_status := ST_NONE\<rparr>)))"

text \<open>The bytes sent, what is printed, the flag and the client.\<close>

definition tcp_turn ::
  "client_opts \<Rightarrow> crypto_libs \<Rightarrow> terminals \<Rightarrow> HEADER \<Rightarrow> tcp_turn_env \<Rightarrow> Subtask \<Rightarrow> client \<Rightarrow>
   (string \<times> string \<times> bool \<times> client) option result" where
  "tcp_turn opts lib t fresh env subtask c =
     (case tcp_send env subtask of (sent, ok) \<Rightarrow>
        if \<not> ok then Inr (Some (sent, [], False, c))
        else bindE (tcp_receive opts lib t fresh env c)
          (\<lambda>(ok, printed, c). Inr (Some (sent, printed, ok, c))))"

text \<open>
  Over a pipe the client tries again until the session has opened it: every attempt has the flag
  that the signal handler sets, what opening and writing give, and whether the pipe still exists.
\<close>

record send_attempt =
  sa_closeFlag :: bool
  sa_opened :: bool
  sa_writes :: "write_result list"
  sa_exists :: bool

fun fifo_send :: "send_attempt list \<Rightarrow> Subtask \<Rightarrow> client \<Rightarrow> (string \<times> bool \<times> client) option result" where
  "fifo_send [] subtask c = Inr None"
| "fifo_send (a # as) subtask c =
     (let c = (if sa_closeFlag a then c\<lparr>ct_status := STOPPED\<rparr> else c) in
      bindE (fifo_sendMessage (sa_opened a) (sa_writes a) (sb_header subtask) (sb_data subtask) [] [] []) (\<lambda>r.
        case r of
          None \<Rightarrow> Inr None
        | Some (w, ok) \<Rightarrow>
            if ok then Inr (Some (w, True, c))
            else if \<not> sa_exists a then Inr (Some (w, False, c\<lparr>ct_status := SESSION_STOPPED\<rparr>))
            else bindE (fifo_send as subtask c) (\<lambda>r. Inr (map_option (\<lambda>(w', ok, c). (w @ w', ok, c)) r))))"

record fifo_turn_env =
  fe_attempts :: "send_attempt list"
  fe_opened :: bool
  fe_reads :: "read_result list"
  fe_heartbeat :: "STATUS option"
  fe_random :: crypto_random
  fe_buffer :: string

definition fifo_receive ::
  "client_opts \<Rightarrow> crypto_libs \<Rightarrow> terminals \<Rightarrow> HEADER \<Rightarrow> fifo_turn_env \<Rightarrow> client \<Rightarrow>
   (bool \<times> string \<times> client) option result" where
  "fifo_receive opts lib t fresh env c =
     (let c = c\<lparr>ct_status := ST_NONE\<rparr> in
      case fifo_readMessage (fe_opened env) True (fe_reads env) fresh [ct_response c] of
        Inl e \<Rightarrow> if std_exception e then Inr (Some (False, [], c)) else Inl e
      | Inr None \<Rightarrow> Inr None
      | Inr (Some (header, array, ok)) \<Rightarrow>
          let c = c\<lparr>ct_response := array ! 0\<rparr> in
          if \<not> ok then Inr (Some (False, [], c))
          else bindE (caught c (printReply opts lib t fresh (fe_random env) (fe_buffer env) (fe_heartbeat env) c))
            (\<lambda>r. Inr (Some r)))"

definition fifo_turn_client ::
  "client_opts \<Rightarrow> crypto_libs \<Rightarrow> terminals \<Rightarrow> HEADER \<Rightarrow> fifo_turn_env \<Rightarrow> Subtask \<Rightarrow> client \<Rightarrow>
   (string \<times> string \<times> bool \<times> client) option result" where
  "fifo_turn_client opts lib t fresh env subtask c =
     bindE (fifo_send (fe_attempts env) subtask c) (\<lambda>r.
       case r of
         None \<Rightarrow> Inr None
       | Some (sent, ok, c) \<Rightarrow>
           if \<not> ok then Inr (Some (sent, [], False, c))
           else bindE (fifo_receive opts lib t fresh env c)
             (\<lambda>r. Inr (map_option (\<lambda>(ok, printed, c). (sent, printed, ok, c)) r)))"

subsection \<open>Tasks\<close>

text \<open>The loop over the subtasks; \<open>turn k\<close> is \<open>send\<close> and \<open>receive\<close> of the \<open>k\<close>-th.\<close>

fun send_all ::
  "(nat \<Rightarrow> Subtask \<Rightarrow> client \<Rightarrow> (string \<times> string \<times> bool \<times> client) option result) \<Rightarrow> nat \<Rightarrow> Subtask list \<Rightarrow> client \<Rightarrow>
   (string list \<times> string \<times> bool \<times> client) option result" where
  "send_all turn k [] c = Inr (Some ([], [], True, c))"
| "send_all turn k (s # ss) c =
     bindE (turn k s c) (\<lambda>r.
       case r of
         None \<Rightarrow> Inr None
       | Some (sent, printed, ok, c) \<Rightarrow>
           if \<not> ok then Inr (Some ([sent], printed, False, c))
           else bindE (send_all turn (Suc k) ss c)
             (\<lambda>r. Inr (map_option (\<lambda>(sents, printed', ok, c). (sent # sents, printed @ printed', ok, c)) r)))"

text \<open>\<open>Client::processTask\<close>, for what \<open>getTask\<close> returns.\<close>

definition client_processTask ::
  "(nat \<Rightarrow> Subtask \<Rightarrow> client \<Rightarrow> (string \<times> string \<times> bool \<times> client) option result) \<Rightarrow> Subtask list \<times> nat \<times> STATUS \<Rightarrow>
   client \<Rightarrow> (string list \<times> string \<times> bool \<times> client) option result" where
  "client_processTask turn got c =
     (case got of (task, n, status) \<Rightarrow>
        if status = ST_ERROR then Inr (Some ([], [], False, c))
        else if length task < n then Inl Undefined_Behaviour
        else send_all turn 0 (take n task) c)"

text \<open>
  \<open>Client::run\<close>, for the tasks that the builder gives one after the other; the flag says whether it
  has returned.
\<close>

fun client_run ::
  "client_opts \<Rightarrow> int \<Rightarrow> ((nat \<Rightarrow> Subtask \<Rightarrow> client \<Rightarrow> (string \<times> string \<times> bool \<times> client) option result) \<times>
     (Subtask list \<times> nat \<times> STATUS)) list \<Rightarrow> client \<Rightarrow> (string \<times> bool \<times> client) result" where
  "client_run opts numberTasks [] c = Inr ([], False, c)"
| "client_run opts numberTasks ((turn, got) # tasks) c =
     bindE (client_processTask turn got c) (\<lambda>r.
       case r of
         None \<Rightarrow> Inr ([], False, c)
       | Some (sent, printed, ok, c) \<Rightarrow>
           let numberTasks = numberTasks + 1 in
           if \<not> ok \<or> 0 < co_maxNumberTasks opts \<and> numberTasks = co_maxNumberTasks opts \<or> \<not> co_runLoop opts
           then Inr (printed, True, c)
           else bindE (client_run opts numberTasks tasks c)
             (\<lambda>(printed', returned, c). Inr (printed @ printed', returned, c)))"

subsection \<open>Client and session\<close>

text \<open>That the signature was sent does not touch the key.\<close>

lemma sent_signature_key [simp]:
  "encryptor_key (sodium_sendSignature e) = encryptor_key e"
  "encryptor_key (cryptopp_sendSignature e) = encryptor_key e"
  "en_signatureSent (sodium_sendSignature e)" "en_signatureSent (cryptopp_sendSignature e)"
  by (simp_all add: encryptor_key_def sodium_sendSignature_def cryptopp_sendSignature_def)

lemma clientKeyExchange_sent:
  "sodium_clientKeyExchange lib r p (sodium_sendSignature e) =
     map_sum id sodium_sendSignature (sodium_clientKeyExchange lib r p e)"
  "cryptopp_clientKeyExchange lib' r p (cryptopp_sendSignature e) =
     map_sum id cryptopp_sendSignature (cryptopp_clientKeyExchange lib' r p e)"
  by (simp_all add: sodium_clientKeyExchange_def base64_decode_def cryptopp_clientKeyExchange_def sodium_sendSignature_def
      cryptopp_sendSignature_def split: option.split prod.split)

text \<open>What a client of the default kind makes, and the session made from it.\<close>

lemma Client_new_parts:
  assumes "Client_new CRYPTOSODIUM lib auth cr fresh = Inr c"
  obtains e0 e1 where "CryptoSodium_client (cl_sodium lib) auth (cr_kx cr) (cr_sign cr) = Inr e0"
    "CryptoPlPl_client (cl_cryptopp lib) auth (cr_dh cr) (cr_rsa cr) = Inr e1"
    "ct_encryptors c = \<lparr>tu_sodium = Some e0, tu_cryptopp = Some e1, tu_input = []\<rparr>"
    "ct_primaryCryptopp c = None" "ct_secondarySodium c = None" "ct_status c = ST_NONE"
    "ct_primarySignatureWithKey c = en_signatureWithPubKeySign e0" "ct_primaryPubKeyAes c = en_encodedPubKeyAes e0"
    "ct_secondarySignatureWithKey c = en_signatureWithPubKeySign e1" "ct_secondaryPubKeyAes c = en_encodedPubKeyAes e1"
    "ct_authenticationHeader c = authenticationHeader (ct_primarySignatureWithKey c) (ct_primaryPubKeyAes c)
       (ct_secondarySignatureWithKey c) (ct_secondaryPubKeyAes c)"
  using assms by (auto simp: Client_new_def bindE_Inr_iff)

lemma cryptopp_key_shorter:
  assumes "cryptopp_ok lib" and "CryptoPlPl_client lib auth dh rsa = Inr e"
  shows "length (en_encodedPubKeyAes e) \<le> length (en_signatureWithPubKeySign e)"
proof -
  obtain der where der: "rsa_DEREncode lib rsa = Some der"
    "\<And>m. length (rsa_sign lib rsa m) = RSA_KEY_SIZE div 8"
    using assms(1) unfolding cryptopp_ok_def by blast
  have "length (dh_public lib dh) = PublicKeyLength" using assms(1) unfolding cryptopp_ok_def by blast
  then show ?thesis
    using assms(2) der by (auto simp: CryptoPlPl_client_def rsa_defs Let_def PublicKeyLength_def RSA_KEY_SIZE_def)
qed

lemma session_of_client:
  assumes libs: "sodium_ok (cl_sodium lib)" "cryptopp_ok (cl_cryptopp lib)" "length auth \<le> 32"
    and client: "Client_new CRYPTOSODIUM lib auth cr fresh = Inr c"
  obtains se e0 e1 where "Session_new CRYPTOSODIUM lib auth hr fresh' clientId (ct_primarySignatureWithKey c)
      (ct_primaryPubKeyAes c) (ct_secondarySignatureWithKey c) (ct_secondaryPubKeyAes c) = Inr se"
    "se_clientId se = clientId" "tu_sodium (se_encryptors se) = Some e0" "tu_cryptopp (se_encryptors se) = Some e1"
    "en_verifiedSignature e0" "en_verifiedSignature e1"
    "\<And>(xr :: exchange_random) (c1 :: client). tu_sodium (ct_encryptors c1) = map_option sodium_sendSignature (tu_sodium (ct_encryptors c)) \<Longrightarrow>
       tu_cryptopp (ct_encryptors c1) = map_option cryptopp_sendSignature (tu_cryptopp (ct_encryptors c)) \<Longrightarrow>
       ct_primaryCryptopp c1 = None \<Longrightarrow> ct_secondarySodium c1 = None \<Longrightarrow>
       \<exists>f0 f1. clientKeyExchange lib xr (se_primaryPubKeyAes se) (se_secondaryPubKeyAes se) c1 =
         Inr (c1\<lparr>ct_encryptors := (ct_encryptors c1)\<lparr>tu_sodium := Some f0, tu_cryptopp := Some f1\<rparr>\<rparr>) \<and>
         en_signatureSent f0 \<and> en_signatureSent f1 \<and>
         encryptor_key f0 = encryptor_key e0 \<and> encryptor_key f1 = encryptor_key e1"
proof -
  obtain d0 d1 where d: "CryptoSodium_client (cl_sodium lib) auth (cr_kx cr) (cr_sign cr) = Inr d0"
    "CryptoPlPl_client (cl_cryptopp lib) auth (cr_dh cr) (cr_rsa cr) = Inr d1"
    "ct_encryptors c = \<lparr>tu_sodium = Some d0, tu_cryptopp = Some d1, tu_input = []\<rparr>"
    "ct_primarySignatureWithKey c = en_signatureWithPubKeySign d0" "ct_primaryPubKeyAes c = en_encodedPubKeyAes d0"
    "ct_secondarySignatureWithKey c = en_signatureWithPubKeySign d1" "ct_secondaryPubKeyAes c = en_encodedPubKeyAes d1"
    by (rule Client_new_parts [OF client]) blast
  have s0: "\<exists>e0 f. CryptoSodium_session (cl_sodium lib) auth (hr_kx0 hr) (hr_hide0 hr) (en_encodedPubKeyAes d0)
      (en_signatureWithPubKeySign d0) = Inr e0 \<and> en_verifiedSignature e0 \<and>
      sodium_clientKeyExchange (cl_sodium lib) r (en_encodedPubKeyAes e0) d0 = Inr f \<and>
      encryptor_key f = encryptor_key e0" for r
    using sodium_handshake_aux [OF libs(1,3), of "cr_kx cr" "cr_sign cr" "hr_kx0 hr" "hr_hide0 hr" r] d(1) by auto
  have s1: "\<exists>e1 f. CryptoPlPl_session (cl_cryptopp lib) auth (hr_kx1 hr) (hr_hide1 hr) (en_encodedPubKeyAes d1)
      (en_signatureWithPubKeySign d1) = Inr e1 \<and> en_verifiedSignature e1 \<and>
      cryptopp_clientKeyExchange (cl_cryptopp lib) r (en_encodedPubKeyAes e1) d1 = Inr f \<and>
      encryptor_key f = encryptor_key e1" for r
    using cryptopp_handshake_aux [OF libs(2), of auth "cr_dh cr" "cr_rsa cr" "hr_kx1 hr" "hr_hide1 hr" r] d(2) by auto
  obtain e0 where e0: "CryptoSodium_session (cl_sodium lib) auth (hr_kx0 hr) (hr_hide0 hr) (en_encodedPubKeyAes d0)
      (en_signatureWithPubKeySign d0) = Inr e0" "en_verifiedSignature e0" using s0 by blast
  obtain e1 where e1: "CryptoPlPl_session (cl_cryptopp lib) auth (hr_kx1 hr) (hr_hide1 hr) (en_encodedPubKeyAes d1)
      (en_signatureWithPubKeySign d1) = Inr e1" "en_verifiedSignature e1" using s1 by blast
  let ?se = "\<lparr>se_clientId = clientId, se_header = fresh', se_request = [], se_task = Task_new,
      se_status = ST_NONE, se_primaryCryptopp = None,
      se_encryptors = \<lparr>tu_sodium = Some e0, tu_cryptopp = Some e1, tu_input = []\<rparr>,
      se_primaryPubKeyAes = en_encodedPubKeyAes e0, se_secondaryPubKeyAes = en_encodedPubKeyAes e1\<rparr>"
  show ?thesis
  proof (rule that [of ?se e0 e1])
    fix xr :: exchange_random and c1 :: client
    assume c1: "tu_sodium (ct_encryptors c1) = map_option sodium_sendSignature (tu_sodium (ct_encryptors c))"
      "tu_cryptopp (ct_encryptors c1) = map_option cryptopp_sendSignature (tu_cryptopp (ct_encryptors c))"
      "ct_primaryCryptopp c1 = None" "ct_secondarySodium c1 = None"
    obtain f0 where f0: "sodium_clientKeyExchange (cl_sodium lib) (xr_sodium xr) (en_encodedPubKeyAes e0) d0 = Inr f0"
      "encryptor_key f0 = encryptor_key e0" using s0 [of "xr_sodium xr"] e0(1) by auto
    obtain f1 where f1: "cryptopp_clientKeyExchange (cl_cryptopp lib) (xr_cryptopp xr) (en_encodedPubKeyAes e1) d1 = Inr f1"
      "encryptor_key f1 = encryptor_key e1" using s1 [of "xr_cryptopp xr"] e1(1) by auto
    show "\<exists>f0 f1. clientKeyExchange lib xr (se_primaryPubKeyAes ?se) (se_secondaryPubKeyAes ?se) c1 =
         Inr (c1\<lparr>ct_encryptors := (ct_encryptors c1)\<lparr>tu_sodium := Some f0, tu_cryptopp := Some f1\<rparr>\<rparr>) \<and>
         en_signatureSent f0 \<and> en_signatureSent f1 \<and>
         encryptor_key f0 = encryptor_key e0 \<and> encryptor_key f1 = encryptor_key e1"
      using c1 d(3) f0 f1
      by (intro exI [of _ "sodium_sendSignature f0"] exI [of _ "cryptopp_sendSignature f1"])
        (simp add: clientKeyExchange_def optionally_def clientKeyExchange_sent)
  qed (use e0 e1 d in \<open>simp_all add: Session_new_def\<close>)
qed

text \<open>A terminal that makes a program a client, or a server.\<close>

definition client_at :: "terminals \<Rightarrow> bool" where
  "client_at t \<longleftrightarrow> isTerminal serverTerminal t = Inr False \<and> isTerminal clientTerminal t = Inr True"

definition server_at :: "terminals \<Rightarrow> bool" where
  "server_at t \<longleftrightarrow> isTerminal serverTerminal t = Inr True"

lemma may_use_terminal:
  "client_at t \<Longrightarrow> may_use t e = en_signatureSent e" "server_at t \<Longrightarrow> may_use t e = en_verifiedSignature e"
  by (simp_all add: client_at_def server_at_def may_use_def checkAccess_def)

lemma signature_arrives:
  assumes "cryptopp_ok (cl_cryptopp lib)" and client: "Client_new CRYPTOSODIUM lib auth cr fresh = Inr c"
    and wf: "header_wf (ct_authenticationHeader c)"
    and marked: "unmarked (serialize (ct_authenticationHeader c) @ ct_primarySignatureWithKey c @ ct_primaryPubKeyAes c @
      ct_secondarySignatureWithKey c @ ct_secondaryPubKeyAes c)"
    and cs: "concat cs = signature_bytes c"
  shows "tcp_readMessage cs h0 [[], [], [], []] = Inr (received_header (ct_authenticationHeader c),
      [ct_primarySignatureWithKey c, ct_primaryPubKeyAes c, ct_secondarySignatureWithKey c, ct_secondaryPubKeyAes c], True) \<and>
    fifo_readMessage True True (map Read_Bytes cs) h0 [[], [], [], []] = Inr (Some (received_header (ct_authenticationHeader c),
      [ct_primarySignatureWithKey c, ct_primaryPubKeyAes c, ct_secondarySignatureWithKey c, ct_secondaryPubKeyAes c], True))"
proof -
  obtain d1 where d: "CryptoPlPl_client (cl_cryptopp lib) auth (cr_dh cr) (cr_rsa cr) = Inr d1"
    "ct_secondarySignatureWithKey c = en_signatureWithPubKeySign d1" "ct_secondaryPubKeyAes c = en_encodedPubKeyAes d1"
    "ct_authenticationHeader c = authenticationHeader (ct_primarySignatureWithKey c) (ct_primaryPubKeyAes c)
       (ct_secondarySignatureWithKey c) (ct_secondaryPubKeyAes c)"
    by (rule Client_new_parts [OF client]) blast
  have cs': "concat cs = (serialize (ct_authenticationHeader c) @ ct_primarySignatureWithKey c @ ct_primaryPubKeyAes c @
      ct_secondarySignatureWithKey c @ ct_secondaryPubKeyAes c) @ ENDOFMESSAGE"
    using cs by (simp add: signature_bytes_def message_bytes_def)
  have sizes: "field1_size (ct_authenticationHeader c) = length (ct_primarySignatureWithKey c)"
    "field2_size (ct_authenticationHeader c) = length (ct_primaryPubKeyAes c)"
    "field3_size (ct_authenticationHeader c) = length (ct_secondarySignatureWithKey c)"
    "length (ct_secondaryPubKeyAes c) \<le> length (ct_secondarySignatureWithKey c)"
    using d(4) cryptopp_key_shorter [OF assms(1) d(1)] d(2,3) by (simp_all add: authenticationHeader_def)
  show ?thesis
    using tcp_readMessage_chunks [OF marked cs'] fifo_readMessage_chunks [OF marked cs']
      processMessage_four [OF wf sizes]
    by simp
qed

lemma status_taken:
  assumes "extractStatus h = status" and "clientId < 2 ^ 64"
    and "clientKeyExchange lib xr q2 q3 (c\<lparr>ct_header := h, ct_clientId := clientId, ct_status := status\<rparr>) =
      Inr (c\<lparr>ct_header := h, ct_clientId := clientId, ct_status := status, ct_encryptors := tu\<rparr>)"
  shows "\<exists>warning c'. take_status lib xr type (Inr (h, [toCharsBoost clientId False, q2, q3], True)) c =
    Inr (True, warning, c') \<and> ct_clientId c' = clientId \<and> ct_status c' = status \<and> ct_encryptors c' = tu"
  using assms by (simp add: take_status_def processStatus_def Let_def)

lemma client_handshake_aux:
  assumes libs: "sodium_ok (cl_sodium lib)" "cryptopp_ok (cl_cryptopp lib)" "length auth \<le> 32"
    and client: "Client_new CRYPTOSODIUM lib auth cr fresh = Inr c"
    and sent: "header_wf (ct_authenticationHeader c)"
      "unmarked (serialize (ct_authenticationHeader c) @ ct_primarySignatureWithKey c @ ct_primaryPubKeyAes c @
         ct_secondarySignatureWithKey c @ ct_secondaryPubKeyAes c)"
    and at: "client_at t" "server_at t'" and number: "clientId < 2 ^ 64" and cs: "concat cs = signature_bytes c"
  shows "\<exists>h p1 p2 p3 p4 se. tcp_readMessage cs h0 [[], [], [], []] = Inr (h, [p1, p2, p3, p4], True) \<and>
    fifo_readMessage True True (map Read_Bytes cs) h0 [[], [], [], []] = Inr (Some (h, [p1, p2, p3, p4], True)) \<and>
    extractHeaderType h = AUTHENTICATE \<and>
    Session_new CRYPTOSODIUM lib auth hr fresh' clientId p1 p2 p3 p4 = Inr se \<and>
    (\<forall>status s q1 q2 q3 cs2. statusToClient se status = (s, q1, q2, q3) \<longrightarrow> header_wf s \<longrightarrow>
       unmarked (serialize s @ q1 @ q2 @ q3) \<longrightarrow> concat cs2 = message_bytes s q1 q2 q3 [] \<longrightarrow>
       (\<exists>warning c'. tcp_receiveStatus lib xr cs2 (snd (sendSignatureCommon c)) = Inr (True, warning, c') \<and>
          ct_clientId c' = clientId \<and> ct_status c' = status \<and>
          tuple_peers t (ct_encryptors c') t' (se_encryptors se)) \<and>
       (\<exists>warning c'. fifo_receiveStatus lib xr dir True (map Read_Bytes cs2) (snd (sendSignatureCommon c)) =
            Inr (Some (True, warning, c')) \<and>
          ct_clientId c' = clientId \<and> ct_status c' = status \<and>
          tuple_peers t (ct_encryptors c') t' (se_encryptors se)))"
proof -
  let ?c1 = "snd (sendSignatureCommon c)"
  have parts: "ct_primaryCryptopp c = None" "ct_secondarySodium c = None" "ct_status c = ST_NONE"
    "ct_authenticationHeader c = authenticationHeader (ct_primarySignatureWithKey c) (ct_primaryPubKeyAes c)
       (ct_secondarySignatureWithKey c) (ct_secondaryPubKeyAes c)"
    by (rule Client_new_parts [OF client], simp)+
  obtain se e0 e1 where se: "Session_new CRYPTOSODIUM lib auth hr fresh' clientId (ct_primarySignatureWithKey c)
      (ct_primaryPubKeyAes c) (ct_secondarySignatureWithKey c) (ct_secondaryPubKeyAes c) = Inr se"
    "se_clientId se = clientId" "tu_sodium (se_encryptors se) = Some e0" "tu_cryptopp (se_encryptors se) = Some e1"
    "en_verifiedSignature e0" "en_verifiedSignature e1"
    and exchange: "\<And>(xr :: exchange_random) c1.
       tu_sodium (ct_encryptors c1) = map_option sodium_sendSignature (tu_sodium (ct_encryptors c)) \<Longrightarrow>
       tu_cryptopp (ct_encryptors c1) = map_option cryptopp_sendSignature (tu_cryptopp (ct_encryptors c)) \<Longrightarrow>
       ct_primaryCryptopp c1 = None \<Longrightarrow> ct_secondarySodium c1 = None \<Longrightarrow>
       \<exists>f0 f1. clientKeyExchange lib xr (se_primaryPubKeyAes se) (se_secondaryPubKeyAes se) c1 =
         Inr (c1\<lparr>ct_encryptors := (ct_encryptors c1)\<lparr>tu_sodium := Some f0, tu_cryptopp := Some f1\<rparr>\<rparr>) \<and>
         en_signatureSent f0 \<and> en_signatureSent f1 \<and>
         encryptor_key f0 = encryptor_key e0 \<and> encryptor_key f1 = encryptor_key e1"
    by (rule session_of_client [OF libs client, of hr fresh' clientId]) (rule that; assumption)
  have status: "\<exists>warning c'. take_status lib xr type (Inr (received_header s, [q1, q2, q3], True)) (?c1\<lparr>ct_fifoName := name\<rparr>) =
      Inr (True, warning, c') \<and> ct_clientId c' = clientId \<and> ct_status c' = status \<and>
      tuple_peers t (ct_encryptors c') t' (se_encryptors se)"
    if s: "statusToClient se status = (s, q1, q2, q3)" for status s q1 q2 q3 type name
  proof -
    let ?c2 = "?c1\<lparr>ct_fifoName := name\<rparr>"
    let ?c3 = "?c2\<lparr>ct_header := received_header s, ct_clientId := clientId, ct_status := status\<rparr>"
    have q: "q1 = toCharsBoost clientId False" "q2 = se_primaryPubKeyAes se" "q3 = se_secondaryPubKeyAes se"
      "extractStatus (received_header s) = status"
      using s se(2) by (auto simp: statusToClient_def keyExchangeHeader_def extractStatus_def received_header_def)
    obtain f0 f1 where f: "clientKeyExchange lib xr (se_primaryPubKeyAes se) (se_secondaryPubKeyAes se) ?c3 =
         Inr (?c3\<lparr>ct_encryptors := (ct_encryptors ?c3)\<lparr>tu_sodium := Some f0, tu_cryptopp := Some f1\<rparr>\<rparr>)"
      "en_signatureSent f0" "en_signatureSent f1" "encryptor_key f0 = encryptor_key e0" "encryptor_key f1 = encryptor_key e1"
      using exchange [of ?c3 xr] parts by (auto simp: sendSignatureCommon_def)
    have "tuple_peers t ((ct_encryptors ?c3)\<lparr>tu_sodium := Some f0, tu_cryptopp := Some f1\<rparr>) t' (se_encryptors se)"
      using f se(3-6) at by (simp add: tuple_peers_def may_use_terminal)
    moreover note status_taken [OF q(4) number, of lib xr q2 q3 ?c2 _ type]
    ultimately show ?thesis using f(1) q by fastforce
  qed
  have "(\<exists>warning c'. tcp_receiveStatus lib xr cs2 ?c1 = Inr (True, warning, c') \<and>
          ct_clientId c' = clientId \<and> ct_status c' = status \<and> tuple_peers t (ct_encryptors c') t' (se_encryptors se)) \<and>
       (\<exists>warning c'. fifo_receiveStatus lib xr dir True (map Read_Bytes cs2) ?c1 = Inr (Some (True, warning, c')) \<and>
          ct_clientId c' = clientId \<and> ct_status c' = status \<and> tuple_peers t (ct_encryptors c') t' (se_encryptors se))"
    if s: "statusToClient se status = (s, q1, q2, q3)" "header_wf s" "unmarked (serialize s @ q1 @ q2 @ q3)"
      "concat cs2 = message_bytes s q1 q2 q3 []" for status s q1 q2 q3 cs2
  proof -
    have sizes: "field1_size s = length q1" "field2_size s = length q2" "field3_size s = length q3"
      using s(1) by (auto simp: statusToClient_def keyExchangeHeader_def)
    have bytes: "concat cs2 = (serialize s @ q1 @ q2 @ q3) @ ENDOFMESSAGE" using s(4) by (simp add: message_bytes_def)
    have st: "ct_status ?c1 = ST_NONE" using parts(3) by (simp add: sendSignatureCommon_def)
    have tcp: "tcp_receiveStatus lib xr cs2 ?c1 = take_status lib xr ''tcp'' (Inr (received_header s, [q1, q2, q3], True)) ?c1"
      using st tcp_readMessage_chunks [OF s(3) bytes] processMessage_three [OF s(2) sizes]
      by (simp add: tcp_receiveStatus_def)
    have fifo: "fifo_receiveStatus lib xr dir True (map Read_Bytes cs2) ?c1 =
        bindE (take_status lib xr ''fifo'' (Inr (received_header s, [q1, q2, q3], True))
          (?c1\<lparr>ct_fifoName := ct_fifoName ?c1 @ dir @ ''/'' @ q1\<rparr>)) (\<lambda>r. Inr (Some r))"
      using st fifo_readMessage_chunks [OF s(3) bytes] processMessage_three [OF s(2) sizes]
      by (simp add: fifo_receiveStatus_def)
    show ?thesis
      unfolding tcp fifo
      using status [OF s(1), of "''tcp''" "ct_fifoName ?c1"]
        status [OF s(1), of "''fifo''" "ct_fifoName ?c1 @ dir @ ''/'' @ q1"]
      by auto
  qed
  moreover have "extractHeaderType (received_header (ct_authenticationHeader c)) = AUTHENTICATE"
    using parts(4) by (simp add: authenticationHeader_def received_header_def extractHeaderType_def)
  ultimately show ?thesis
    using signature_arrives [OF libs(2) client sent cs, of h0] se(1) by blast
qed

text \<open>
  C3: The handshake. What a client sends arrives over either transport, the acceptor's session accepts
  it, and the status message of the session gives the client its number and leaves both with
  encryptors that have the same keys and may be used.
\<close>

theorem client_handshake:
  assumes libs: "sodium_ok (cl_sodium lib)" "cryptopp_ok (cl_cryptopp lib)" "length auth \<le> 32"
    and client: "Client_new CRYPTOSODIUM lib auth cr fresh = Inr c"
    and sent: "header_wf (ct_authenticationHeader c)"
      "unmarked (serialize (ct_authenticationHeader c) @ ct_primarySignatureWithKey c @ ct_primaryPubKeyAes c @
         ct_secondarySignatureWithKey c @ ct_secondaryPubKeyAes c)"
    and at: "client_at t" "server_at t'" and number: "clientId < 2 ^ 64" and cs: "concat cs = signature_bytes c"
  shows "\<exists>h p1 p2 p3 p4 se. tcp_readMessage cs h0 [[], [], [], []] = Inr (h, [p1, p2, p3, p4], True) \<and>
    fifo_readMessage True True (map Read_Bytes cs) h0 [[], [], [], []] = Inr (Some (h, [p1, p2, p3, p4], True)) \<and>
    extractHeaderType h = AUTHENTICATE \<and>
    Session_new CRYPTOSODIUM lib auth hr fresh' clientId p1 p2 p3 p4 = Inr se \<and>
    (\<forall>status s q1 q2 q3 cs2. statusToClient se status = (s, q1, q2, q3) \<longrightarrow> header_wf s \<longrightarrow>
       unmarked (serialize s @ q1 @ q2 @ q3) \<longrightarrow> concat cs2 = message_bytes s q1 q2 q3 [] \<longrightarrow>
       (\<exists>warning c'. tcp_receiveStatus lib xr cs2 (snd (sendSignatureCommon c)) = Inr (True, warning, c') \<and>
          ct_clientId c' = clientId \<and> ct_status c' = status \<and>
          tuple_peers t (ct_encryptors c') t' (se_encryptors se)) \<and>
       (\<exists>warning c'. fifo_receiveStatus lib xr dir True (map Read_Bytes cs2) (snd (sendSignatureCommon c)) =
            Inr (Some (True, warning, c')) \<and>
          ct_clientId c' = clientId \<and> ct_status c' = status \<and>
          tuple_peers t (ct_encryptors c') t' (se_encryptors se)))"
  by (rule client_handshake_aux [OF assms])

subsection \<open>A subtask and its answer over TCP\<close>

lemma requests_of_lines:
  assumes "\<forall>x \<in> set xs. CHR 0x0A \<notin> set x"
  shows "requests_of (as_lines xs) = xs"
proof -
  have "rows_of (CHR 0x0A) False (as_lines xs) = xs \<and> count_list (as_lines xs) (CHR 0x0A) = length xs"
    using assms by (induction xs) (simp_all add: rows_of_line count_notin)
  then show ?thesis by (simp add: requests_of_def)
qed

lemma tcp_receive_reply:
  assumes "te_wait_read env" and "te_heartbeat env = None" and "header_wf h" and "field1_size h = length payload"
    and "unmarked (serialize h @ payload)" and "concat (te_chunks env) = message_bytes h payload [] [] []"
    and "payload \<noteq> []" and "shown \<noteq> []"
    and "message_in (co_doubleEncryption opts) lib t fresh (te_random env) (co_singleEncryptor opts) (te_buffer env)
      (ct_header c) payload (ct_encryptors c) = Inr (h', shown, tu)"
  shows "tcp_receive opts lib t fresh env c = Inr (True, shown,
    c\<lparr>ct_header := h', ct_response := shown, ct_encryptors := tu, ct_status := ST_NONE\<rparr>)"
proof -
  have "tcp_readMessage (te_chunks env) fresh [ct_response c] = Inr (received_header h, [payload], True)"
    using tcp_readMessage_chunks [OF assms(5)] processMessage_one [OF assms(3,4)] assms(6,7)
    by (simp add: message_bytes_def)
  then show ?thesis
    using assms(1,2,8,9) by (cases c) (simp add: tcp_receive_def printReply_def caught_def Let_def)
qed

text \<open>
  C1: One subtask all the way: what the builder sealed is sent by the client, goes through the handlers
  of the session and the controller, and the client prints the answers to the requests of the
  batch, in order. Both sides have matching encryptors again.
\<close>

theorem tcp_conversation:
  assumes libs: "crypto_libs_ok (tc_libs cfg)" "crypto_random_ok (rn k)" "crypto_random_ok rn'"
    and peers: "tuple_peers t tu (tc_terminals cfg) (se_encryptors (ts_session ts))" and opts: "opts_ok (tc_opts cfg)"
    and same: "co_doubleEncryption copts = so_doubleEncryption (tc_opts cfg)"
      "co_singleEncryptor copts = so_singleEncryptor (tc_opts cfg)"
    and idle: "se_status (ts_session ts) \<notin> {ST_INVALIDLOW, ST_INVALIDHIGH}" "se_request (ts_session ts) = []"
    and subtask: "seal_batches copts (tc_libs cfg) t rn buffer k status [as_lines b] tu = Inr ([s], tu2)"
      "\<forall>x \<in> set b. CHR 0x0A \<notin> set x" "length (as_lines b) < 2 ^ 64" "header_wf (subtaskHeader copts status 0)"
      "recognised (tc_fresh cfg) (co_doubleEncryption copts) (tc_libs cfg) t (rn k) (co_singleEncryptor copts) buffer
         (subtaskHeader copts status 0) (co_doEncrypt copts) defaultCompressionLevel (as_lines b) tu"
    and wire: "header_wf (sb_header s)" "unmarked (serialize (sb_header s) @ sb_data s)"
    and controller: "\<forall>task. batch task = (b, co_diagnostics copts = DIAG_ENABLED) \<longrightarrow>
         (\<exists>task'. controller task = Some task' \<and> served env task task')"
    and replies: "map (batch_answer env (co_diagnostics copts = DIAG_ENABLED)) b = map Inr replies"
      "concat replies \<noteq> []" "length (concat replies) < 10 ^ 10"
      "\<forall>tu3. tuple_peers t tu2 (tc_terminals cfg) tu3 \<longrightarrow> recognised (tc_fresh cfg)
         (so_doubleEncryption (tc_opts cfg)) (tc_libs cfg) (tc_terminals cfg)
         rn' (so_singleEncryptor (tc_opts cfg)) bs'
         (replyHeader (tc_opts cfg) (se_status (ts_session ts)) (length (concat replies)))
         (so_doEncrypt (tc_opts cfg)) (so_compressionLevel (tc_opts cfg)) (concat replies) tu3"
    and client: "ct_encryptors c = tu2"
      "te_wait_write e" "te_wait_read e" "te_heartbeat e = None"
  shows "\<exists>task se1 h payload se'. t_response task = replies \<and> se_task se1 = task \<and>
    h = replyHeader (tc_opts cfg) (se_status (ts_session ts)) (length payload) \<and>
    on_read cfg None (fst (tcp_send e s)) rs bs controller ts =
      Inr (post H_sendReply (ts\<lparr>ts_session := se1, ts_done := ts_done ts @ [task]\<rparr>)) \<and>
    sendReply cfg rn' bs' (ts\<lparr>ts_session := se1, ts_done := ts_done ts @ [task]\<rparr>) =
      Inr (post (H_write h payload) (asyncWait (ts\<lparr>ts_session := se', ts_done := ts_done ts @ [task]\<rparr>))) \<and>
    (header_wf h \<longrightarrow> unmarked (serialize h @ payload) \<longrightarrow> concat (te_chunks e) = message_bytes h payload [] [] [] \<longrightarrow>
       (\<exists>c'. tcp_turn copts (tc_libs cfg) t (tc_fresh cfg) e s c =
          Inr (Some (fst (tcp_send e s), concat replies, True, c')) \<and>
        tuple_peers t (ct_encryptors c') (tc_terminals cfg) (se_encryptors se')))"
proof -
  obtain msg where m: "message_out (co_doubleEncryption copts) (tc_libs cfg) t (rn k) (co_singleEncryptor copts) buffer
      (subtaskHeader copts status 0) (co_doEncrypt copts) defaultCompressionLevel (as_lines b) tu = Inr (msg, tu2)"
    "s = \<lparr>sb_data = msg, sb_header = subtaskHeader copts status (length msg)\<rparr>"
    using subtask(1) by (auto simp: bindE_Inr_iff)
  have diag: "isDiagnosticsEnabled (subtaskHeader copts status 0) = (co_diagnostics copts = DIAG_ENABLED)"
    by (simp add: isDiagnosticsEnabled_def extractDiagnostics_def subtaskHeader_def)
  note reqs = requests_of_lines [OF subtask(2)]
  have size: "field1_size (sb_header s) = length msg" using m(2) by (simp add: subtaskHeader_def)
  have sent: "tcp_send e s = (message_bytes (sb_header s) msg [] [] [], True)"
    using m(2) client(2) by (simp add: tcp_send_def tcp_sendMessage_def)
  let ?h = "\<lambda>payload. replyHeader (tc_opts cfg) (se_status (ts_session ts)) (length payload)"
  obtain task se1 payload se' where x0: "t_response task = replies" "se_task se1 = task" and x:
    "on_read cfg None (message_bytes (sb_header s) msg [] [] []) rs bs controller ts =
      Inr (post H_sendReply (ts\<lparr>ts_session := se1, ts_done := ts_done ts @ [task]\<rparr>))"
    "sendReply cfg rn' bs' (ts\<lparr>ts_session := se1, ts_done := ts_done ts @ [task]\<rparr>) =
      Inr (post (H_write (?h payload) payload) (asyncWait (ts\<lparr>ts_session := se', ts_done := ts_done ts @ [task]\<rparr>)))"
    "tuple_peers t tu2 (tc_terminals cfg) (se_encryptors se')"
    "\<forall>rn2 buffer2 h0. \<exists>h' tu4. message_in (so_doubleEncryption (tc_opts cfg)) (tc_libs cfg) t (tc_fresh cfg) rn2
       (so_singleEncryptor (tc_opts cfg)) buffer2 h0 payload tu2 = Inr (h', concat replies, tu4) \<and>
       tuple_peers t tu4 (tc_terminals cfg) (se_encryptors se')"
    using tcp_exchange_aux [of cfg "rn k" rn' t tu ts "subtaskHeader copts status 0" "as_lines b" buffer
        "co_doEncrypt copts" defaultCompressionLevel msg tu2 "sb_header s" controller env replies bs' rs bs]
      libs peers opts idle subtask(3,4) subtask(5) [unfolded same] m(1) [unfolded same] wire(1) size wire(2)
      m(2) controller replies reqs diag
    by auto
  have crypto: "so_singleEncryptor (tc_opts cfg) \<in> {CRYPTOSODIUM, CRYPTOPP}" using opts by (simp add: opts_ok_def)
  have "payload \<noteq> []"
    using message_in_nonempty [OF tuple_peers_sym [OF x(3)]] x(4) crypto by blast
  moreover obtain h' tu4 where o: "message_in (co_doubleEncryption copts) (tc_libs cfg) t (tc_fresh cfg) (te_random e)
      (co_singleEncryptor copts) (te_buffer e) (ct_header c) payload (ct_encryptors c) = Inr (h', concat replies, tu4)"
    "tuple_peers t tu4 (tc_terminals cfg) (se_encryptors se')"
    unfolding same client(1) using x(4) by blast
  moreover have "field1_size (?h payload) = length payload" by (simp add: replyHeader_def)
  ultimately have "tcp_turn copts (tc_libs cfg) t (tc_fresh cfg) e s c = Inr (Some (fst (tcp_send e s), concat replies, True,
      c\<lparr>ct_header := h', ct_response := concat replies, ct_encryptors := tu4, ct_status := ST_NONE\<rparr>))"
    if "header_wf (?h payload)" "unmarked (serialize (?h payload) @ payload)"
      "concat (te_chunks e) = message_bytes (?h payload) payload [] [] []"
    using tcp_receive_reply [OF client(3,4) that(1) _ that(2,3) _ replies(2) o(1)] sent
    by (simp add: tcp_turn_def)
  then show ?thesis
    using x0 x(1,2) o(2) sent by (intro exI [of _ task] exI [of _ se1] exI [of _ "?h payload"] exI [of _ payload] exI [of _ se']) auto
qed

subsection \<open>Witnesses\<close>

definition demo_client_random :: client_random where
  "demo_client_random = \<lparr>cr_kx = [1], cr_sign = [2], cr_dh = [3], cr_rsa = [4], cr_dh_primary = [5], cr_rsa_primary = [6]\<rparr>"

definition demo_exchange_random :: exchange_random where
  "demo_exchange_random = \<lparr>xr_sodium = [1], xr_cryptopp = [2], xr_secondary_sodium = [3], xr_primary_cryptopp = [4]\<rparr>"

definition demo_handshake_random :: handshake_random where
  "demo_handshake_random = \<lparr>hr_kx0 = [1], hr_sign0 = [2], hr_hide0 = [3], hr_kx1 = [4], hr_sign1 = [5], hr_hide1 = [6]\<rparr>"

definition demo_client :: "client result" where
  "demo_client = Client_new CRYPTOSODIUM demo_libs ''hello'' demo_client_random demo_header"

lemma demo_client_made:
  obtains c where "demo_client = Inr c" "header_wf (ct_authenticationHeader c)"
    "unmarked (serialize (ct_authenticationHeader c) @ ct_primarySignatureWithKey c @ ct_primaryPubKeyAes c @
       ct_secondarySignatureWithKey c @ ct_secondaryPubKeyAes c)"
proof -
  have "map_sum id (\<lambda>c. (ct_authenticationHeader c = authenticationHeader (replicate 96 nul) (replicate 32 nul)
       (replicate 256 nul) (replicate 65 nul),
     unmarked (serialize (ct_authenticationHeader c) @ ct_primarySignatureWithKey c @ ct_primaryPubKeyAes c @
       ct_secondarySignatureWithKey c @ ct_secondaryPubKeyAes c))) demo_client = Inr (True, True)"
    by code_simp
  then show ?thesis
    by (elim map_sum_InrE) (auto intro!: that simp: header_wf_def authenticationHeader_def)
qed

lemma client_at_demo: "client_at client_terminals" "server_at server_terminals"
  by (simp_all add: client_at_def server_at_def isTerminal_def client_terminals_def server_terminals_def)

lemma demo_session_status:
  assumes "demo_client = Inr c"
    and "Session_new CRYPTOSODIUM demo_libs ''hello'' demo_handshake_random demo_header 17 (ct_primarySignatureWithKey c)
      (ct_primaryPubKeyAes c) (ct_secondarySignatureWithKey c) (ct_secondaryPubKeyAes c) = Inr se"
  obtains s q1 q2 q3 where "statusToClient se ST_NONE = (s, q1, q2, q3)" "header_wf s"
    "unmarked (serialize s @ q1 @ q2 @ q3)"
proof -
  have "map_sum id (\<lambda>c. map_sum id (\<lambda>se. (case statusToClient se ST_NONE of (s, q1, q2, q3) \<Rightarrow>
      (s = \<lparr>header_type = DH_HANDSHAKE, field1_size = 2, field2_size = 32, header_compressor = COMPR_NONE,
        header_diagnostics = DIAG_NONE, header_status = ST_NONE, field3_size = 65, field4_size = 0\<rparr>,
       unmarked (serialize s @ q1 @ q2 @ q3))))
      (Session_new CRYPTOSODIUM demo_libs ''hello'' demo_handshake_random demo_header 17 (ct_primarySignatureWithKey c)
        (ct_primaryPubKeyAes c) (ct_secondarySignatureWithKey c) (ct_secondaryPubKeyAes c))) demo_client =
      Inr (Inr (True, True))"
    by code_simp
  then have "(case statusToClient se ST_NONE of (s, q1, q2, q3) \<Rightarrow>
      (s = \<lparr>header_type = DH_HANDSHAKE, field1_size = 2, field2_size = 32, header_compressor = COMPR_NONE,
        header_diagnostics = DIAG_NONE, header_status = ST_NONE, field3_size = 65, field4_size = 0\<rparr>,
       unmarked (serialize s @ q1 @ q2 @ q3))) = (True, True)"
    unfolding assms(1) map_sum.simps assms(2) by blast
  then show ?thesis
    by (cases "statusToClient se ST_NONE") (auto intro!: that simp: header_wf_def)
qed

lemma client_handshake_witness:
  "\<exists>c se p1 p2 p3 p4 q1 q2 q3 s warning c'. demo_client = Inr c \<and>
    tcp_readMessage [signature_bytes c] demo_header [[], [], [], []] =
      Inr (received_header (ct_authenticationHeader c), [p1, p2, p3, p4], True) \<and>
    Session_new CRYPTOSODIUM demo_libs ''hello'' demo_handshake_random demo_header 17 p1 p2 p3 p4 = Inr se \<and>
    statusToClient se ST_NONE = (s, q1, q2, q3) \<and>
    tcp_receiveStatus demo_libs demo_exchange_random [message_bytes s q1 q2 q3 []] (snd (sendSignatureCommon c)) =
      Inr (True, warning, c') \<and>
    ct_clientId c' = 17 \<and> tuple_peers client_terminals (ct_encryptors c') server_terminals (se_encryptors se)"
proof -
  obtain c where c: "demo_client = Inr c" "header_wf (ct_authenticationHeader c)"
    "unmarked (serialize (ct_authenticationHeader c) @ ct_primarySignatureWithKey c @ ct_primaryPubKeyAes c @
       ct_secondarySignatureWithKey c @ ct_secondaryPubKeyAes c)"
    by (rule demo_client_made)
  have libs: "sodium_ok (cl_sodium demo_libs)" "cryptopp_ok (cl_cryptopp demo_libs)"
    using demo_libs_ok by (simp_all add: crypto_libs_ok_def)
  have auth: "length ''hello'' \<le> 32" and number: "(17 :: nat) < 2 ^ 64" and
    cs: "concat [signature_bytes c] = signature_bytes c" by simp_all
  obtain h p1 p2 p3 p4 se where r: "tcp_readMessage [signature_bytes c] demo_header [[], [], [], []] =
      Inr (h, [p1, p2, p3, p4], True)"
    "Session_new CRYPTOSODIUM demo_libs ''hello'' demo_handshake_random demo_header 17 p1 p2 p3 p4 = Inr se"
    and st: "\<And>status s q1 q2 q3 cs2. statusToClient se status = (s, q1, q2, q3) \<Longrightarrow> header_wf s \<Longrightarrow>
       unmarked (serialize s @ q1 @ q2 @ q3) \<Longrightarrow> concat cs2 = message_bytes s q1 q2 q3 [] \<Longrightarrow>
       (\<exists>warning c'. tcp_receiveStatus demo_libs demo_exchange_random cs2 (snd (sendSignatureCommon c)) = Inr (True, warning, c') \<and>
          ct_clientId c' = 17 \<and> ct_status c' = status \<and>
          tuple_peers client_terminals (ct_encryptors c') server_terminals (se_encryptors se))"
    using client_handshake [OF libs auth c(1) [unfolded demo_client_def] c(2,3) client_at_demo number cs,
        of demo_header demo_handshake_random demo_header demo_exchange_random "[]"] by blast
  note arrives = signature_arrives [OF libs(2) c(1) [unfolded demo_client_def] c(2,3) cs, of demo_header]
  have p: "h = received_header (ct_authenticationHeader c)" "p1 = ct_primarySignatureWithKey c"
    "p2 = ct_primaryPubKeyAes c" "p3 = ct_secondarySignatureWithKey c" "p4 = ct_secondaryPubKeyAes c"
    using arrives r(1) by simp_all
  obtain s q1 q2 q3 where s: "statusToClient se ST_NONE = (s, q1, q2, q3)" "header_wf s"
    "unmarked (serialize s @ q1 @ q2 @ q3)"
    by (rule demo_session_status [OF c(1) r(2) [unfolded p(2-5)]])
  show ?thesis using c(1) r p(1) s(1) st [OF s, of "[message_bytes s q1 q2 q3 []]"] by auto
qed

text \<open>The reply of the session to the batch \<open>[0]x\<close>, and the client's turn that reads it.\<close>

definition demo_reply :: string where
  "demo_reply = (case message_out False demo_libs server_terminals demo_random CRYPTOSODIUM []
     (replyHeader demo_opts ST_NONE 2) False 3 (''x'' @ [CHR 0x0A]) (demo_tuple False) of
       Inr (payload, _) \<Rightarrow> payload | Inl _ \<Rightarrow> [])"

definition demo_turn_env :: tcp_turn_env where
  "demo_turn_env = \<lparr>te_wait_write = True, te_write_error = None, te_wait_read = True,
     te_chunks = [message_bytes (replyHeader demo_opts ST_NONE (length demo_reply)) demo_reply [] [] []],
     te_heartbeat = None, te_random = demo_random, te_buffer = []\<rparr>"

lemma demo_reply_facts:
  "header_wf (replyHeader demo_opts ST_NONE (length demo_reply))"
  "unmarked (serialize (replyHeader demo_opts ST_NONE (length demo_reply)) @ demo_reply)"
proof -
  have "length demo_reply = 79" by code_simp
  then show "header_wf (replyHeader demo_opts ST_NONE (length demo_reply))"
    by (simp add: header_wf_def replyHeader_def demo_opts_def)
  show "unmarked (serialize (replyHeader demo_opts ST_NONE (length demo_reply)) @ demo_reply)"
    by code_simp
qed

lemma demo_seal:
  obtains s tu2 where "seal_batches demo_client_opts demo_libs client_terminals (\<lambda>_. demo_random) [] 0 ST_NONE
      [as_lines [''[0]x'']] (demo_tuple True) = Inr ([s], tu2)"
    "header_wf (sb_header s)" "unmarked (serialize (sb_header s) @ sb_data s)"
proof -
  have "map_sum id (\<lambda>(ss, _). map (\<lambda>s. (sb_header s = subtaskHeader demo_client_opts ST_NONE 110,
      unmarked (serialize (sb_header s) @ sb_data s))) ss) (seal_batches demo_client_opts demo_libs client_terminals
      (\<lambda>_. demo_random) [] 0 ST_NONE [as_lines [''[0]x'']] (demo_tuple True)) = Inr [(True, True)]"
    by code_simp
  then show ?thesis
    by (elim map_sum_InrE) (auto simp: map_eq_Cons_conv header_wf_def subtaskHeader_def demo_client_opts_def intro: that)
qed

lemma sendReply_posts:
  assumes "sendReply cfg rn buffer ts = Inr (post (H_write h p) ts')" and "ts_posted ts = []"
  obtains se where "buildReply (tc_opts cfg) (tc_libs cfg) (tc_terminals cfg) rn buffer (ts_session ts) = Inr (h, p, se)"
proof -
  obtain h1 p1 se where b: "buildReply (tc_opts cfg) (tc_libs cfg) (tc_terminals cfg) rn buffer (ts_session ts) =
      Inr (h1, p1, se)"
    using assms(1) by (auto simp: sendReply_def bindE_Inr_iff)
  let ?ts = "post (H_write h p) ts'"
  have "(if p1 = [] then ts\<lparr>ts_session := se\<rparr> else post (H_write h1 p1) (asyncWait (ts\<lparr>ts_session := se\<rparr>))) = ?ts"
    using assms(1) b by (simp add: sendReply_def Let_def split: if_splits)
  then have "ts_posted (if p1 = [] then ts\<lparr>ts_session := se\<rparr>
      else post (H_write h1 p1) (asyncWait (ts\<lparr>ts_session := se\<rparr>))) = ts_posted ts' @ [H_write h p]"
    by (simp add: post_def)
  then have "h1 = h" "p1 = p"
    using assms(2) by (auto simp: post_def asyncWait_def append_eq_Cons_conv split: if_splits)
  then show ?thesis using b that by simp
qed

lemma demo_reply_built:
  assumes "buildReply demo_opts demo_libs server_terminals demo_random [] se =
      Inr (replyHeader demo_opts ST_NONE (length payload), payload, se')"
    and "t_response (se_task se) = [''x'' @ [CHR 0x0A]]"
  shows "payload = demo_reply"
proof -
  have st: "se_status se = ST_NONE"
    using assms(1) by (auto simp: buildReply_def bindE_Inr_iff Let_def replyHeader_def)
  have plain: "message_out False demo_libs server_terminals demo_random CRYPTOSODIUM [] h False 3 d tu =
      bindE (compress_data demo_libs h 3 [] d) (\<lambda>c. Inr (serialize h @ c, tu))" for h d tu
    by (simp add: message_out_def compressSingleEncrypt_def)
  have "so_doubleEncryption demo_opts = False" "so_singleEncryptor demo_opts = CRYPTOSODIUM"
    "so_doEncrypt demo_opts = False" "so_compressionLevel demo_opts = 3"
    by (simp_all add: demo_opts_def)
  then show ?thesis
    using assms st
    by (auto simp: buildReply_def demo_reply_def plain bindE_Inr_iff Let_def numeral_2_eq_2)
qed

lemma tcp_conversation_witness:
  "\<exists>s tu2 c c'. demo_client = Inr c \<and> seal_batches demo_client_opts demo_libs client_terminals (\<lambda>_. demo_random) [] 0
      ST_NONE [as_lines [''[0]x'']] (demo_tuple True) = Inr ([s], tu2) \<and>
    tcp_turn demo_client_opts demo_libs client_terminals demo_header demo_turn_env s (c\<lparr>ct_encryptors := tu2\<rparr>) =
      Inr (Some (message_bytes (sb_header s) (sb_data s) [] [] [], ''x'' @ [CHR 0x0A], True, c'))"
proof -
  let ?ts = "demo_reading\<lparr>ts_ops := []\<rparr>" and ?copts = demo_client_opts
  obtain c where c: "demo_client = Inr c" by (rule demo_client_made)
  obtain s tu2 where s: "seal_batches demo_client_opts demo_libs client_terminals (\<lambda>_. demo_random) [] 0 ST_NONE
      [as_lines [''[0]x'']] (demo_tuple True) = Inr ([s], tu2)"
    "header_wf (sb_header s)" "unmarked (serialize (sb_header s) @ sb_data s)"
    by (rule demo_seal)
  have opts: "so_doubleEncryption demo_opts = False" "so_singleEncryptor demo_opts = CRYPTOSODIUM"
    "so_doEncrypt demo_opts = False" "opts_ok demo_opts"
    by (simp_all add: demo_opts_def opts_ok_def)
  have copts: "co_doubleEncryption ?copts = False" "co_singleEncryptor ?copts = CRYPTOSODIUM"
    "co_diagnostics ?copts = DIAG_NONE"
    by (simp_all add: demo_client_opts_def)
  have cfg: "tc_opts demo_tcp = demo_opts" "tc_libs demo_tcp = demo_libs" "tc_terminals demo_tcp = server_terminals"
    "tc_fresh demo_tcp = demo_header"
    by (simp_all add: demo_tcp_def)
  have rec: "recognised demo_header False demo_libs client_terminals demo_random CRYPTOSODIUM []
      (subtaskHeader ?copts ST_NONE 0) (co_doEncrypt ?copts) defaultCompressionLevel (as_lines [''[0]x'']) (demo_tuple True)"
    by code_simp
  have ts: "se_status (ts_session ?ts) = ST_NONE" "se_request (ts_session ?ts) = []"
    "se_encryptors (ts_session ?ts) = demo_tuple False" "ts_posted ?ts = []"
    using demo_reading_fields demo_session_fields by simp_all
  have e: "te_wait_write demo_turn_env" "te_wait_read demo_turn_env" "te_heartbeat demo_turn_env = None"
    by (simp_all add: demo_turn_env_def)
  have wf: "header_wf (subtaskHeader ?copts ST_NONE 0)"
    by (simp add: header_wf_def subtaskHeader_def demo_client_opts_def)
  have len: "length (as_lines [''[0]x'']) < 2 ^ 64" by simp
  obtain task se1 h payload se' where x: "t_response task = [''x'' @ [CHR 0x0A]]" "se_task se1 = task"
    "h = replyHeader demo_opts ST_NONE (length payload)"
    "sendReply demo_tcp demo_random [] (?ts\<lparr>ts_session := se1, ts_done := ts_done ?ts @ [task]\<rparr>) =
      Inr (post (H_write h payload) (asyncWait (?ts\<lparr>ts_session := se', ts_done := ts_done ?ts @ [task]\<rparr>)))"
    and turn: "header_wf h \<Longrightarrow> unmarked (serialize h @ payload) \<Longrightarrow>
      concat (te_chunks demo_turn_env) = message_bytes h payload [] [] [] \<Longrightarrow>
      \<exists>c'. tcp_turn ?copts demo_libs client_terminals demo_header demo_turn_env s (c\<lparr>ct_encryptors := tu2\<rparr>) =
          Inr (Some (fst (tcp_send demo_turn_env s), concat [''x'' @ [CHR 0x0A]], True, c'))"
    using tcp_conversation [of demo_tcp "\<lambda>_. demo_random" 0 demo_random client_terminals "demo_tuple True" ?ts ?copts
        "[]" ST_NONE "[''[0]x'']" s tu2 demo_controller echo_env "[''x'' @ [CHR 0x0A]]" "[]" "c\<lparr>ct_encryptors := tu2\<rparr>"
        demo_turn_env demo_random "[]"]
      demo_libs_ok demo_random_ok demo_peers opts copts ts s wf len rec echo_answer echo_served e
    by (simp add: cfg demo_controller_def recognised_def [of _ _ _ _ _ _ _ _ False] del: as_lines_simps) blast
  obtain se2 where "buildReply demo_opts demo_libs server_terminals demo_random [] se1 = Inr (h, payload, se2)"
    by (rule sendReply_posts [OF x(4)]) (use ts(4) in \<open>simp_all add: cfg\<close>)
  then have p: "payload = demo_reply" using x(1-3) demo_reply_built by blast
  have "concat (te_chunks demo_turn_env) = message_bytes h payload [] [] []"
    using x(3) p by (simp add: demo_turn_env_def)
  then have "\<exists>c'. tcp_turn ?copts demo_libs client_terminals demo_header demo_turn_env s (c\<lparr>ct_encryptors := tu2\<rparr>) =
          Inr (Some (fst (tcp_send demo_turn_env s), concat [''x'' @ [CHR 0x0A]], True, c'))"
    using turn x(3) p demo_reply_facts by simp
  moreover have "fst (tcp_send demo_turn_env s) = message_bytes (sb_header s) (sb_data s) [] [] []"
    using e by (simp add: tcp_send_def tcp_sendMessage_def)
  ultimately show ?thesis using c s(1) by auto
qed

end
