(* ===== verification/Thread_Pool.thy ===== *)
theory Thread_Pool
  imports Headers
begin

section \<open>Thread pools (common/ThreadPoolBase, ThreadPoolSessions, Runnable)\<close>

text \<open>
  A pool runs objects on threads that it creates on demand, up to a maximum. The pool of the
  sessions also limits how many objects of a type run at once. The state holds the threads with
  what each is doing, the queue of the pushed objects, which are numbers here, the counter
  \<open>_totalNumberObjects\<close> that decides about new threads, the static counters of the running
  objects, and the objects themselves.

  A thread is idle (in \<open>get\<close>), has taken an object, runs it, or has returned; taking and
  running are apart because the counters are increased by the object's \<open>run\<close>.

  The locale \<open>pool_get\<close> states what the loop of a thread needs of the virtual function \<open>get\<close>;
  both pools interpret it.
\<close>

record runnable =
  rn_type :: nat
  rn_maxNumberRunningByType :: nat
  rn_stopped :: bool
  rn_status :: STATUS

datatype thread_pc = Idle | Taken nat | Running nat | Exited

record pool =
  p_threads :: "thread_pc list"
  p_queue :: "nat list"
  p_stopped :: bool
  p_totalNumberObjects :: nat
  p_maxSize :: nat
  p_objects :: "nat \<Rightarrow> runnable"
  p_runningByType :: "nat \<Rightarrow> nat"
  p_runningTotal :: nat
  p_finished :: "nat list"

definition MAX_NUMBER_THREADS_DEFAULT :: nat where
  "MAX_NUMBER_THREADS_DEFAULT = 1000"

definition pool_new :: "nat \<Rightarrow> (nat \<Rightarrow> runnable) \<Rightarrow> pool" where
  "pool_new maxSize objects =
     \<lparr>p_threads = [], p_queue = [], p_stopped = False, p_totalNumberObjects = 0,
      p_maxSize = maxSize, p_objects = objects, p_runningByType = (\<lambda>_. 0), p_runningTotal = 0,
      p_finished = []\<rparr>"

definition pool_size :: "pool \<Rightarrow> nat" where
  "pool_size p = length (p_threads p)"

definition set_status :: "nat \<Rightarrow> STATUS \<Rightarrow> pool \<Rightarrow> pool" where
  "set_status r st p = p\<lparr>p_objects := (p_objects p)(r := (p_objects p r)\<lparr>rn_status := st\<rparr>)\<rparr>"

definition createThread :: "pool \<Rightarrow> pool" where
  "createThread p = p\<lparr>p_threads := p_threads p @ [Idle]\<rparr>"

subsection \<open>push and get\<close>

definition base_push :: "nat \<Rightarrow> pool \<Rightarrow> pool \<times> STATUS" where
  "base_push r p =
     (if p_maxSize p \<le> pool_size p then (set_status r MAX_TOTAL_OBJECTS p, MAX_TOTAL_OBJECTS)
      else
        let p = p\<lparr>p_totalNumberObjects := p_totalNumberObjects p + 1\<rparr>;
            p = (if pool_size p < p_totalNumberObjects p then createThread p else p)
        in (p\<lparr>p_queue := p_queue p @ [r]\<rparr>, ST_NONE))"

fun take_first :: "(nat \<Rightarrow> bool) \<Rightarrow> nat list \<Rightarrow> (nat \<times> nat list) option" where
  "take_first ok [] = None"
| "take_first ok (r # rs) =
     (if ok r then Some (r, rs)
      else map_option (\<lambda>(x, xs). (x, r # xs)) (take_first ok rs))"

definition get_with :: "(nat \<Rightarrow> bool) \<Rightarrow> pool \<Rightarrow> pool \<times> nat option" where
  "get_with ok p =
     (if p_stopped p then (p, None)
      else case take_first ok (p_queue p) of
          None \<Rightarrow> (p, None)
        | Some (r, q) \<Rightarrow> (p\<lparr>p_queue := q\<rparr>, Some r))"

definition base_get :: "pool \<Rightarrow> pool \<times> nat option" where
  "base_get p =
     get_with (\<lambda>r. \<not> rn_stopped (p_objects p r) \<and> p_totalNumberObjects p < p_maxSize p) p"

definition getNumberRunningByType :: "pool \<Rightarrow> nat \<Rightarrow> nat" where
  "getNumberRunningByType p r = p_runningByType p (rn_type (p_objects p r))"

definition below_type_limit :: "pool \<Rightarrow> nat \<Rightarrow> bool" where
  "below_type_limit p r =
     (getNumberRunningByType p r < rn_maxNumberRunningByType (p_objects p r))"

definition sessions_get :: "pool \<Rightarrow> pool \<times> nat option" where
  "sessions_get p = get_with (\<lambda>r. below_type_limit p r \<and> \<not> rn_stopped (p_objects p r)) p"

definition calculateStatus :: "nat \<Rightarrow> pool \<Rightarrow> pool" where
  "calculateStatus r p =
     (let p = p\<lparr>p_totalNumberObjects := p_totalNumberObjects p + 1\<rparr>;
          condition1 = pool_size p < p_totalNumberObjects p;
          condition2 = below_type_limit p r
      in if condition1 \<and> condition2 \<and> pool_size p < p_maxSize p then createThread p
         else if \<not> condition2 then set_status r MAX_OBJECTS_OF_TYPE p
         else if p_maxSize p \<le> p_runningTotal p then set_status r MAX_TOTAL_OBJECTS p
         else p)"

definition sessions_push :: "nat \<Rightarrow> pool \<Rightarrow> pool \<times> STATUS" where
  "sessions_push r p = (p\<lparr>p_queue := p_queue p @ [r]\<rparr>, rn_status (p_objects p r))"

subsection \<open>The loop of a thread\<close>

definition set_thread :: "nat \<Rightarrow> thread_pc \<Rightarrow> pool \<Rightarrow> pool" where
  "set_thread i pc p = p\<lparr>p_threads := (p_threads p)[i := pc]\<rparr>"

text \<open>\<open>Finally\<close>: at the end of every turn of the loop, with or without an object.\<close>

definition Finally :: "pool \<Rightarrow> pool" where
  "Finally p = p\<lparr>p_totalNumberObjects := p_totalNumberObjects p - 1\<rparr>"

text \<open>
  \<open>get\<close> returns when the queue is not empty or the pool is stopped; without an object the turn
  ends at once.
\<close>

definition thread_get :: "(pool \<Rightarrow> pool \<times> nat option) \<Rightarrow> nat \<Rightarrow> pool \<Rightarrow> pool option" where
  "thread_get get i p =
     (if p_queue p = [] \<and> \<not> p_stopped p then None
      else case get p of
          (p, Some r) \<Rightarrow> Some (set_thread i (Taken r) p)
        | (p, None) \<Rightarrow> Some (set_thread i (if p_stopped p then Exited else Idle) (Finally p)))"

text \<open>\<open>CountRunning\<close>, at the start and at the end of the object's \<open>run\<close>.\<close>

definition count_up :: "nat \<Rightarrow> pool \<Rightarrow> pool" where
  "count_up r p =
     (let t = rn_type (p_objects p r) in
      p\<lparr>p_runningByType := (p_runningByType p)(t := p_runningByType p t + 1),
        p_runningTotal := p_runningTotal p + 1\<rparr>)"

definition count_down :: "nat \<Rightarrow> pool \<Rightarrow> pool" where
  "count_down r p =
     (let t = rn_type (p_objects p r) in
      p\<lparr>p_runningByType := (p_runningByType p)(t := p_runningByType p t - 1),
        p_runningTotal := p_runningTotal p - 1\<rparr>)"

definition thread_step :: "(pool \<Rightarrow> pool \<times> nat option) \<Rightarrow> nat \<Rightarrow> pool \<Rightarrow> pool option" where
  "thread_step get i p =
     (case p_threads p ! i of
        Idle \<Rightarrow> thread_get get i p
      | Taken r \<Rightarrow> Some (set_thread i (Running r) (count_up r p))
      | Running r \<Rightarrow>
          (let p = Finally (count_down r p) in
           Some (set_thread i (if p_stopped p then Exited else Idle)
             (p\<lparr>p_finished := p_finished p @ [r]\<rparr>)))
      | Exited \<Rightarrow> None)"

text \<open>
  \<open>stop\<close> makes the threads return, joins them and empties the queue: the second part is
  possible when all of them have returned.
\<close>

definition pool_stop :: "pool \<Rightarrow> pool" where
  "pool_stop p = p\<lparr>p_stopped := True\<rparr>"

definition pool_join :: "pool \<Rightarrow> pool option" where
  "pool_join p =
     (if p_stopped p \<and> (\<forall>t \<in> set (p_threads p). t = Exited) then Some (p\<lparr>p_threads := [], p_queue := []\<rparr>)
      else None)"

text \<open>
  The pool of the sessions: the server adds a session (under its mutex), a thread steps, a
  session is stopped.
\<close>

inductive pool_step :: "pool \<Rightarrow> nat list \<Rightarrow> pool \<Rightarrow> nat list \<Rightarrow> bool" where
  add: "pool_step p pushed (fst (sessions_push r (calculateStatus r p))) (pushed @ [r])"
| thread: "i < length (p_threads p) \<Longrightarrow> thread_step sessions_get i p = Some p' \<Longrightarrow>
    pool_step p pushed p' pushed"
| stop_object: "pool_step p pushed
    (p\<lparr>p_objects := (p_objects p)(r := (p_objects p r)\<lparr>rn_stopped := True\<rparr>)\<rparr>) pushed"
| stop: "pool_step p pushed (pool_stop p) pushed"

inductive pool_reach :: "nat \<Rightarrow> (nat \<Rightarrow> runnable) \<Rightarrow> pool \<Rightarrow> nat list \<Rightarrow> bool" for n objs where
  start: "pool_reach n objs (pool_new n objs) []"
| step: "pool_reach n objs p pushed \<Longrightarrow> pool_step p pushed p' pushed' \<Longrightarrow> pool_reach n objs p' pushed'"

inductive_cases pool_stepE: "pool_step p pushed p' pushed'"

subsection \<open>What get does\<close>

lemma take_first_Some:
  "take_first ok q = Some (r, q') \<Longrightarrow>
   \<exists>a b. q = a @ r # b \<and> q' = a @ b \<and> ok r \<and> (\<forall>x \<in> set a. \<not> ok x)"
proof (induction q arbitrary: q')
  case (Cons x q)
  show ?case
  proof (cases "ok x")
    case True
    then show ?thesis using Cons.prems by (intro exI [of _ "[]"] exI [of _ q]) auto
  next
    case False
    then obtain q'' where q'': "take_first ok q = Some (r, q'')" "q' = x # q''"
      using Cons.prems by auto
    then obtain a b where "q = a @ r # b" "q'' = a @ b" "ok r" "\<forall>x \<in> set a. \<not> ok x"
      using Cons.IH by blast
    then show ?thesis using q'' False by (intro exI [of _ "x # a"] exI [of _ b]) auto
  qed
qed simp

lemma take_first_None: "take_first ok q = None \<longleftrightarrow> (\<forall>x \<in> set q. \<not> ok x)"
  by (induction q) auto

text \<open>The loop of a thread hands every pushed object to at most one thread.\<close>

definition held :: "thread_pc \<Rightarrow> nat list" where
  "held pc = (case pc of Taken r \<Rightarrow> [r] | Running r \<Rightarrow> [r] | _ \<Rightarrow> [])"

definition in_pool :: "pool \<Rightarrow> nat multiset" where
  "in_pool p = mset (p_queue p) + mset (concat (map held (p_threads p))) + mset (p_finished p)"

locale pool_get =
  fixes get :: "pool \<Rightarrow> pool \<times> nat option"
  assumes get_Some: "get p = (p', Some r) \<Longrightarrow> \<not> p_stopped p \<and>
      (\<exists>q. p' = p\<lparr>p_queue := q\<rparr> \<and> mset (p_queue p) = add_mset r (mset q))"
    and get_None: "get p = (p', None) \<Longrightarrow> p' = p"
begin

lemma held_update:
  assumes "i < length ts"
  shows "mset (concat (map held (ts[i := pc]))) + mset (held (ts ! i)) =
    mset (concat (map held ts)) + mset (held pc)"
proof -
  have "ts = take i ts @ ts ! i # drop (Suc i) ts" using assms by (rule id_take_nth_drop)
  then have 1: "mset (concat (map held ts)) = mset (concat (map held (take i ts))) +
      (mset (held (ts ! i)) + mset (concat (map held (drop (Suc i) ts))))"
    by (metis concat.simps(2) concat_append list.simps(9) map_append mset_append)
  show ?thesis unfolding 1 using assms by (simp add: upd_conv_take_nth_drop)
qed

lemma thread_step_in_pool:
  assumes "i < length (p_threads p)" and "thread_step get i p = Some p'"
  shows "in_pool p' = in_pool p" and "length (p_threads p') = length (p_threads p)"
    and "p_maxSize p' = p_maxSize p"
proof -
  have "in_pool p' = in_pool p \<and> length (p_threads p') = length (p_threads p) \<and> p_maxSize p' = p_maxSize p"
  proof (cases "p_threads p ! i")
    case Idle
    then have g: "thread_get get i p = Some p'" using assms(2) by (simp add: thread_step_def)
    show ?thesis
    proof (cases "get p")
      case (Pair p1 x)
      show ?thesis
      proof (cases x)
        case None
        then have p1: "p1 = p" using get_None Pair by simp
        then have "p' = set_thread i (if p_stopped p then Exited else Idle) (Finally p)"
          using g Pair None by (simp add: thread_get_def split: if_splits)
        then show ?thesis
          using held_update [OF assms(1), of "if p_stopped p then Exited else Idle"] Idle
          by (auto simp: in_pool_def set_thread_def Finally_def held_def split: if_splits)
      next
        case (Some r)
        obtain q where q: "p1 = p\<lparr>p_queue := q\<rparr>" "mset (p_queue p) = add_mset r (mset q)"
          using get_Some Pair Some by blast
        then have "p' = set_thread i (Taken r) (p\<lparr>p_queue := q\<rparr>)"
          using g Pair Some by (simp add: thread_get_def split: if_splits)
        then show ?thesis
          using held_update [OF assms(1), of "Taken r"] Idle q(2)
          by (simp add: in_pool_def set_thread_def held_def)
      qed
    qed
  next
    case (Taken r)
    then show ?thesis
      using assms held_update [OF assms(1), of "Running r"]
      by (auto simp: thread_step_def in_pool_def set_thread_def count_up_def held_def Let_def)
  next
    case (Running r)
    then show ?thesis
      using assms held_update [OF assms(1), of Idle] held_update [OF assms(1), of Exited]
      by (auto simp: thread_step_def in_pool_def set_thread_def count_down_def Finally_def held_def
          Let_def)
  next
    case Exited
    then show ?thesis using assms(2) by (simp add: thread_step_def)
  qed
  then show "in_pool p' = in_pool p" "length (p_threads p') = length (p_threads p)"
    "p_maxSize p' = p_maxSize p" by simp_all
qed

end

lemma get_with_Some:
  "get_with ok p = (p', Some r) \<Longrightarrow> \<not> p_stopped p \<and>
     (\<exists>q. p' = p\<lparr>p_queue := q\<rparr> \<and> mset (p_queue p) = add_mset r (mset q))"
  by (auto simp: get_with_def dest!: take_first_Some split: if_splits option.splits)

lemma get_with_None: "get_with ok p = (p', None) \<Longrightarrow> p' = p"
  by (auto simp: get_with_def split: if_splits option.splits)

interpretation base_pool: pool_get base_get
  by unfold_locales (simp_all add: base_get_def get_with_Some get_with_None)

interpretation sessions_pool: pool_get sessions_get
  by unfold_locales (simp_all add: sessions_get_def get_with_Some get_with_None)

subsection \<open>The pool of the sessions\<close>

lemma calculateStatus_fields:
  "p_queue (calculateStatus r p) = p_queue p" "p_maxSize (calculateStatus r p) = p_maxSize p"
  "p_finished (calculateStatus r p) = p_finished p"
  "concat (map held (p_threads (calculateStatus r p))) = concat (map held (p_threads p))"
  "pool_size p \<le> p_maxSize p \<Longrightarrow> pool_size (calculateStatus r p) \<le> p_maxSize p"
  by (simp_all add: calculateStatus_def createThread_def set_status_def pool_size_def held_def Let_def)

lemma pool_step_inv:
  assumes "pool_step p pushed p' pushed'" and "in_pool p = mset pushed \<and> pool_size p \<le> p_maxSize p"
  shows "in_pool p' = mset pushed' \<and> pool_size p' \<le> p_maxSize p' \<and> p_maxSize p' = p_maxSize p"
  using assms
proof (induction rule: pool_step.induct)
  case add
  then show ?case
    using calculateStatus_fields by (simp add: in_pool_def sessions_push_def pool_size_def)
next
  case (thread i p p' pushed)
  then show ?case
    using sessions_pool.thread_step_in_pool [OF thread(1,2)] by (simp add: pool_size_def)
qed (simp_all add: in_pool_def pool_stop_def pool_size_def)


text \<open>
  A thread gets the oldest object that may run.
\<close>

theorem sessions_get_oldest:
  assumes "\<not> p_stopped p" and "sessions_get p = (p', Some r)"
  shows "\<exists>a b. p_queue p = a @ r # b \<and> p_queue p' = a @ b \<and>
    below_type_limit p r \<and> \<not> rn_stopped (p_objects p r) \<and>
    (\<forall>x \<in> set a. \<not> below_type_limit p x \<or> rn_stopped (p_objects p x))"
proof -
  obtain q where q: "take_first (\<lambda>r. below_type_limit p r \<and> \<not> rn_stopped (p_objects p r)) (p_queue p) = Some (r, q)"
    "p' = p\<lparr>p_queue := q\<rparr>"
    using assms by (auto simp: sessions_get_def get_with_def split: option.splits)
  then show ?thesis using take_first_Some [OF q(1)] by fastforce
qed

text \<open>The base pool never has more threads than allowed and rejects what it has no thread for.\<close>

theorem base_push_bound:
  assumes "pool_size p \<le> p_maxSize p" and "base_push r p = (p', st)"
  shows "pool_size p' \<le> p_maxSize p' \<and> (st = ST_NONE \<longleftrightarrow> pool_size p < p_maxSize p) \<and>
    (st = ST_NONE \<longrightarrow> p_queue p' = p_queue p @ [r]) \<and>
    (st \<noteq> ST_NONE \<longrightarrow> st = MAX_TOTAL_OBJECTS \<and> rn_status (p_objects p' r) = st \<and> p_queue p' = p_queue p)"
  using assms
  by (auto simp: base_push_def pool_size_def set_status_def createThread_def Let_def split: if_splits)

subsection \<open>Two ways in which the counters are not exact\<close>

text \<open>Steps of the threads of a list, one after the other.\<close>

fun run_threads :: "nat list \<Rightarrow> pool \<Rightarrow> pool" where
  "run_threads [] p = p"
| "run_threads (i # is) p =
     (case thread_step sessions_get i p of None \<Rightarrow> p | Some p' \<Rightarrow> run_threads is p')"

definition add_object :: "nat \<Rightarrow> pool \<Rightarrow> pool" where
  "add_object r p = fst (sessions_push r (calculateStatus r p))"

lemma run_threads_reach:
  "pool_reach n objs p pushed \<Longrightarrow> \<forall>i \<in> set is. i < length (p_threads p) \<Longrightarrow>
   pool_reach n objs (run_threads is p) pushed"
proof (induction "is" arbitrary: p)
  case (Cons i "is")
  show ?case
  proof (cases "thread_step sessions_get i p")
    case (Some p')
    have "pool_reach n objs p' pushed"
      using Cons.prems Some by (auto intro: pool_reach.step pool_step.thread)
    moreover have "length (p_threads p') = length (p_threads p)"
      using sessions_pool.thread_step_in_pool(2) [OF _ Some] Cons.prems(2) by simp
    ultimately show ?thesis using Cons Some by simp
  qed (use Cons.prems in simp)
qed simp

lemma add_object_reach:
  "pool_reach n objs p pushed \<Longrightarrow> pool_reach n objs (add_object r p) (pushed @ [r])"
  unfolding add_object_def using pool_reach.step pool_step.add by blast

lemmas pool_eval = pool_new_def add_object_def sessions_push_def calculateStatus_def createThread_def
  below_type_limit_def getNumberRunningByType_def set_status_def pool_size_def thread_step_def thread_get_def
  sessions_get_def get_with_def set_thread_def Finally_def count_up_def count_down_def Let_def

text \<open>
  The limit of a type is checked when an object is taken and counted when it starts: two threads
  that take before either starts exceed it.
\<close>

theorem type_limit_race:
  "\<exists>objs p pushed. pool_reach 2 objs p pushed \<and> (\<forall>r. rn_maxNumberRunningByType (objs r) = 1) \<and>
     p_runningByType p 0 = 2"
proof -
  let ?objs = "\<lambda>_ :: nat. \<lparr>rn_type = 0, rn_maxNumberRunningByType = 1, rn_stopped = False, rn_status = ST_NONE\<rparr>"
  let ?p = "add_object 1 (add_object 0 (pool_new 2 ?objs))"
  have "pool_reach 2 ?objs ?p (([] @ [0]) @ [1])"
    by (rule add_object_reach [OF add_object_reach [OF pool_reach.start]])
  then have "pool_reach 2 ?objs (run_threads [0, 1, 0, 1] ?p) (([] @ [0]) @ [1])"
    by (rule run_threads_reach) (simp add: pool_eval)
  moreover have "p_runningByType (run_threads [0, 1, 0, 1] ?p) 0 = 2"
    by (simp add: pool_eval)
  ultimately show ?thesis by fastforce
qed

text \<open>
  A turn of the loop without an object decreases the counter of the objects, too. Here an idle
  thread sees only an object that is over its limit, counts down to zero, and when the next two
  allowed objects come no thread is created for the second: it waits, with the status of an
  object that runs, although the pool could have another thread.
\<close>

definition idle_objs :: "nat \<Rightarrow> runnable" where
  "idle_objs r = \<lparr>rn_type = (if r = 1 \<or> r = 2 then 1 else 0),
     rn_maxNumberRunningByType = (if r = 1 \<or> r = 2 then 1 else 10), rn_stopped = False,
     rn_status = ST_NONE\<rparr>"

theorem idle_turn_starves:
  "\<exists>p pushed. pool_reach 3 idle_objs p pushed \<and> 4 \<in> set (p_queue p) \<and>
     rn_status (p_objects p 4) = ST_NONE \<and> below_type_limit p 4 \<and> pool_size p < p_maxSize p \<and>
     (\<forall>t \<in> set (p_threads p). \<exists>r. t = Running r)"
proof -
  define a where "a = run_threads [0, 0] (add_object 0 (pool_new 3 idle_objs))"
  define b where "b = run_threads [1, 1] (add_object 1 a)"
  define c where "c = run_threads [0, 0, 0] (add_object 2 b)"
  define d where "d = run_threads [0, 0] (add_object 3 c)"
  define e where "e = add_object 4 d"
  have a: "length (p_threads (add_object 0 (pool_new 3 idle_objs))) = 1"
    by (simp add: pool_eval idle_objs_def)
  have b: "length (p_threads (add_object 1 a)) = 2"
    by (simp add: a_def pool_eval idle_objs_def)
  have c: "length (p_threads (add_object 2 b)) = 2"
    by (simp add: b_def a_def pool_eval idle_objs_def)
  have d: "length (p_threads (add_object 3 c)) = 2"
    by (simp add: c_def b_def a_def pool_eval idle_objs_def)
  have "pool_reach 3 idle_objs a ([] @ [0])"
    unfolding a_def by (rule run_threads_reach [OF add_object_reach [OF pool_reach.start]]) (simp add: a del: One_nat_def)
  then have "pool_reach 3 idle_objs b (([] @ [0]) @ [1])"
    unfolding b_def by (rule run_threads_reach [OF add_object_reach]) (simp add: b del: One_nat_def)
  then have "pool_reach 3 idle_objs c ((([] @ [0]) @ [1]) @ [2])"
    unfolding c_def by (rule run_threads_reach [OF add_object_reach]) (simp add: c del: One_nat_def)
  then have "pool_reach 3 idle_objs d (((([] @ [0]) @ [1]) @ [2]) @ [3])"
    unfolding d_def by (rule run_threads_reach [OF add_object_reach]) (simp add: d del: One_nat_def)
  then have "pool_reach 3 idle_objs e ((((([] @ [0]) @ [1]) @ [2]) @ [3]) @ [4])"
    unfolding e_def by (rule add_object_reach)
  moreover have "p_queue e = [2, 4]" "rn_status (p_objects e 4) = ST_NONE" "below_type_limit e 4"
    "pool_size e < p_maxSize e" "p_threads e = [Running 3, Running 1]"
    by (simp_all add: e_def d_def c_def b_def a_def pool_eval idle_objs_def)
  ultimately show ?thesis by fastforce
qed

subsection \<open>Witnesses\<close>

definition demo_pool :: pool where
  "demo_pool = add_object 2 (add_object 1 (add_object 0 (pool_new 2 idle_objs)))"

lemma demo_pool_reach: "pool_reach 2 idle_objs demo_pool ((([] @ [0]) @ [1]) @ [2])"
  unfolding demo_pool_def
  by (rule add_object_reach [OF add_object_reach [OF add_object_reach [OF pool_reach.start]]])


lemma sessions_get_oldest_witness:
  "\<exists>p' a b. sessions_get demo_pool = (p', Some 0) \<and> p_queue demo_pool = a @ 0 # b \<and> p_queue p' = a @ b"
proof -
  have "\<not> p_stopped demo_pool" "snd (sessions_get demo_pool) = Some 0"
    by (simp_all add: demo_pool_def pool_eval idle_objs_def)
  then show ?thesis using sessions_get_oldest [of demo_pool _ 0] by (metis prod.collapse)
qed

lemma base_push_bound_witness:
  "pool_size (fst (base_push 3 demo_pool)) \<le> 2 \<and> snd (base_push 3 demo_pool) = MAX_TOTAL_OBJECTS \<and>
   p_queue (fst (base_push 3 demo_pool)) = [0, 1, 2]"
proof -
  have p: "pool_size demo_pool = 2" "p_maxSize demo_pool = 2" "p_queue demo_pool = [0, 1, 2]"
    "p_maxSize (fst (base_push 3 demo_pool)) = 2"
    by (simp_all add: demo_pool_def pool_eval idle_objs_def base_push_def)
  show ?thesis
    using base_push_bound [of demo_pool 3 "fst (base_push 3 demo_pool)" "snd (base_push 3 demo_pool)"] p by auto
qed

end
