(* ===== verification/Servers.thy ===== *)
theory Servers
  imports Clients Thread_Pool
begin

section \<open>The server and its acceptors (Server, FifoAcceptor, TcpAcceptor)\<close>

text \<open>
  An acceptor reads the first message of a client; the server makes a session from its four
  strings, which authenticates the client and tells it its number and the session's keys, and
  gives the session to the pool of the sessions. The acceptor of TCP also answers heartbeats.

  The state of the server is the map of its sessions, the pool with the sessions under their
  numbers, the counter behind \<open>getUniqueId\<close> and, to state what clients see, the status messages.
\<close>

subsection \<open>Server\<close>

datatype session_kind = Tcp_Kind | Fifo_Kind

record server_config =
  sc_primary :: CRYPTO
  sc_libs :: crypto_libs
  sc_auth :: string
  sc_fresh :: HEADER
  sc_random :: "nat \<Rightarrow> handshake_random"
  sc_maxTotalSessions :: nat
  sc_maxTcpSessions :: nat
  sc_maxFifoSessions :: nat

record server =
  sv_sessions :: "nat \<rightharpoonup> session"
  sv_pool :: pool
  sv_nextId :: "64 word"
  sv_sent :: "(nat \<times> (HEADER \<times> string \<times> string \<times> string)) list"

definition session_object :: "server_config \<Rightarrow> session_kind \<Rightarrow> runnable" where
  "session_object cfg kind =
     (case kind of
        Tcp_Kind \<Rightarrow> \<lparr>rn_type = 0, rn_maxNumberRunningByType = sc_maxTcpSessions cfg, rn_stopped = False,
          rn_status = ST_NONE\<rparr>
      | Fifo_Kind \<Rightarrow> \<lparr>rn_type = 1, rn_maxNumberRunningByType = sc_maxFifoSessions cfg, rn_stopped = False,
          rn_status = ST_NONE\<rparr>)"

definition Server_new :: "server_config \<Rightarrow> server" where
  "Server_new cfg = \<lparr>sv_sessions = Map.empty,
     sv_pool = pool_new (sc_maxTotalSessions cfg) (\<lambda>_. session_object cfg Tcp_Kind),
     sv_nextId = 0, sv_sent = []\<rparr>"

definition getUniqueId :: "server \<Rightarrow> nat \<times> server" where
  "getUniqueId sv = (unat (sv_nextId sv), sv\<lparr>sv_nextId := sv_nextId sv + 1\<rparr>)"

text \<open>\<open>startSession\<close>; what \<open>start\<close> of the session returns is not looked at.\<close>

definition startSession :: "server_config \<Rightarrow> session_kind \<Rightarrow> session \<Rightarrow> server \<Rightarrow> server \<times> bool" where
  "startSession cfg kind se sv =
     (let clientId = se_clientId se in
      if sv_sessions sv clientId \<noteq> None then (sv, False)
      else
        let pool = (sv_pool sv)\<lparr>p_objects := (p_objects (sv_pool sv))(clientId := session_object cfg kind)\<rparr>;
            pool = calculateStatus clientId pool
        in (sv\<lparr>sv_sessions := (sv_sessions sv)(clientId \<mapsto> se), sv_pool := fst (sessions_push clientId pool)\<rparr>, True))"

text \<open>
  \<open>createFifoSession\<close> and \<open>createTcpSession\<close>: the session's constructor sends the status; what it
  throws leaves the function.
\<close>

definition createSession ::
  "server_config \<Rightarrow> session_kind \<Rightarrow> string \<Rightarrow> string \<Rightarrow> string \<Rightarrow> string \<Rightarrow> server \<Rightarrow> server \<times> exn option" where
  "createSession cfg kind primarySignatureWithKey primaryPubKeyAes secondarySignatureWithKey secondaryPubKeyAes sv =
     (let (clientId, sv) = getUniqueId sv in
      case Session_new (sc_primary cfg) (sc_libs cfg) (sc_auth cfg) (sc_random cfg clientId) (sc_fresh cfg) clientId
             primarySignatureWithKey primaryPubKeyAes secondarySignatureWithKey secondaryPubKeyAes of
        Inl e \<Rightarrow> (sv, Some e)
      | Inr se \<Rightarrow>
          (fst (startSession cfg kind se
             (sv\<lparr>sv_sent := sv_sent sv @ [(clientId, statusToClient se (se_status se))]\<rparr>)), None))"

text \<open>All sessions are marked before any of them is stopped.\<close>

definition stopSessions :: "server \<Rightarrow> server" where
  "stopSessions sv =
     sv\<lparr>sv_pool := (sv_pool sv)\<lparr>p_objects := (\<lambda>r.
       if sv_sessions sv r \<noteq> None then (p_objects (sv_pool sv) r)\<lparr>rn_stopped := True\<rparr>
       else p_objects (sv_pool sv) r)\<rparr>\<rparr>"

text \<open>
  \<open>start\<close>: the flags say whether the task controller and the two acceptors could be started; the
  result is the environment of the policy if everything was, and how far it came.
\<close>

definition server_start ::
  "POLICYENUM \<Rightarrow> bool \<Rightarrow> string \<Rightarrow> string \<Rightarrow> bool \<Rightarrow> bool \<Rightarrow> bool \<Rightarrow> (bool \<times> server_env) result" where
  "server_start policyEnum useRegex array adsFile controller tcp fifo =
     bindE (setPolicy policyEnum useRegex array adsFile) (\<lambda>env.
       if \<not> controller then Inr (False, env)
       else if \<not> tcp then Inr (False, env)
       else if \<not> fifo then Inr (False, env)
       else Inr (True, env))"

text \<open>
  \<open>stop\<close>: the sessions, then the acceptors (their part is in the flags of their runs), then the
  pool; the threads of the pool have to return before this does.
\<close>

definition server_stop :: "server \<Rightarrow> server" where
  "server_stop sv = (let sv = stopSessions sv in sv\<lparr>sv_pool := pool_stop (sv_pool sv)\<rparr>)"

subsection \<open>FifoAcceptor\<close>

text \<open>
  How the run of an acceptor stands: waiting for the next client, returned because it was
  stopped, returned because of an exception; an exception of another kind ends the process.
\<close>

datatype acceptor_exit = Waiting | Acceptor_Stopped | Threw exn | Aborted exn

definition thrown :: "exn \<Rightarrow> acceptor_exit" where
  "thrown e = (if std_exception e then Threw e else Aborted e)"

text \<open>One turn: \<open>_stopped\<close> at the three places where it is asked, and what reading gives.\<close>

record fifo_accept =
  fa_stopped_loop :: bool
  fa_stopped_enter :: bool
  fa_opened :: bool
  fa_reads :: "read_result list"
  fa_stopped_read :: bool

definition no_strings :: "string list" where
  "no_strings = [[], [], [], []]"

definition unblockAcceptor :: "fifo_accept \<Rightarrow> HEADER \<Rightarrow> (HEADERTYPE \<times> string list \<times> HEADER) option result" where
  "unblockAcceptor fa header =
     (if fa_stopped_enter fa then Inr (Some (HT_ERROR, no_strings, header))
      else bindE (fifo_readMessage (fa_opened fa) True (fa_reads fa) header no_strings) (\<lambda>r.
        case r of
          None \<Rightarrow> Inr None
        | Some (header, array, ok) \<Rightarrow>
            if \<not> ok then Inr (Some (HT_ERROR, no_strings, header))
            else Inr (Some (extractHeaderType header, array, header))))"

fun fifo_acceptor_run ::
  "server_config \<Rightarrow> fifo_accept list \<Rightarrow> HEADER \<Rightarrow> server \<Rightarrow> server \<times> acceptor_exit" where
  "fifo_acceptor_run cfg [] header sv = (sv, Waiting)"
| "fifo_acceptor_run cfg (fa # fas) header sv =
     (if fa_stopped_loop fa then (sv, Acceptor_Stopped)
      else case unblockAcceptor fa header of
          Inl e \<Rightarrow> (sv, thrown e)
        | Inr None \<Rightarrow> (sv, Waiting)
        | Inr (Some (type, array, header)) \<Rightarrow>
            if fa_stopped_read fa then (sv, Acceptor_Stopped)
            else if type = AUTHENTICATE then
              (case createSession cfg Fifo_Kind (array ! 0) (array ! 1) (array ! 2) (array ! 3) sv of
                 (sv, Some e) \<Rightarrow> (sv, thrown e)
               | (sv, None) \<Rightarrow> fifo_acceptor_run cfg fas header sv)
            else fifo_acceptor_run cfg fas header sv)"

subsection \<open>TcpAcceptor\<close>

text \<open>
  What completes an \<open>async_accept\<close>: an error, a connection with the bytes that it brings (and the
  text of \<open>createErrorString\<close>, used when they are not a message), or anything after \<open>stop\<close>.
\<close>

datatype accept_event = Accept_Error | Accept_Stopped | Connected "string list" string

definition connectionType ::
  "string list \<Rightarrow> string \<Rightarrow> HEADER \<Rightarrow> (HEADERTYPE \<times> string list \<times> HEADER) result" where
  "connectionType chunks errorString header =
     bindE (tcp_readMessage chunks header no_strings) (\<lambda>(header, array, ok).
       if \<not> ok then Inl (Runtime_Error errorString)
       else if isCompressed header then Inl Assertion_Failed
       else Inr (extractHeaderType header, array, header))"

definition replyHeartbeat :: "HEADER \<Rightarrow> string" where
  "replyHeartbeat header = fst (tcp_sendMessage None header [] [] [] [])"

text \<open>
  The handlers of the acceptor one after the other: the heartbeats that are answered and how it
  ends. \<open>accept\<close> is called again only after a connection, so an error is the last event, and
  \<open>run\<close> returns.
\<close>

fun tcp_acceptor_run ::
  "server_config \<Rightarrow> accept_event list \<Rightarrow> HEADER \<Rightarrow> server \<Rightarrow> server \<times> string list \<times> acceptor_exit" where
  "tcp_acceptor_run cfg [] header sv = (sv, [], Waiting)"
| "tcp_acceptor_run cfg (Accept_Stopped # es) header sv = (sv, [], Acceptor_Stopped)"
| "tcp_acceptor_run cfg (Accept_Error # es) header sv = (sv, [], Acceptor_Stopped)"
| "tcp_acceptor_run cfg (Connected chunks errorString # es) header sv =
     (case connectionType chunks errorString header of
        Inl e \<Rightarrow> (sv, [], thrown e)
      | Inr (type, array, header) \<Rightarrow>
          if type = AUTHENTICATE then
            (case createSession cfg Tcp_Kind (array ! 0) (array ! 1) (array ! 2) (array ! 3) sv of
               (sv, Some e) \<Rightarrow> (sv, [], thrown e)
             | (sv, None) \<Rightarrow> tcp_acceptor_run cfg es header sv)
          else if type = HEARTBEAT then
            (case tcp_acceptor_run cfg es header sv of
               (sv, replies, exit) \<Rightarrow> (sv, replyHeartbeat header # replies, exit))
          else tcp_acceptor_run cfg es header sv)"

subsection \<open>The sessions of a server\<close>

inductive server_step :: "server_config \<Rightarrow> server \<Rightarrow> server \<Rightarrow> bool" for cfg where
  create: "server_step cfg sv (fst (createSession cfg kind p1 p2 p3 p4 sv))"
| thread: "i < length (p_threads (sv_pool sv)) \<Longrightarrow> thread_step sessions_get i (sv_pool sv) = Some p \<Longrightarrow>
    server_step cfg sv (sv\<lparr>sv_pool := p\<rparr>)"
| stop_sessions: "server_step cfg sv (stopSessions sv)"
| stop: "server_step cfg sv (server_stop sv)"

inductive server_reach :: "server_config \<Rightarrow> server \<Rightarrow> bool" for cfg where
  start: "server_reach cfg (Server_new cfg)"
| step: "server_reach cfg sv \<Longrightarrow> server_step cfg sv sv' \<Longrightarrow> server_reach cfg sv'"

definition authenticated :: "session \<Rightarrow> bool" where
  "authenticated se \<longleftrightarrow>
     (\<exists>e. tu_sodium (se_encryptors se) = Some e \<and> en_verifiedSignature e) \<and>
     (\<exists>e. tu_cryptopp (se_encryptors se) = Some e \<and> en_verifiedSignature e)"

definition server_inv :: "server_config \<Rightarrow> server \<Rightarrow> bool" where
  "server_inv cfg sv \<longleftrightarrow>
     (\<forall>id se. sv_sessions sv id = Some se \<longrightarrow> se_clientId se = id \<and> authenticated se) \<and>
     (\<forall>id. count (in_pool (sv_pool sv)) id = (if sv_sessions sv id = None then 0 else 1)) \<and>
     pool_size (sv_pool sv) \<le> p_maxSize (sv_pool sv) \<and> p_maxSize (sv_pool sv) = sc_maxTotalSessions cfg"

lemma CryptoPlPl_session_verified:
  "CryptoPlPl_session lib auth ks r peer sig = Inr e \<Longrightarrow> en_verifiedSignature e"
  by (auto simp: CryptoPlPl_session_def rsa_defs bindE_Inr_iff Let_def split: if_splits option.splits prod.splits)

lemma CryptoSodium_session_verified:
  "CryptoSodium_session lib auth ks r peer sig = Inr e \<Longrightarrow> en_verifiedSignature e"
  using sodium_authentication_aux by blast

lemma Session_new_authenticated:
  assumes "Session_new primary lib auth hr fresh clientId p1 p2 p3 p4 = Inr se"
  shows "authenticated se" and "se_clientId se = clientId" and "se_status se = ST_NONE"
  using assms
  by (auto simp: Session_new_def authenticated_def bindE_Inr_iff CryptoSodium_session_verified
      CryptoPlPl_session_verified)

lemma startSession_pool:
  assumes "sv_sessions sv (se_clientId se) = None"
  shows "sv_sessions (fst (startSession cfg kind se sv)) = (sv_sessions sv)(se_clientId se \<mapsto> se)"
    and "in_pool (sv_pool (fst (startSession cfg kind se sv))) = add_mset (se_clientId se) (in_pool (sv_pool sv))"
    and "p_maxSize (sv_pool (fst (startSession cfg kind se sv))) = p_maxSize (sv_pool sv)"
    and "pool_size (sv_pool sv) \<le> p_maxSize (sv_pool sv) \<Longrightarrow>
      pool_size (sv_pool (fst (startSession cfg kind se sv))) \<le> p_maxSize (sv_pool sv)"
    and "p_queue (sv_pool (fst (startSession cfg kind se sv))) = p_queue (sv_pool sv) @ [se_clientId se]"
    and "sv_sent (fst (startSession cfg kind se sv)) = sv_sent sv"
  using assms calculateStatus_fields(5)
      [of "(sv_pool sv)\<lparr>p_objects := (p_objects (sv_pool sv))(se_clientId se := session_object cfg kind)\<rparr>" "se_clientId se"]
  by (simp_all add: startSession_def sessions_push_def in_pool_def calculateStatus_fields Let_def pool_size_def)

lemma server_step_inv:
  assumes "server_inv cfg sv" and "server_step cfg sv sv'"
  shows "server_inv cfg sv'"
  using assms(2)
proof cases
  case (create kind p1 p2 p3 p4)
  let ?id = "unat (sv_nextId sv)"
  let ?sv = "sv\<lparr>sv_nextId := sv_nextId sv + 1\<rparr>"
  show ?thesis
  proof (cases "Session_new (sc_primary cfg) (sc_libs cfg) (sc_auth cfg) (sc_random cfg ?id) (sc_fresh cfg) ?id p1 p2 p3 p4")
    case (Inl e)
    then show ?thesis using create assms(1) by (simp add: createSession_def getUniqueId_def server_inv_def)
  next
    case (Inr se)
    note se = Session_new_authenticated [OF Inr]
    let ?sv2 = "?sv\<lparr>sv_sent := sv_sent ?sv @ [(?id, statusToClient se (se_status se))]\<rparr>"
    have sv': "sv' = fst (startSession cfg kind se ?sv2)"
      using create Inr by (simp add: createSession_def getUniqueId_def)
    show ?thesis
    proof (cases "sv_sessions sv ?id")
      case None
      then have none: "sv_sessions ?sv2 (se_clientId se) = None" using se(2) by simp
      show ?thesis
        unfolding sv' server_inv_def startSession_pool(1-3) [OF none]
        using startSession_pool(4) [OF none, of cfg kind] assms(1) se none
        by (auto simp: server_inv_def)
    next
      case (Some x)
      then show ?thesis using sv' se(2) assms(1) by (simp add: startSession_def server_inv_def)
    qed
  qed
next
  case (thread i p)
  then show ?thesis
    using assms(1) sessions_pool.thread_step_in_pool [OF thread(2,3)] by (simp add: server_inv_def pool_size_def)
qed (use assms(1) in \<open>simp_all add: server_inv_def stopSessions_def server_stop_def in_pool_def pool_size_def
    pool_stop_def Let_def\<close>)

lemma server_reach_inv: "server_reach cfg sv \<Longrightarrow> server_inv cfg sv"
proof (induction rule: server_reach.induct)
  case start
  show ?case by (simp add: server_inv_def Server_new_def pool_new_def in_pool_def pool_size_def)
qed (rule server_step_inv)

text \<open>
  C7: Whatever clients send: every session of the server is known under its own number, has verified
  the signatures of both encryptors, and is in the pool exactly once (queued, with a thread, or
  done); the pool has no more threads than the server may have.
\<close>

theorem server_sessions:
  assumes "server_reach cfg sv"
  shows "(\<forall>id se. sv_sessions sv id = Some se \<longrightarrow> se_clientId se = id \<and> authenticated se) \<and>
    (\<forall>id. count (in_pool (sv_pool sv)) id = (if sv_sessions sv id = None then 0 else 1)) \<and>
    pool_size (sv_pool sv) \<le> sc_maxTotalSessions cfg"
  using server_reach_inv [OF assms] by (simp add: server_inv_def)

text \<open>
  After \<open>stopSessions\<close> no session that waits in the queue is started any more.
\<close>

theorem stopped_sessions_wait:
  assumes "server_reach cfg sv"
  shows "snd (sessions_get (sv_pool (stopSessions sv))) = None"
proof -
  have "sv_sessions sv r \<noteq> None" if "r \<in> set (p_queue (sv_pool sv))" for r
  proof -
    have "r \<in># in_pool (sv_pool sv)" using that by (simp add: in_pool_def)
    then show ?thesis
      using server_reach_inv [OF assms] by (auto simp: server_inv_def simp flip: count_greater_zero_iff split: if_splits)
  qed
  then have "take_first (\<lambda>r. below_type_limit (sv_pool (stopSessions sv)) r \<and>
      \<not> rn_stopped (p_objects (sv_pool (stopSessions sv)) r)) (p_queue (sv_pool (stopSessions sv))) = None"
    unfolding take_first_None by (auto simp: stopSessions_def)
  then show ?thesis by (simp add: sessions_get_def get_with_def)
qed

subsection \<open>What clients see\<close>

lemma createSession_new:
  assumes "Session_new (sc_primary cfg) (sc_libs cfg) (sc_auth cfg) (sc_random cfg (unat (sv_nextId sv))) (sc_fresh cfg)
      (unat (sv_nextId sv)) p1 p2 p3 p4 = Inr se"
    and "sv_sessions sv (unat (sv_nextId sv)) = None"
  obtains sv' where "createSession cfg kind p1 p2 p3 p4 sv = (sv', None)"
    "sv_sessions sv' = (sv_sessions sv)(unat (sv_nextId sv) \<mapsto> se)"
    "sv_sent sv' = sv_sent sv @ [(unat (sv_nextId sv), statusToClient se ST_NONE)]"
    "p_queue (sv_pool sv') = p_queue (sv_pool sv) @ [unat (sv_nextId sv)]"
proof -
  note se = Session_new_authenticated [OF assms(1)]
  let ?id = "unat (sv_nextId sv)"
  let ?sv2 = "sv\<lparr>sv_nextId := sv_nextId sv + 1, sv_sent := sv_sent sv @ [(?id, statusToClient se (se_status se))]\<rparr>"
  have none: "sv_sessions ?sv2 (se_clientId se) = None" using se(2) assms(2) by simp
  have "createSession cfg kind p1 p2 p3 p4 sv = (fst (startSession cfg kind se ?sv2), None)"
    using assms(1) by (simp add: createSession_def getUniqueId_def)
  then show ?thesis
    using that [of "fst (startSession cfg kind se ?sv2)"] startSession_pool [OF none] se by simp
qed

lemma signature_plain:
  assumes "cryptopp_ok (cl_cryptopp lib)" and client: "Client_new CRYPTOSODIUM lib auth cr fresh = Inr c"
    and sent: "header_wf (ct_authenticationHeader c)"
      "unmarked (serialize (ct_authenticationHeader c) @ ct_primarySignatureWithKey c @ ct_primaryPubKeyAes c @
         ct_secondarySignatureWithKey c @ ct_secondaryPubKeyAes c)"
    and "concat cs = signature_bytes c" "tcp_readMessage cs h0 [[], [], [], []] = Inr (h, array, True)"
  shows "\<not> isCompressed h"
proof -
  have "h = received_header (ct_authenticationHeader c)"
    using signature_arrives [OF assms(1) client sent assms(5), of h0] assms(6) by simp
  moreover have "ct_authenticationHeader c = authenticationHeader (ct_primarySignatureWithKey c) (ct_primaryPubKeyAes c)
     (ct_secondarySignatureWithKey c) (ct_secondaryPubKeyAes c)"
    by (rule Client_new_parts [OF client]) simp
  ultimately show ?thesis
    by (simp add: isCompressed_def extractCompressor_def authenticationHeader_def received_header_def)
qed

text \<open>Both acceptors go on after a session that was made.\<close>

lemma acceptors_go_on:
  assumes "extractHeaderType h = AUTHENTICATE" "\<not> isCompressed h"
  shows "tcp_readMessage cs h0 [[], [], [], []] = Inr (h, [p1, p2, p3, p4], True) \<Longrightarrow>
      createSession cfg Tcp_Kind p1 p2 p3 p4 sv = (sv1, None) \<Longrightarrow>
      tcp_acceptor_run cfg (Connected cs errorString # es) h0 sv = tcp_acceptor_run cfg es h sv1"
    and "fifo_readMessage True True rs h0 [[], [], [], []] = Inr (Some (h, [p1, p2, p3, p4], True)) \<Longrightarrow>
      createSession cfg Fifo_Kind p1 p2 p3 p4 sv = (sv2, None) \<Longrightarrow>
      fifo_acceptor_run cfg (\<lparr>fa_stopped_loop = False, fa_stopped_enter = False, fa_opened = True,
        fa_reads = rs, fa_stopped_read = False\<rparr> # fas) h0 sv = fifo_acceptor_run cfg fas h sv2"
  using assms by (simp_all add: connectionType_def unblockAcceptor_def no_strings_def)

text \<open>
  C2: A client that sends what the constructor made is accepted over either transport: a new session
  is in the map and at the end of the queue, and the message that the session sends makes the
  client's encryptors match those of the session.
\<close>

theorem client_accepted:
  assumes libs: "sodium_ok (cl_sodium (sc_libs cfg))" "cryptopp_ok (cl_cryptopp (sc_libs cfg))" "length (sc_auth cfg) \<le> 32"
    and primary: "sc_primary cfg = CRYPTOSODIUM"
    and client: "Client_new CRYPTOSODIUM (sc_libs cfg) (sc_auth cfg) cr fresh = Inr c"
    and sent: "header_wf (ct_authenticationHeader c)"
      "unmarked (serialize (ct_authenticationHeader c) @ ct_primarySignatureWithKey c @ ct_primaryPubKeyAes c @
         ct_secondarySignatureWithKey c @ ct_secondaryPubKeyAes c)"
    and at: "client_at t" "server_at t'" and cs: "concat cs = signature_bytes c"
    and slot: "clientId = unat (sv_nextId sv)" "sv_sessions sv clientId = None"
  shows "\<exists>h se sv1 sv2. tcp_acceptor_run cfg (Connected cs errorString # es) h0 sv = tcp_acceptor_run cfg es h sv1 \<and>
    fifo_acceptor_run cfg (\<lparr>fa_stopped_loop = False, fa_stopped_enter = False, fa_opened = True,
      fa_reads = map Read_Bytes cs, fa_stopped_read = False\<rparr> # fas) h0 sv = fifo_acceptor_run cfg fas h sv2 \<and>
    (\<forall>sv' \<in> {sv1, sv2}. sv_sessions sv' = (sv_sessions sv)(clientId \<mapsto> se) \<and>
      sv_sent sv' = sv_sent sv @ [(clientId, statusToClient se ST_NONE)] \<and>
      p_queue (sv_pool sv') = p_queue (sv_pool sv) @ [clientId]) \<and>
    (\<forall>s q1 q2 q3 cs2. statusToClient se ST_NONE = (s, q1, q2, q3) \<longrightarrow> header_wf s \<longrightarrow>
       unmarked (serialize s @ q1 @ q2 @ q3) \<longrightarrow> concat cs2 = message_bytes s q1 q2 q3 [] \<longrightarrow>
       (\<exists>warning c'. tcp_receiveStatus (sc_libs cfg) xr cs2 (snd (sendSignatureCommon c)) = Inr (True, warning, c') \<and>
          ct_clientId c' = clientId \<and> tuple_peers t (ct_encryptors c') t' (se_encryptors se)))"
proof -
  have number: "clientId < 2 ^ 64" using unsigned_less [of "sv_nextId sv"] slot(1) by simp
  obtain h p1 p2 p3 p4 se where r: "tcp_readMessage cs h0 [[], [], [], []] = Inr (h, [p1, p2, p3, p4], True)"
    "fifo_readMessage True True (map Read_Bytes cs) h0 [[], [], [], []] = Inr (Some (h, [p1, p2, p3, p4], True))"
    "extractHeaderType h = AUTHENTICATE"
    "Session_new CRYPTOSODIUM (sc_libs cfg) (sc_auth cfg) (sc_random cfg clientId) (sc_fresh cfg) clientId p1 p2 p3 p4 = Inr se"
    and all: "\<forall>status s q1 q2 q3 cs2. statusToClient se status = (s, q1, q2, q3) \<longrightarrow> header_wf s \<longrightarrow>
       unmarked (serialize s @ q1 @ q2 @ q3) \<longrightarrow> concat cs2 = message_bytes s q1 q2 q3 [] \<longrightarrow>
       (\<exists>warning c'. tcp_receiveStatus (sc_libs cfg) xr cs2 (snd (sendSignatureCommon c)) = Inr (True, warning, c') \<and>
          ct_clientId c' = clientId \<and> ct_status c' = status \<and>
          tuple_peers t (ct_encryptors c') t' (se_encryptors se)) \<and>
       (\<exists>warning c'. fifo_receiveStatus (sc_libs cfg) xr [] True (map Read_Bytes cs2) (snd (sendSignatureCommon c)) =
            Inr (Some (True, warning, c')) \<and>
          ct_clientId c' = clientId \<and> ct_status c' = status \<and>
          tuple_peers t (ct_encryptors c') t' (se_encryptors se))"
    using client_handshake_aux [OF libs client sent at number cs, of h0 "sc_random cfg clientId" "sc_fresh cfg" xr "[]"]
    by (elim exE conjE) (rule that; assumption)
  have status: "\<exists>warning c'. tcp_receiveStatus (sc_libs cfg) xr cs2 (snd (sendSignatureCommon c)) = Inr (True, warning, c') \<and>
          ct_clientId c' = clientId \<and> tuple_peers t (ct_encryptors c') t' (se_encryptors se)"
    if "statusToClient se ST_NONE = (s, q1, q2, q3)" "header_wf s" "unmarked (serialize s @ q1 @ q2 @ q3)"
      "concat cs2 = message_bytes s q1 q2 q3 []" for s q1 q2 q3 cs2
    using all that by blast
  have new: "Session_new (sc_primary cfg) (sc_libs cfg) (sc_auth cfg) (sc_random cfg (unat (sv_nextId sv))) (sc_fresh cfg)
      (unat (sv_nextId sv)) p1 p2 p3 p4 = Inr se"
    using r(4) primary slot(1) by simp
  have none: "sv_sessions sv (unat (sv_nextId sv)) = None" using slot by simp
  obtain sv1 where sv1: "createSession cfg Tcp_Kind p1 p2 p3 p4 sv = (sv1, None)"
    "sv_sessions sv1 = (sv_sessions sv)(clientId \<mapsto> se)" "sv_sent sv1 = sv_sent sv @ [(clientId, statusToClient se ST_NONE)]"
    "p_queue (sv_pool sv1) = p_queue (sv_pool sv) @ [clientId]"
    by (rule createSession_new [OF new none, of Tcp_Kind]) (simp add: slot(1))
  obtain sv2 where sv2: "createSession cfg Fifo_Kind p1 p2 p3 p4 sv = (sv2, None)"
    "sv_sessions sv2 = (sv_sessions sv)(clientId \<mapsto> se)" "sv_sent sv2 = sv_sent sv @ [(clientId, statusToClient se ST_NONE)]"
    "p_queue (sv_pool sv2) = p_queue (sv_pool sv) @ [clientId]"
    by (rule createSession_new [OF new none, of Fifo_Kind]) (simp add: slot(1))
  note go_on = acceptors_go_on [OF r(3) signature_plain [OF libs(2) client sent cs r(1)]]
  show ?thesis using go_on(1) [OF r(1) sv1(1)] go_on(2) [OF r(2) sv2(1)] sv1 sv2 status by (intro exI [of _ h] exI [of _ se] exI [of _ sv1] exI [of _ sv2]) auto
qed

text \<open>
  C31: A client that fails to authenticate ends the acceptor: the exception of the session's
  constructor leaves its loop, and whoever connects later waits in vain, on either transport.
\<close>

theorem failed_client_ends_acceptor:
  assumes "tcp_readMessage cs h0 no_strings = Inr (h, [p1, p2, p3, p4], True)"
    and "extractHeaderType h = AUTHENTICATE" and "\<not> isCompressed h" and "std_exception e"
    and "Session_new (sc_primary cfg) (sc_libs cfg) (sc_auth cfg) (sc_random cfg (unat (sv_nextId sv))) (sc_fresh cfg)
      (unat (sv_nextId sv)) p1 p2 p3 p4 = Inl e"
    and "fifo_readMessage True True rs h0 no_strings = Inr (Some (h, [p1, p2, p3, p4], True))"
  shows "tcp_acceptor_run cfg (Connected cs errorString # es) h0 sv = (sv\<lparr>sv_nextId := sv_nextId sv + 1\<rparr>, [], Threw e) \<and>
    fifo_acceptor_run cfg (\<lparr>fa_stopped_loop = False, fa_stopped_enter = False, fa_opened = True, fa_reads = rs,
      fa_stopped_read = False\<rparr> # fas) h0 sv = (sv\<lparr>sv_nextId := sv_nextId sv + 1\<rparr>, Threw e)"
  using assms
  by (simp add: connectionType_def unblockAcceptor_def createSession_def getUniqueId_def thrown_def)

text \<open>
  The status that a session sends is made before the pool is asked: a client is never told that
  it has to wait, although its session then carries the status of a full pool.
\<close>

theorem full_pool_untold:
  assumes "createSession cfg kind p1 p2 p3 p4 sv = (sv', None)" and "sv_sessions sv (unat (sv_nextId sv)) = None"
    and "rn_maxNumberRunningByType (session_object cfg kind) \<le> p_runningByType (sv_pool sv) (rn_type (session_object cfg kind))"
  shows "rn_status (p_objects (sv_pool sv') (unat (sv_nextId sv))) = MAX_OBJECTS_OF_TYPE \<and>
    (\<exists>h q1 q2 q3. sv_sent sv' = sv_sent sv @ [(unat (sv_nextId sv), (h, q1, q2, q3))] \<and> extractStatus h = ST_NONE)"
proof -
  let ?n = "unat (sv_nextId sv)"
  obtain se where new: "Session_new (sc_primary cfg) (sc_libs cfg) (sc_auth cfg) (sc_random cfg ?n) (sc_fresh cfg) ?n
      p1 p2 p3 p4 = Inr se"
    using assms(1) by (auto simp: createSession_def getUniqueId_def split: sum.splits)
  note se = Session_new_authenticated [OF new]
  let ?sv2 = "sv\<lparr>sv_nextId := sv_nextId sv + 1, sv_sent := sv_sent sv @ [(?n, statusToClient se (se_status se))]\<rparr>"
  have sv': "sv' = fst (startSession cfg kind se ?sv2)"
    using assms(1) new by (simp add: createSession_def getUniqueId_def)
  have none: "sv_sessions ?sv2 (se_clientId se) = None" using se(2) assms(2) by simp
  have "rn_status (p_objects (sv_pool sv') ?n) = MAX_OBJECTS_OF_TYPE"
    unfolding sv' using assms(2,3) se(2)
    by (simp add: startSession_def sessions_push_def calculateStatus_def below_type_limit_def getNumberRunningByType_def
        set_status_def Let_def)
  moreover have "sv_sent sv' = sv_sent sv @ [(?n, statusToClient se ST_NONE)]"
    unfolding sv' startSession_pool(6) [OF none] using se(3) by simp
  moreover have "extractStatus (fst (statusToClient se ST_NONE)) = ST_NONE"
    by (simp add: statusToClient_def keyExchangeHeader_def extractStatus_def)
  ultimately show ?thesis by (metis prod.collapse)
qed

text \<open>A heartbeat is answered with the header that came, and the acceptor goes on.\<close>

theorem heartbeat_answered:
  assumes "header_wf h" and "header_type h = HEARTBEAT" and "header_compressor h = COMPR_NONE"
    and "field1_size h = 0" "field2_size h = 0" "field3_size h = 0" and "unmarked (serialize h)"
    and "concat cs = message_bytes h [] [] [] []"
    and "tcp_acceptor_run cfg es (received_header h) sv = (sv', replies, exit)"
  shows "tcp_acceptor_run cfg (Connected cs errorString # es) h0 sv =
    (sv', message_bytes (received_header h) [] [] [] [] # replies, exit)"
proof -
  have "tcp_readMessage cs h0 no_strings = Inr (received_header h, no_strings, True)"
    using tcp_readMessage_chunks [OF assms(7), of cs h0 no_strings] assms(8)
      processMessage_four [OF assms(1), of "[]" "[]" "[]" "[]" h0] assms(4-6)
    by (simp add: message_bytes_def no_strings_def)
  moreover have "extractHeaderType (received_header h) = HEARTBEAT" "\<not> isCompressed (received_header h)"
    using assms(2,3) by (simp_all add: extractHeaderType_def isCompressed_def extractCompressor_def received_header_def)
  ultimately show ?thesis
    using assms(9) by (simp add: connectionType_def replyHeartbeat_def tcp_sendMessage_def)
qed

subsection \<open>Witnesses\<close>

definition demo_server_config :: server_config where
  "demo_server_config = \<lparr>sc_primary = CRYPTOSODIUM, sc_libs = demo_libs, sc_auth = ''hello'', sc_fresh = demo_header,
     sc_random = (\<lambda>_. demo_handshake_random), sc_maxTotalSessions = 2, sc_maxTcpSessions = 1, sc_maxFifoSessions = 1\<rparr>"

lemma Session_new_number:
  "Session_new primary lib auth hr fresh n p1 p2 p3 p4 =
     map_sum id (\<lambda>se. se\<lparr>se_clientId := n\<rparr>) (Session_new primary lib auth hr fresh 0 p1 p2 p3 p4)"
  by (simp add: Session_new_def bindE_def split: sum.split)

lemma demo_strings:
  obtains sv' where "createSession demo_server_config Tcp_Kind (replicate 96 nul) (replicate 32 nul)
    (replicate 256 nul) (replicate 65 nul) sv = (sv', None)"
proof -
  have "is_ok (Session_new CRYPTOSODIUM demo_libs ''hello'' demo_handshake_random demo_header 0 (replicate 96 nul)
      (replicate 32 nul) (replicate 256 nul) (replicate 65 nul))"
    by code_simp
  then obtain se0 where "Session_new CRYPTOSODIUM demo_libs ''hello'' demo_handshake_random demo_header 0 (replicate 96 nul)
      (replicate 32 nul) (replicate 256 nul) (replicate 65 nul) = Inr se0"
    unfolding is_ok_iff by (rule exE)
  then obtain se where "Session_new CRYPTOSODIUM demo_libs ''hello'' demo_handshake_random demo_header
      (unat (sv_nextId sv)) (replicate 96 nul) (replicate 32 nul) (replicate 256 nul) (replicate 65 nul) = Inr se"
    unfolding Session_new_number [of _ _ _ _ _ "unat (sv_nextId sv)"] by (simp only: map_sum.simps)
  then show ?thesis
    using that by (simp add: createSession_def getUniqueId_def demo_server_config_def)
qed

lemma server_sessions_witness:
  "\<exists>sv se. server_reach demo_server_config sv \<and> sv_sessions sv 0 = Some se \<and> se_clientId se = 0 \<and> authenticated se \<and>
     count (in_pool (sv_pool sv)) 0 = 1"
proof -
  obtain sv' where c: "createSession demo_server_config Tcp_Kind (replicate 96 nul) (replicate 32 nul)
    (replicate 256 nul) (replicate 65 nul) (Server_new demo_server_config) = (sv', None)"
    by (rule demo_strings)
  have reach: "server_reach demo_server_config sv'"
    using server_reach.step [OF server_reach.start server_step.create [of demo_server_config "Server_new demo_server_config"
        Tcp_Kind "replicate 96 nul" "replicate 32 nul" "replicate 256 nul" "replicate 65 nul"]] c by simp
  have "sv_sessions sv' 0 \<noteq> None"
    using c by (auto simp: createSession_def getUniqueId_def Server_new_def startSession_def Let_def
        Session_new_authenticated split: sum.splits)
  then show ?thesis using server_sessions [OF reach] reach by fastforce
qed

lemma stopped_sessions_wait_witness:
  "snd (sessions_get (sv_pool (stopSessions (Server_new demo_server_config)))) = None"
  by (rule stopped_sessions_wait [OF server_reach.start])

lemma client_accepted_witness:
  "\<exists>c se h sv1. demo_client = Inr c \<and>
    tcp_acceptor_run demo_server_config [Connected [signature_bytes c] ''x''] demo_header (Server_new demo_server_config) =
      tcp_acceptor_run demo_server_config [] h sv1 \<and>
    sv_sessions sv1 = [0 \<mapsto> se] \<and> p_queue (sv_pool sv1) = [0]"
proof -
  obtain c where c: "demo_client = Inr c" "header_wf (ct_authenticationHeader c)"
    "unmarked (serialize (ct_authenticationHeader c) @ ct_primarySignatureWithKey c @ ct_primaryPubKeyAes c @
       ct_secondarySignatureWithKey c @ ct_secondaryPubKeyAes c)"
    by (rule demo_client_made)
  let ?cfg = demo_server_config and ?sv = "Server_new demo_server_config"
  have cfg: "sc_libs ?cfg = demo_libs" "sc_auth ?cfg = ''hello''" "sc_primary ?cfg = CRYPTOSODIUM"
    by (simp_all add: demo_server_config_def)
  have libs: "sodium_ok (cl_sodium (sc_libs ?cfg))" "cryptopp_ok (cl_cryptopp (sc_libs ?cfg))"
    "length (sc_auth ?cfg) \<le> 32"
    using demo_libs_ok by (simp_all add: crypto_libs_ok_def cfg)
  have client: "Client_new CRYPTOSODIUM (sc_libs ?cfg) (sc_auth ?cfg) demo_client_random demo_header = Inr c"
    using c(1) by (simp add: demo_client_def cfg)
  have cs: "concat [signature_bytes c] = signature_bytes c" by simp
  have slot: "0 = unat (sv_nextId ?sv)" "sv_sessions ?sv 0 = None" by (simp_all add: Server_new_def)
  have sv: "sv_sessions ?sv = Map.empty" "p_queue (sv_pool ?sv) = []" by (simp_all add: Server_new_def pool_new_def)
  obtain h se sv1 where
    "tcp_acceptor_run ?cfg (Connected [signature_bytes c] ''x'' # []) demo_header ?sv = tcp_acceptor_run ?cfg [] h sv1"
    "sv_sessions sv1 = (sv_sessions ?sv)(0 \<mapsto> se) \<and> p_queue (sv_pool sv1) = p_queue (sv_pool ?sv) @ [0]"
    using client_accepted [OF libs cfg(3) client c(2,3) client_at_demo cs slot, of "''x''" "[]" demo_header "[]"
        demo_exchange_random] by blast
  then show ?thesis using c(1) sv by auto
qed

lemma full_pool_untold_witness:
  "\<exists>sv'. createSession demo_server_config Tcp_Kind (replicate 96 nul) (replicate 32 nul) (replicate 256 nul) (replicate 65 nul)
      ((Server_new demo_server_config)\<lparr>sv_pool := count_up 7 (sv_pool (Server_new demo_server_config))\<rparr>) = (sv', None) \<and>
    rn_status (p_objects (sv_pool sv') 0) = MAX_OBJECTS_OF_TYPE \<and>
    (\<exists>h q1 q2 q3. sv_sent sv' = [(0, (h, q1, q2, q3))] \<and> extractStatus h = ST_NONE)"
proof -
  let ?sv = "(Server_new demo_server_config)\<lparr>sv_pool := count_up 7 (sv_pool (Server_new demo_server_config))\<rparr>"
  obtain sv' where c: "createSession demo_server_config Tcp_Kind (replicate 96 nul) (replicate 32 nul)
    (replicate 256 nul) (replicate 65 nul) ?sv = (sv', None)"
    by (rule demo_strings)
  have n: "unat (sv_nextId ?sv) = 0" "sv_sessions ?sv (unat (sv_nextId ?sv)) = None" "sv_sent ?sv = []"
    by (simp_all add: Server_new_def)
  have "rn_maxNumberRunningByType (session_object demo_server_config Tcp_Kind) \<le>
      p_runningByType (sv_pool ?sv) (rn_type (session_object demo_server_config Tcp_Kind))"
    by (simp add: session_object_def demo_server_config_def Server_new_def pool_new_def count_up_def Let_def)
  from full_pool_untold [OF c n(2) this] show ?thesis unfolding n(1,3) using c by auto
qed

definition heartbeat_header :: "STATUS \<Rightarrow> HEADER" where
  "heartbeat_header status =
     \<lparr>header_type = HEARTBEAT, field1_size = 0, field2_size = 0, header_compressor = COMPR_NONE,
      header_diagnostics = DIAG_NONE, header_status = status, field3_size = 0, field4_size = 0\<rparr>"

lemma heartbeat_answered_witness:
  "tcp_acceptor_run demo_server_config [Connected [message_bytes (heartbeat_header ST_NONE) [] [] [] []] ''x''] demo_header
     (Server_new demo_server_config) =
   (Server_new demo_server_config, [message_bytes (heartbeat_header ST_NONE) [] [] [] []], Waiting)"
proof -
  let ?h = "heartbeat_header ST_NONE"
  have h: "received_header ?h = ?h" "header_wf ?h" by (simp_all add: heartbeat_header_def received_header_def header_wf_def)
  have "unmarked (serialize ?h)" by code_simp
  then show ?thesis
    using heartbeat_answered [OF h(2), of "[message_bytes ?h [] [] [] []]" demo_server_config "[]" "Server_new demo_server_config"
        "Server_new demo_server_config" "[]" Waiting] h(1)
    by (simp add: heartbeat_header_def)
qed

text \<open>A library that accepts no signature, and a client of the demonstration library.\<close>

definition strict_config :: server_config where
  "strict_config = demo_server_config\<lparr>sc_libs := demo_libs\<lparr>cl_sodium := demo_sodium\<lparr>sign_verify := (\<lambda>_ _ _. False)\<rparr>\<rparr>\<rparr>"

lemma map_sum_InlE:
  assumes "map_sum id g x = Inl e"
  shows "x = Inl e"
  using assms by (cases x) simp_all

lemma failed_client_ends_acceptor_witness:
  "\<exists>c e. demo_client = Inr c \<and>
    tcp_acceptor_run strict_config [Connected [signature_bytes c] ''x'', Connected [signature_bytes c] ''x''] demo_header
      (Server_new strict_config) = ((Server_new strict_config)\<lparr>sv_nextId := 1\<rparr>, [], Threw e)"
proof -
  obtain c where c: "demo_client = Inr c" "header_wf (ct_authenticationHeader c)"
    "unmarked (serialize (ct_authenticationHeader c) @ ct_primarySignatureWithKey c @ ct_primaryPubKeyAes c @
       ct_secondarySignatureWithKey c @ ct_secondaryPubKeyAes c)"
    by (rule demo_client_made)
  have libs: "cryptopp_ok (cl_cryptopp demo_libs)" using demo_libs_ok by (simp add: crypto_libs_ok_def)
  have cs: "concat [signature_bytes c] = signature_bytes c" by simp
  note arrives = signature_arrives [OF libs c(1) [unfolded demo_client_def] c(2,3) cs, of demo_header, folded no_strings_def]
  let ?h = "received_header (ct_authenticationHeader c)"
  have "ct_authenticationHeader c = authenticationHeader (ct_primarySignatureWithKey c) (ct_primaryPubKeyAes c)
       (ct_secondarySignatureWithKey c) (ct_secondaryPubKeyAes c)"
    by (rule Client_new_parts [OF c(1) [unfolded demo_client_def]]) simp
  then have h: "extractHeaderType ?h = AUTHENTICATE" "\<not> isCompressed ?h"
    by (simp_all add: extractHeaderType_def isCompressed_def extractCompressor_def authenticationHeader_def received_header_def)
  let ?e = "Runtime_Error ''authentication failed''"
  have "map_sum id (\<lambda>c. map_sum id (\<lambda>_. ()) (Session_new CRYPTOSODIUM (sc_libs strict_config) (sc_auth strict_config)
      (sc_random strict_config 0) (sc_fresh strict_config) 0 (ct_primarySignatureWithKey c) (ct_primaryPubKeyAes c)
      (ct_secondarySignatureWithKey c) (ct_secondaryPubKeyAes c))) demo_client = Inr (Inl ?e)"
    by code_simp
  then have "map_sum id (\<lambda>_. ()) (Session_new CRYPTOSODIUM (sc_libs strict_config) (sc_auth strict_config)
      (sc_random strict_config 0) (sc_fresh strict_config) 0 (ct_primarySignatureWithKey c) (ct_primaryPubKeyAes c)
      (ct_secondarySignatureWithKey c) (ct_secondaryPubKeyAes c)) = Inl ?e"
    unfolding c(1) map_sum.simps by (rule Inr_inject)
  then have 0: "Session_new CRYPTOSODIUM (sc_libs strict_config) (sc_auth strict_config)
      (sc_random strict_config 0) (sc_fresh strict_config) 0 (ct_primarySignatureWithKey c) (ct_primaryPubKeyAes c)
      (ct_secondarySignatureWithKey c) (ct_secondaryPubKeyAes c) = Inl ?e"
    by (rule map_sum_InlE)
  have prim: "sc_primary strict_config = CRYPTOSODIUM" "unat (sv_nextId (Server_new strict_config)) = 0"
    by (simp_all add: strict_config_def demo_server_config_def Server_new_def)
  have ex: "std_exception ?e" by simp
  note conj = conjunct1 [OF failed_client_ends_acceptor [OF conjunct1 [OF arrives] h ex 0 [folded prim] conjunct2 [OF arrives],
        of "''x''" "[Connected [signature_bytes c] ''x'']"]]
  show ?thesis
    using c(1) conj by (intro exI [of _ c] exI [of _ ?e]) (simp add: Server_new_def)
qed

end
