(* ===== verification/Options.thy ===== *)
theory Options
  imports Logger Servers
begin

section \<open>Options (Options, ServerOptions, ClientOptions, AppOptions)\<close>

text \<open>
  The options are static members that \<open>parse\<close> assigns from a JSON file, one after the other: an
  option that is missing or of another kind throws and leaves the ones before it assigned. A parse
  is therefore a state transformer whose result is the state and perhaps an exception.

  A value of the JSON library is a parameter: whether it is null, and what \<open>at\<close> followed by one of
  the accessors gives for a key. Integers are cut to the width of the member, and the
  \<open>boost::static_string<100>\<close> members throw when the text is longer. The static members that client
  and server share are the record \<open>options\<close>, which the two others extend, with the threshold of the
  logger.
\<close>

record json =
  js_null :: bool
  js_string :: "string \<Rightarrow> string result"
  js_int64 :: "string \<Rightarrow> int result"
  js_bool :: "string \<Rightarrow> bool result"

text \<open>What the accessors throw, for a key that is missing or a value of another kind.\<close>

definition json_ok :: "json \<Rightarrow> bool" where
  "json_ok jv \<longleftrightarrow> (\<forall>key e. (js_string jv key = Inl e \<longrightarrow> std_exception e) \<and>
     (js_int64 jv key = Inl e \<longrightarrow> std_exception e) \<and> (js_bool jv key = Inl e \<longrightarrow> std_exception e))"

definition static_string :: "string \<Rightarrow> string result" where
  "static_string s = (if length s \<le> 100 then Inr s else Inl (Library_Error ''length_error''))"

definition short_at :: "json \<Rightarrow> string \<Rightarrow> string result" where
  "short_at jv key = bindE (js_string jv key) static_string"

definition word_at :: "json \<Rightarrow> string \<Rightarrow> 'w::len word result" where
  "word_at jv key = bindE (js_int64 jv key) (\<lambda>i. Inr (word_of_int i))"

subsection \<open>Assignments\<close>

type_synonym 's assignment = "'s \<Rightarrow> 's \<times> exn option"

definition assign :: "'v result \<Rightarrow> ('v \<Rightarrow> 's \<Rightarrow> 's) \<Rightarrow> 's assignment" where
  "assign r put s = (case r of Inl e \<Rightarrow> (s, Some e) | Inr v \<Rightarrow> (put v s, None))"

fun assignments :: "'s assignment list \<Rightarrow> 's assignment" where
  "assignments [] s = (s, None)"
| "assignments (a # as) s = (case a s of (s, None) \<Rightarrow> assignments as s | (s, Some e) \<Rightarrow> (s, Some e))"

subsection \<open>Options\<close>

record options =
  op_singleEncryptor :: CRYPTO
  op_doubleEncryption :: bool
  op_fifoDirectoryName :: string
  op_acceptorBaseName :: string
  op_acceptorName :: string
  op_numberRepeatENXIO :: "32 word"
  op_setPipeSize :: bool
  op_pipeSize :: "64 word"
  op_serverAddress :: string
  op_tcpPort :: "16 word"
  op_printInitVector :: bool
  op_threshold :: LOG_LEVEL

text \<open>The name of the acceptor's pipe is made of two members and is limited like them.\<close>

definition set_acceptorName :: "'a options_scheme assignment" where
  "set_acceptorName p =
     assign (static_string (op_fifoDirectoryName p @ ''/'' @ op_acceptorBaseName p))
       (\<lambda>v p. p\<lparr>op_acceptorName := v\<rparr>) p"

definition extractMatching :: "json \<Rightarrow> 'a options_scheme assignment" where
  "extractMatching jv = assignments
     [assign (js_string jv ''SingleEncryptor'') (\<lambda>v p. p\<lparr>op_singleEncryptor := translateCryptoString v\<rparr>),
      assign (js_bool jv ''DoubleEncryption'') (\<lambda>v p. p\<lparr>op_doubleEncryption := v\<rparr>),
      assign (short_at jv ''FifoDirectoryName'') (\<lambda>v p. p\<lparr>op_fifoDirectoryName := v\<rparr>),
      assign (short_at jv ''AcceptorBaseName'') (\<lambda>v p. p\<lparr>op_acceptorBaseName := v\<rparr>),
      set_acceptorName,
      assign (word_at jv ''NumberRepeatENXIO'') (\<lambda>v p. p\<lparr>op_numberRepeatENXIO := v\<rparr>),
      assign (js_bool jv ''SetPipeSize'') (\<lambda>v p. p\<lparr>op_setPipeSize := v\<rparr>),
      assign (word_at jv ''PipeSize'') (\<lambda>v p. p\<lparr>op_pipeSize := v\<rparr>),
      assign (short_at jv ''ServerAddress'') (\<lambda>v p. p\<lparr>op_serverAddress := v\<rparr>),
      assign (word_at jv ''TcpPort'') (\<lambda>v p. p\<lparr>op_tcpPort := v\<rparr>),
      assign (js_bool jv ''PrintInitVector'') (\<lambda>v p. p\<lparr>op_printInitVector := v\<rparr>)]"

subsection \<open>ServerOptions\<close>

record server_options = options +
  svo_adsFileName :: string
  svo_compressor :: COMPRESSORS
  svo_compressionLevel :: "32 word"
  svo_doEncrypt :: bool
  svo_numberWorkThreads :: "32 word"
  svo_maxTcpSessions :: "32 word"
  svo_maxFifoSessions :: "32 word"
  svo_maxTotalSessions :: "32 word"
  svo_tcpTimeout :: "32 word"
  svo_useRegex :: bool
  svo_policyEnum :: POLICYENUM
  svo_bufferSize :: "64 word"
  svo_timing :: bool
  svo_printHeader :: bool
  svo_logThresholdName :: string
  svo_jv :: json

definition server_assignments :: "json \<Rightarrow> 32 word \<Rightarrow> server_options assignment" where
  "server_assignments jv hardware_concurrency = assignments
     [extractMatching jv,
      assign (short_at jv ''AdsFileName'') (\<lambda>v p. p\<lparr>svo_adsFileName := v\<rparr>),
      assign (js_string jv ''Compression'') (\<lambda>v p. p\<lparr>svo_compressor := translateCompressorString v\<rparr>),
      assign (word_at jv ''CompressionLevel'') (\<lambda>v p. p\<lparr>svo_compressionLevel := v\<rparr>),
      assign (js_bool jv ''doEncrypt'') (\<lambda>v p. p\<lparr>svo_doEncrypt := v\<rparr>),
      assign (word_at jv ''NumberWorkThreads'')
        (\<lambda>v p. p\<lparr>svo_numberWorkThreads := (if v \<noteq> 0 then v else hardware_concurrency)\<rparr>),
      assign (word_at jv ''MaxTcpSessions'') (\<lambda>v p. p\<lparr>svo_maxTcpSessions := v\<rparr>),
      assign (word_at jv ''MaxFifoSessions'') (\<lambda>v p. p\<lparr>svo_maxFifoSessions := v\<rparr>),
      assign (word_at jv ''MaxTotalSessions'') (\<lambda>v p. p\<lparr>svo_maxTotalSessions := v\<rparr>),
      assign (word_at jv ''TcpTimeout'') (\<lambda>v p. p\<lparr>svo_tcpTimeout := v\<rparr>),
      assign (js_bool jv ''UseRegex'') (\<lambda>v p. p\<lparr>svo_useRegex := v\<rparr>),
      assign (js_string jv ''Policy'') (\<lambda>v p. p\<lparr>svo_policyEnum := policy_fromString v\<rparr>),
      assign (word_at jv ''BufferSize'') (\<lambda>v p. p\<lparr>svo_bufferSize := v\<rparr>),
      assign (js_bool jv ''Timing'') (\<lambda>v p. p\<lparr>svo_timing := v\<rparr>),
      assign (js_bool jv ''PrintHeader'') (\<lambda>v p. p\<lparr>svo_printHeader := v\<rparr>),
      assign (short_at jv ''LogThreshold'') (\<lambda>v p. p\<lparr>svo_logThresholdName := v\<rparr>),
      (\<lambda>p. (p\<lparr>op_threshold := translateLogThreshold (svo_logThresholdName p) (op_threshold p)\<rparr>, None))]"

text \<open>
  How \<open>parse\<close> ends. \<open>Exits\<close> is \<open>std::exit\<close>, called when the file cannot be read; a file that is
  not JSON only leaves the value null, and then nothing is assigned. \<open>parsed\<close> is what \<open>parseJson\<close>
  makes of the file; the value is kept for later calls, which do not read a file again.
\<close>

datatype 's parse_end = Parsed 's | Threw_Parse exn 's | Exits nat

definition parse_with :: "'s assignment \<Rightarrow> 's \<Rightarrow> 's parse_end" where
  "parse_with a s = (case a s of (s, None) \<Rightarrow> Parsed s | (s, Some e) \<Rightarrow> Threw_Parse e s)"

definition load_json :: "string \<Rightarrow> json result \<Rightarrow> json \<Rightarrow> json result" where
  "load_json jsonName parsed jv = (if js_null jv \<and> jsonName \<noteq> [] then parsed else Inr jv)"

definition ServerOptions_parse ::
  "string \<Rightarrow> json result \<Rightarrow> 32 word \<Rightarrow> server_options \<Rightarrow> server_options parse_end" where
  "ServerOptions_parse jsonName parsed hardware_concurrency p =
     (case load_json jsonName parsed (svo_jv p) of
        Inl e \<Rightarrow> Exits 3
      | Inr jv \<Rightarrow>
          let p = p\<lparr>svo_jv := jv\<rparr> in
          if js_null jv then Parsed p else parse_with (server_assignments jv hardware_concurrency) p)"

subsection \<open>ClientOptions\<close>

record client_options = options +
  clo_clientType :: CLIENT_TYPE
  clo_compressor :: COMPRESSORS
  clo_compressionLevel :: "32 word"
  clo_doEncrypt :: bool
  clo_sourceName :: string
  clo_externalStream :: bool
  clo_maxNumberTasks :: "32 word"
  clo_heartbeatPeriod :: "32 word"
  clo_heartbeatTimeout :: "32 word"
  clo_heartbeatEnabled :: bool
  clo_diagnostics :: DIAGNOSTICS
  clo_runLoop :: bool
  clo_bufferSize :: "64 word"
  clo_timing :: bool
  clo_printHeader :: bool
  clo_logThresholdName :: string
  clo_jv :: json

definition client_assignments :: "json \<Rightarrow> client_options assignment" where
  "client_assignments jv = assignments
     [extractMatching jv,
      assign (js_string jv ''ClientType'') (\<lambda>v p. p\<lparr>clo_clientType := translateClientType v\<rparr>),
      assign (js_string jv ''Compression'') (\<lambda>v p. p\<lparr>clo_compressor := translateCompressorString v\<rparr>),
      assign (word_at jv ''CompressionLevel'') (\<lambda>v p. p\<lparr>clo_compressionLevel := v\<rparr>),
      assign (js_bool jv ''doEncrypt'') (\<lambda>v p. p\<lparr>clo_doEncrypt := v\<rparr>),
      assign (js_string jv ''SourceName'') (\<lambda>v p. p\<lparr>clo_sourceName := v\<rparr>),
      assign (js_string jv ''InstrumentationFn'') (\<lambda>v p. p),
      assign (word_at jv ''MaxNumberTasks'') (\<lambda>v p. p\<lparr>clo_maxNumberTasks := v\<rparr>),
      assign (word_at jv ''HeartbeatPeriod'') (\<lambda>v p. p\<lparr>clo_heartbeatPeriod := v\<rparr>),
      assign (word_at jv ''HeartbeatTimeout'') (\<lambda>v p. p\<lparr>clo_heartbeatTimeout := v\<rparr>),
      assign (js_bool jv ''HeartbeatEnabled'') (\<lambda>v p. p\<lparr>clo_heartbeatEnabled := v\<rparr>),
      assign (js_string jv ''Diagnostics'') (\<lambda>v p. p\<lparr>clo_diagnostics := translateDiagnosticsString v\<rparr>),
      assign (js_bool jv ''RunLoop'') (\<lambda>v p. p\<lparr>clo_runLoop := v\<rparr>),
      assign (word_at jv ''BufferSize'') (\<lambda>v p. p\<lparr>clo_bufferSize := v\<rparr>),
      assign (js_bool jv ''Timing'') (\<lambda>v p. p\<lparr>clo_timing := v\<rparr>),
      assign (js_bool jv ''PrintHeader'') (\<lambda>v p. p\<lparr>clo_printHeader := v\<rparr>),
      assign (js_string jv ''LogThreshold'') (\<lambda>v p. p\<lparr>clo_logThresholdName := v\<rparr>)]"

text \<open>Here the threshold is set even when there is no JSON value.\<close>

definition ClientOptions_parse ::
  "string \<Rightarrow> bool \<Rightarrow> json result \<Rightarrow> client_options \<Rightarrow> client_options parse_end" where
  "ClientOptions_parse jsonName externalDataStream parsed p =
     (let p = p\<lparr>clo_externalStream := externalDataStream\<rparr> in
      case load_json jsonName parsed (clo_jv p) of
        Inl e \<Rightarrow> Exits 3
      | Inr jv \<Rightarrow>
          parse_with (assignments
            [if js_null jv then (\<lambda>p. (p, None)) else client_assignments jv,
             (\<lambda>p. (p\<lparr>op_threshold := translateLogThreshold (clo_logThresholdName p) (op_threshold p)\<rparr>, None))])
            (p\<lparr>clo_jv := jv\<rparr>))"

subsection \<open>AppOptions\<close>

text \<open>
  A property tree with defaults: \<open>get\<close> gives the default when the file was not read, when the key
  is missing and when the text does not convert to the type, which \<open>convert\<close> decides.
\<close>

record app_options =
  ao_ptree :: "string \<rightharpoonup> string"
  ao_initialized :: bool

definition AppOptions_initialize :: "string \<Rightarrow> bool \<Rightarrow> (string \<rightharpoonup> string) result \<Rightarrow> app_options" where
  "AppOptions_initialize fileName exists read_json =
     (if fileName \<noteq> [] \<and> \<not> exists then \<lparr>ao_ptree = Map.empty, ao_initialized = False\<rparr>
      else case read_json of
        Inl e \<Rightarrow> \<lparr>ao_ptree = Map.empty, ao_initialized = False\<rparr>
      | Inr tree \<Rightarrow> \<lparr>ao_ptree = tree, ao_initialized = True\<rparr>)"

definition AppOptions_get :: "(string \<Rightarrow> 'v option) \<Rightarrow> app_options \<Rightarrow> string \<Rightarrow> 'v \<Rightarrow> 'v" where
  "AppOptions_get convert ao name dflt =
     (if \<not> ao_initialized ao then dflt
      else case ao_ptree ao name of
        None \<Rightarrow> dflt
      | Some s \<Rightarrow> (case convert s of None \<Rightarrow> dflt | Some v \<Rightarrow> v))"

subsection \<open>What the rest of the model sees\<close>

definition server_opts_of :: "server_options \<Rightarrow> server_opts" where
  "server_opts_of p = \<lparr>so_compressor = svo_compressor p, so_compressionLevel = sint (svo_compressionLevel p),
     so_doEncrypt = svo_doEncrypt p, so_singleEncryptor = op_singleEncryptor p,
     so_doubleEncryption = op_doubleEncryption p\<rparr>"

definition client_opts_of :: "client_options \<Rightarrow> client_opts" where
  "client_opts_of p = \<lparr>co_compressor = clo_compressor p, co_compressionLevel = sint (clo_compressionLevel p),
     co_diagnostics = clo_diagnostics p, co_doEncrypt = clo_doEncrypt p,
     co_singleEncryptor = op_singleEncryptor p, co_doubleEncryption = op_doubleEncryption p,
     co_bufferSize = unat (clo_bufferSize p), co_runLoop = clo_runLoop p,
     co_maxNumberTasks = sint (clo_maxNumberTasks p)\<rparr>"

text \<open>The limits of the sessions are \<open>int\<close> options and \<open>unsigned\<close> members of what they limit.\<close>

definition configured :: "server_options \<Rightarrow> server_config \<Rightarrow> server_config" where
  "configured p cfg = cfg\<lparr>sc_maxTotalSessions := unat (svo_maxTotalSessions p),
     sc_maxTcpSessions := unat (svo_maxTcpSessions p), sc_maxFifoSessions := unat (svo_maxFifoSessions p)\<rparr>"

subsection \<open>Options are well formed\<close>

definition options_wf :: "'a options_scheme \<Rightarrow> bool" where
  "options_wf p \<longleftrightarrow> length (op_fifoDirectoryName p) \<le> 100 \<and> length (op_acceptorBaseName p) \<le> 100 \<and>
     length (op_acceptorName p) \<le> 100 \<and> length (op_serverAddress p) \<le> 100 \<and> op_threshold p \<noteq> INVALID"

definition server_options_wf :: "server_options \<Rightarrow> bool" where
  "server_options_wf p \<longleftrightarrow> options_wf p \<and> length (svo_adsFileName p) \<le> 100 \<and> length (svo_logThresholdName p) \<le> 100"

definition client_options_wf :: "client_options \<Rightarrow> bool" where
  "client_options_wf p \<longleftrightarrow> options_wf p"

text \<open>
  What an assignment keeps, whether it throws or not; all that it throws is caught as a
  \<open>std::exception\<close>.
\<close>

definition keeps :: "('s \<Rightarrow> bool) \<Rightarrow> 's assignment \<Rightarrow> bool" where
  "keeps P a \<longleftrightarrow> (\<forall>s. P s \<longrightarrow> (case a s of (s', e) \<Rightarrow> P s' \<and> (\<forall>x. e = Some x \<longrightarrow> std_exception x)))"

named_theorems keeps_intros \<open>what assignments keep\<close>

lemma keeps_Nil [keeps_intros]: "keeps P (assignments [])"
  by (simp add: keeps_def)

lemma keeps_Cons [keeps_intros]:
  assumes "keeps P a" "keeps P (assignments as)"
  shows "keeps P (assignments (a # as))"
  unfolding keeps_def
proof (intro allI impI)
  fix s assume "P s"
  obtain s1 e where a: "a s = (s1, e)" by (cases "a s")
  then have "P s1 \<and> (\<forall>x. e = Some x \<longrightarrow> std_exception x)" using assms(1) \<open>P s\<close> by (auto simp: keeps_def)
  then show "case assignments (a # as) s of (s', e) \<Rightarrow> P s' \<and> (\<forall>x. e = Some x \<longrightarrow> std_exception x)"
    using assms(2) a by (cases e) (simp_all add: keeps_def)
qed

lemma keeps_assign:
  assumes "\<And>v s. r = Inr v \<Longrightarrow> P s \<Longrightarrow> P (put v s)" and "\<And>e. r = Inl e \<Longrightarrow> std_exception e"
  shows "keeps P (assign r put)"
  using assms by (cases r) (simp_all add: keeps_def assign_def)

lemma at_std:
  assumes "json_ok jv"
  shows "js_string jv key = Inl e \<Longrightarrow> std_exception e" "short_at jv key = Inl e \<Longrightarrow> std_exception e"
    "js_bool jv key = Inl e \<Longrightarrow> std_exception e" "word_at jv key = Inl e \<Longrightarrow> std_exception e"
  using assms by (auto simp: json_ok_def short_at_def word_at_def static_string_def bindE_Inl_iff split: if_splits)

lemma short_at_length: "short_at jv key = Inr v \<Longrightarrow> length v \<le> 100"
  by (auto simp: short_at_def static_string_def bindE_Inr_iff split: if_splits)

lemma translate_known:
  "threshold \<noteq> INVALID \<Longrightarrow> translateLogThreshold v threshold \<noteq> INVALID"
  by (simp add: translateLogThreshold_def)


lemmas options_wf_defs = options_wf_def server_options_wf_def client_options_wf_def

lemma set_acceptorName_keeps [keeps_intros]:
  "keeps server_options_wf set_acceptorName" "keeps client_options_wf set_acceptorName"
  by (auto simp: keeps_def set_acceptorName_def assign_def static_string_def options_wf_defs split: if_splits)

lemma extractMatching_keeps [keeps_intros]:
  "json_ok jv \<Longrightarrow> keeps server_options_wf (extractMatching jv)"
  "json_ok jv \<Longrightarrow> keeps client_options_wf (extractMatching jv)"
  unfolding extractMatching_def
  by (intro keeps_intros keeps_assign; (erule (1) at_std | simp add: options_wf_defs short_at_length))+

lemma set_threshold_keeps [keeps_intros]:
  "keeps server_options_wf (\<lambda>p. (p\<lparr>op_threshold := translateLogThreshold (name p) (op_threshold p)\<rparr>, None))"
  "keeps client_options_wf (\<lambda>p. (p\<lparr>op_threshold := translateLogThreshold (cname p) (op_threshold p)\<rparr>, None))"
  by (simp_all add: keeps_def options_wf_defs translate_known)

lemma server_assignments_keep: "json_ok jv \<Longrightarrow> keeps server_options_wf (server_assignments jv hw)"
  unfolding server_assignments_def
  by (intro keeps_intros keeps_assign; (assumption | erule (1) at_std | simp add: options_wf_defs short_at_length))

lemma client_assignments_keep [keeps_intros]: "json_ok jv \<Longrightarrow> keeps client_options_wf (client_assignments jv)"
  unfolding client_assignments_def
  by (intro keeps_intros keeps_assign; (assumption | erule (1) at_std | simp add: options_wf_defs short_at_length))

lemma keeps_parse:
  assumes "keeps P a" "P s"
  shows "case parse_with a s of Parsed s' \<Rightarrow> P s' | Threw_Parse e s' \<Rightarrow> P s' \<and> std_exception e | Exits n \<Rightarrow> n = 3"
  using assms by (cases "a s"; cases "snd (a s)") (auto simp: parse_with_def keeps_def)

lemma parse_options_wf_aux:
  assumes "server_options_wf p" "client_options_wf q" and "json_ok (svo_jv p)" "json_ok (clo_jv q)"
    and "\<forall>jv. parsed = Inr jv \<longrightarrow> json_ok jv"
  shows "(case ServerOptions_parse name parsed hw p of
       Parsed p' \<Rightarrow> server_options_wf p' | Threw_Parse e p' \<Rightarrow> server_options_wf p' \<and> std_exception e
     | Exits n \<Rightarrow> n = 3) \<and>
    (case ClientOptions_parse name ext parsed q of
       Parsed q' \<Rightarrow> client_options_wf q' | Threw_Parse e q' \<Rightarrow> client_options_wf q' \<and> std_exception e
     | Exits n \<Rightarrow> n = 3)"
proof
  have jv: "server_options_wf (p\<lparr>svo_jv := jv\<rparr>)" "client_options_wf (q\<lparr>clo_externalStream := ext, clo_jv := jv\<rparr>)" for jv
    using assms by (simp_all add: options_wf_defs)
  have loaded: "json_ok jv" if "load_json name parsed (svo_jv p) = Inr jv \<or> load_json name parsed (clo_jv q) = Inr jv" for jv
    using that assms(3-5) by (auto simp: load_json_def split: if_splits)
  show "case ServerOptions_parse name parsed hw p of
       Parsed p' \<Rightarrow> server_options_wf p' | Threw_Parse e p' \<Rightarrow> server_options_wf p' \<and> std_exception e
     | Exits n \<Rightarrow> n = 3"
    using jv(1) keeps_parse [OF server_assignments_keep [OF loaded] jv(1)]
    by (simp add: ServerOptions_parse_def Let_def split: sum.split)
  have "keeps client_options_wf (assignments
      [if js_null jv then (\<lambda>p. (p, None)) else client_assignments jv,
       (\<lambda>p. (p\<lparr>op_threshold := translateLogThreshold (clo_logThresholdName p) (op_threshold p)\<rparr>, None))])"
    if "json_ok jv" for jv
    using that by (cases "js_null jv") (simp_all add: keeps_intros keeps_def [of _ "\<lambda>p. (p, None)"])
  from keeps_parse [OF this [OF loaded] jv(2)] show "case ClientOptions_parse name ext parsed q of
       Parsed q' \<Rightarrow> client_options_wf q' | Threw_Parse e q' \<Rightarrow> client_options_wf q' \<and> std_exception e
     | Exits n \<Rightarrow> n = 3"
    by (simp add: ClientOptions_parse_def Let_def split: sum.split)
qed


subsection \<open>What a successful parse assigns\<close>

declare assignments.simps [simp del]

lemma assign_done: "assign r put s = (s', None) \<longleftrightarrow> (\<exists>v. r = Inr v \<and> s' = put v s)"
  by (auto simp: assign_def split: sum.splits)

lemma assignments_done:
  "assignments [] s = (s', None) \<longleftrightarrow> s' = s"
  "assignments (a # as) s = (s', None) \<longleftrightarrow> (\<exists>s1. a s = (s1, None) \<and> assignments as s1 = (s', None))"
  by (auto simp: assignments.simps split: prod.splits option.splits)

lemma word_at_done: "word_at jv key = Inr w \<longleftrightarrow> (\<exists>i. js_int64 jv key = Inr i \<and> w = word_of_int i)"
  by (auto simp: word_at_def bindE_Inr_iff)

lemma short_at_done: "short_at jv key = Inr v \<longleftrightarrow> js_string jv key = Inr v \<and> length v \<le> 100"
  by (auto simp: short_at_def static_string_def bindE_Inr_iff split: if_splits)

lemma set_acceptorName_done:
  "set_acceptorName p = (p', None) \<longleftrightarrow>
     length (op_fifoDirectoryName p @ ''/'' @ op_acceptorBaseName p) \<le> 100 \<and>
     p' = p\<lparr>op_acceptorName := op_fifoDirectoryName p @ ''/'' @ op_acceptorBaseName p\<rparr>"
  by (auto simp: set_acceptorName_def static_string_def assign_done)

lemmas parse_done = assignments_done assign_done word_at_done short_at_done set_acceptorName_done

lemma translate_configured:
  "translateCryptoString v \<in> {CRYPTOSODIUM, CRYPTOPP} \<longleftrightarrow> v = ''CRYPTOSODIUM'' \<or> v = ''CRYPTOPP''"
  "translateCompressorString v \<notin> {COMPR_INVALIDLOW, COMPR_INVALIDHIGH}"
  "translateDiagnosticsString v \<notin> {DIAG_INVALIDLOW, DIAG_INVALIDHIGH}"
  by (simp_all add: translateCryptoString_def translateCompressorString_def translateDiagnosticsString_def)

text \<open>
  C40: The options of a server after a parse: the name of the pipe, the port and the limits are those of
  the file, cut to 16 and 32 bits without a message (a negative limit is a huge one), and the
  options of the sessions are good exactly when the file names one of the two encryptors.
\<close>

theorem parsed_server_options:
  assumes "server_assignments jv hw p = (p', None)"
  shows "\<exists>dir base port total tcp fifo name.
    js_string jv ''FifoDirectoryName'' = Inr dir \<and> js_string jv ''AcceptorBaseName'' = Inr base \<and>
    op_acceptorName p' = dir @ ''/'' @ base \<and>
    js_int64 jv ''TcpPort'' = Inr port \<and> int (unat (op_tcpPort p')) = port mod 2 ^ 16 \<and>
    js_int64 jv ''MaxTotalSessions'' = Inr total \<and> int (sc_maxTotalSessions (configured p' cfg)) = total mod 2 ^ 32 \<and>
    js_int64 jv ''MaxTcpSessions'' = Inr tcp \<and> int (sc_maxTcpSessions (configured p' cfg)) = tcp mod 2 ^ 32 \<and>
    js_int64 jv ''MaxFifoSessions'' = Inr fifo \<and> int (sc_maxFifoSessions (configured p' cfg)) = fifo mod 2 ^ 32 \<and>
    js_string jv ''SingleEncryptor'' = Inr name \<and>
    (opts_ok (server_opts_of p') \<longleftrightarrow> name = ''CRYPTOSODIUM'' \<or> name = ''CRYPTOPP'')"
  using assms unfolding server_assignments_def extractMatching_def parse_done
  by (elim exE conjE) (clarsimp simp: configured_def opts_ok_def server_opts_of_def translate_configured [simplified]
      unsigned_of_int take_bit_eq_mod)

lemma maxSubtaskSize_wraps:
  assumes "n < 2 ^ 64"
  shows "int (maxSubtaskSize n) = (int n - 44) mod 2 ^ 64"
proof (cases "44 \<le> n")
  case True
  then show ?thesis using assms by (simp add: maxSubtaskSize_def HEADER_SIZE_44 of_nat_diff)
next
  case False
  then have "(int n - 44) mod 2 ^ 64 = int n - 44 + 2 ^ 64"
    by (subst mod_add_self2 [symmetric], intro mod_pos_pos_trivial) simp_all
  then show ?thesis using False by (simp add: maxSubtaskSize_def HEADER_SIZE_44 of_nat_diff)
qed

text \<open>
  The headers that a configured client makes can be sent, and its batches are as large as the
  option says less the size of a header, modulo the width of a size.
\<close>

theorem parsed_client_options:
  assumes "client_assignments jv q = (q', None)" and "status \<notin> {ST_INVALIDLOW, ST_INVALIDHIGH}"
    and "n < 10 ^ 10"
  shows "header_wf (subtaskHeader (client_opts_of q') status n) \<and>
    (\<exists>size. js_int64 jv ''BufferSize'' = Inr size \<and>
       int (maxSubtaskSize (co_bufferSize (client_opts_of q'))) = (size - 44) mod 2 ^ 64)"
proof -
  obtain size where size: "js_int64 jv ''BufferSize'' = Inr size" "clo_bufferSize q' = word_of_int size"
    and c: "clo_compressor q' \<notin> {COMPR_INVALIDLOW, COMPR_INVALIDHIGH}"
      "clo_diagnostics q' \<notin> {DIAG_INVALIDLOW, DIAG_INVALIDHIGH}"
    using assms(1) unfolding client_assignments_def extractMatching_def parse_done
    by (elim exE conjE) (clarsimp simp: translate_configured [simplified])
  have "header_wf (subtaskHeader (client_opts_of q') status n)"
    using c assms(2,3) by (simp add: header_wf_def subtaskHeader_def client_opts_of_def)
  moreover have "int (maxSubtaskSize (unat (word_of_int size :: 64 word))) = (size - 44) mod 2 ^ 64"
    using maxSubtaskSize_wraps [of "unat (word_of_int size :: 64 word)"] unsigned_less [of "word_of_int size :: 64 word", where 'a = nat]
    by (simp add: unsigned_of_int take_bit_eq_mod mod_diff_left_eq)
  ultimately show ?thesis using size by (simp add: client_opts_of_def)
qed

subsection \<open>Witnesses\<close>

text \<open>A file that is an object of the three kinds of values that the program reads.\<close>

datatype demo_value = V_Bool bool | V_Int int | V_String string

definition demo_json :: "bool \<Rightarrow> (string \<times> demo_value) list \<Rightarrow> json" where
  "demo_json null kvs =
     \<lparr>js_null = null,
      js_string = (\<lambda>key. case map_of kvs key of Some (V_String s) \<Rightarrow> Inr s | _ \<Rightarrow> Inl Out_Of_Range),
      js_int64 = (\<lambda>key. case map_of kvs key of Some (V_Int i) \<Rightarrow> Inr i | _ \<Rightarrow> Inl Out_Of_Range),
      js_bool = (\<lambda>key. case map_of kvs key of Some (V_Bool b) \<Rightarrow> Inr b | _ \<Rightarrow> Inl Out_Of_Range)\<rparr>"

definition demo_server_json :: "(string \<times> demo_value) list" where
  "demo_server_json =
     [(''AdsFileName'', V_String ''data/ads.txt''), (''Policy'', V_String ''NOSORTINPUT''),
      (''NumberWorkThreads'', V_Int 0), (''Compression'', V_String ''LZ4''), (''CompressionLevel'', V_Int 3),
      (''SingleEncryptor'', V_String ''CRYPTOSODIUM''), (''DoubleEncryption'', V_Bool True),
      (''doEncrypt'', V_Bool True), (''BufferSize'', V_Int 3000000), (''Timing'', V_Bool True),
      (''FifoDirectoryName'', V_String ''../Fifos''), (''AcceptorBaseName'', V_String ''Acceptor''),
      (''MaxTcpSessions'', V_Int 27), (''MaxFifoSessions'', V_Int (- 1)), (''MaxTotalSessions'', V_Int 37),
      (''ServerAddress'', V_String ''127.0.0.1''), (''TcpPort'', V_Int 114686), (''TcpTimeout'', V_Int 3000),
      (''UseRegex'', V_Bool False), (''NumberRepeatENXIO'', V_Int 200), (''SetPipeSize'', V_Bool True),
      (''PipeSize'', V_Int 1000000), (''LogThreshold'', V_String ''INFO''), (''PrintHeader'', V_Bool False),
      (''PrintInitVector'', V_Bool False)]"

definition demo_client_json :: "(string \<times> demo_value) list" where
  "demo_client_json = demo_server_json @
     [(''ClientType'', V_String ''TCP''), (''Diagnostics'', V_String ''Disabled''),
      (''SourceName'', V_String ''data/requests.log''), (''InstrumentationFn'', V_String []),
      (''RunLoop'', V_Bool True), (''MaxNumberTasks'', V_Int 0), (''HeartbeatEnabled'', V_Bool True),
      (''HeartbeatPeriod'', V_Int 15000), (''HeartbeatTimeout'', V_Int 10000)]"

definition demo_server_options :: server_options where
  "demo_server_options = \<lparr>op_singleEncryptor = CRYPTOSODIUM, op_doubleEncryption = False,
     op_fifoDirectoryName = ''/tmp'', op_acceptorBaseName = [], op_acceptorName = ''/tmp/'',
     op_numberRepeatENXIO = 0, op_setPipeSize = False, op_pipeSize = 0, op_serverAddress = [], op_tcpPort = 0,
     op_printInitVector = False, op_threshold = EXPECTED, svo_adsFileName = [], svo_compressor = COMPR_NONE,
     svo_compressionLevel = 0, svo_doEncrypt = False, svo_numberWorkThreads = 0, svo_maxTcpSessions = 0,
     svo_maxFifoSessions = 0, svo_maxTotalSessions = 0, svo_tcpTimeout = 0, svo_useRegex = False,
     svo_policyEnum = SORTINPUT, svo_bufferSize = 0, svo_timing = False, svo_printHeader = False,
     svo_logThresholdName = [], svo_jv = demo_json True []\<rparr>"

definition demo_client_options :: client_options where
  "demo_client_options = \<lparr>op_singleEncryptor = CRYPTOSODIUM, op_doubleEncryption = False,
     op_fifoDirectoryName = ''/tmp'', op_acceptorBaseName = [], op_acceptorName = ''/tmp/'',
     op_numberRepeatENXIO = 0, op_setPipeSize = False, op_pipeSize = 0, op_serverAddress = [], op_tcpPort = 0,
     op_printInitVector = False, op_threshold = EXPECTED, clo_clientType = TCPCLIENT, clo_compressor = COMPR_NONE,
     clo_compressionLevel = 0, clo_doEncrypt = False, clo_sourceName = ''data/requests.log'',
     clo_externalStream = False, clo_maxNumberTasks = 0, clo_heartbeatPeriod = 15000, clo_heartbeatTimeout = 3000,
     clo_heartbeatEnabled = True, clo_diagnostics = DIAG_NONE, clo_runLoop = False, clo_bufferSize = 100000,
     clo_timing = False, clo_printHeader = False, clo_logThresholdName = ''ERROR'', clo_jv = demo_json True []\<rparr>"

lemma demo_options_wf: "server_options_wf demo_server_options" "client_options_wf demo_client_options"
  by (simp_all add: options_wf_defs demo_server_options_def demo_client_options_def)

lemma demo_json_ok: "json_ok (demo_json null kvs)"
  by (auto simp: json_ok_def demo_json_def split: option.splits demo_value.splits)

lemma demo_jv: "json_ok (svo_jv demo_server_options)" "json_ok (clo_jv demo_client_options)"
  by (simp_all add: demo_server_options_def demo_client_options_def demo_json_ok)


lemma parsed_server_options_witness:
  "\<exists>p'. server_assignments (demo_json False demo_server_json) 8 demo_server_options = (p', None) \<and>
    op_acceptorName p' = ''../Fifos/Acceptor'' \<and> uint (op_tcpPort p') = 49150 \<and>
    sc_maxFifoSessions (configured p' demo_server_config) = 4294967295 \<and> opts_ok (server_opts_of p')"
proof -
  let ?r = "server_assignments (demo_json False demo_server_json) 8 demo_server_options"
  have "snd ?r = None" by code_simp
  then obtain p' where p': "?r = (p', None)" by (cases ?r) simp
  then show ?thesis
    using parsed_server_options [OF p', of demo_server_config]
    by (auto simp: demo_server_json_def demo_json_def)
qed

lemma parsed_client_options_witness:
  "\<exists>q'. client_assignments (demo_json False demo_client_json) demo_client_options = (q', None) \<and>
    header_wf (subtaskHeader (client_opts_of q') ST_NONE 70) \<and>
    maxSubtaskSize (co_bufferSize (client_opts_of q')) = 2999956"
proof -
  let ?r = "client_assignments (demo_json False demo_client_json) demo_client_options"
  have "snd ?r = None" by code_simp
  then obtain q' where q': "?r = (q', None)" by (cases ?r) simp
  then show ?thesis
    using parsed_client_options [OF q', of ST_NONE 70]
    by (auto simp: demo_client_json_def demo_server_json_def demo_json_def)
qed

end
