(* ===== verification/Transport.thy ===== *)
theory Transport
  imports Options
begin

unbundle bit_operations_syntax

section \<open>Opening pipes and sockets (Fifo, Tcp, FifoAcceptor, FifoSession)\<close>

text \<open>
  What the program does around the system calls that open a pipe or a socket: the loop that waits
  for the other end of a pipe, the evaluation of \<open>poll\<close>, the size of a pipe, the names and the
  removal of pipes, the connection of a socket. The results of the system calls are arguments;
  \<open>err\<close> is the text of \<open>createErrorString\<close>, which depends on \<open>errno\<close> and the place in the sources.
\<close>

subsection \<open>poll\<close>

definition POLLIN :: "16 word" where "POLLIN = 0x01"
definition POLLOUT :: "16 word" where "POLLOUT = 0x04"
definition POLLERR :: "16 word" where "POLLERR = 0x08"
definition POLLHUP :: "16 word" where "POLLHUP = 0x10"
definition POLLNVAL :: "16 word" where "POLLNVAL = 0x20"

definition pollFd :: "string \<Rightarrow> 16 word \<Rightarrow> int \<Rightarrow> 16 word \<Rightarrow> 16 word result" where
  "pollFd err expected polled revents =
     (if polled \<le> 0 \<or> revents AND POLLERR \<noteq> 0 \<or> revents AND POLLNVAL \<noteq> 0 then Inl (Runtime_Error err)
      else if revents AND expected \<noteq> 0 then Inr expected
      else if revents AND POLLHUP \<noteq> 0 then Inr POLLHUP
      else Inr (- 1))"

text \<open>What the reading and writing loops make of it.\<close>

definition poll_outcome :: "16 word \<Rightarrow> 16 word result \<Rightarrow> poll_result" where
  "poll_outcome expected r =
     (case r of Inl e \<Rightarrow> Poll_Error | Inr v \<Rightarrow> if v = expected then Poll_Expected else Poll_Other)"

text \<open>
  The loops go on exactly when the descriptor is ready and has no error, and they stop for a pipe
  whose other end has hung up only when nothing is left in it.
\<close>

lemma poll_outcome_cases:
  assumes "expected = POLLIN \<or> expected = POLLOUT"
  shows "poll_outcome expected (pollFd err expected polled revents) =
    (if polled \<le> 0 \<or> revents AND (POLLERR OR POLLNVAL) \<noteq> 0 then Poll_Error
     else if revents AND expected \<noteq> 0 then Poll_Expected else Poll_Other)"
proof -
  have err: "revents AND (POLLERR OR POLLNVAL) \<noteq> 0 \<longleftrightarrow> revents AND POLLERR \<noteq> 0 \<or> revents AND POLLNVAL \<noteq> 0"
    by (simp add: bit.conj_disj_distrib or_eq_0_iff)
  have "POLLHUP \<noteq> expected" "- 1 \<noteq> expected"
    using assms by (auto simp: POLLIN_def POLLOUT_def POLLHUP_def)
  then show ?thesis unfolding err by (simp add: poll_outcome_def pollFd_def)
qed

subsection \<open>Size of a pipe\<close>

text \<open>
  The three calls of \<open>fcntl\<close> give the size, set it and give it again; -1 is a failure. The signed
  results are cast to \<open>unsigned long\<close>.
\<close>

definition setPipeSize :: "string \<Rightarrow> 'a options_scheme \<Rightarrow> 64 word \<Rightarrow> 64 word \<Rightarrow> 64 word \<Rightarrow> bool result" where
  "setPipeSize err p currentSz ret newSz =
     (if \<not> op_setPipeSize p then Inr False
      else if currentSz = - 1 then Inl (Runtime_Error err)
      else if currentSz < op_pipeSize p then
        if ret = - 1 then Inr False
        else if newSz = - 1 then Inr False
        else Inr (op_pipeSize p \<le> newSz \<or> op_pipeSize p < currentSz)
      else Inr False)"

lemma setPipeSize_grown:
  "setPipeSize err p currentSz ret newSz = Inr True \<Longrightarrow> currentSz < op_pipeSize p \<and> op_pipeSize p \<le> newSz"
  by (auto simp: setPipeSize_def split: if_splits)

subsection \<open>Opening a pipe for writing\<close>

text \<open>
  What \<open>open\<close> gives: a descriptor, no reader yet, no such pipe, or another error. \<open>None\<close> says that
  the results that were given are used up and the loop still goes on. The counter and the option
  are \<open>int\<close>.
\<close>

datatype open_result = Opened nat | Enxio | Enoent | Open_Error

fun open_loop :: "int \<Rightarrow> int \<Rightarrow> open_result list \<Rightarrow> nat option option" where
  "open_loop numberRepeat rep [] = None"
| "open_loop numberRepeat rep (r # rs) =
     (case r of
        Opened fd \<Rightarrow> Some (Some fd)
      | Enxio \<Rightarrow> if rep < numberRepeat then open_loop numberRepeat (rep + 1) rs else Some None
      | Enoent \<Rightarrow> Some None
      | Open_Error \<Rightarrow> Some None)"

definition openWriteNonBlock ::
  "string \<Rightarrow> 'a options_scheme \<Rightarrow> open_result list \<Rightarrow> 64 word \<times> 64 word \<times> 64 word \<Rightarrow> nat option option result" where
  "openWriteNonBlock err p attempts sizes =
     (case open_loop (sint (op_numberRepeatENXIO p)) 0 attempts of
        None \<Rightarrow> Inr None
      | Some None \<Rightarrow> Inr (Some None)
      | Some (Some fd) \<Rightarrow>
          (case sizes of (currentSz, ret, newSz) \<Rightarrow>
             bindE (setPipeSize err p currentSz ret newSz) (\<lambda>_. Inr (Some (Some fd)))))"

text \<open>The destructor of \<open>CloseFileDescriptor\<close>: the descriptors that it closes.\<close>

definition CloseFileDescriptor :: "nat option \<Rightarrow> nat list" where
  "CloseFileDescriptor fd = (case fd of None \<Rightarrow> [] | Some n \<Rightarrow> [n])"

definition onExit ::
  "string \<Rightarrow> 'a options_scheme \<Rightarrow> open_result list \<Rightarrow> 64 word \<times> 64 word \<times> 64 word \<Rightarrow> nat list option result" where
  "onExit err p attempts sizes =
     bindE (openWriteNonBlock err p attempts sizes) (\<lambda>r. Inr (map_option CloseFileDescriptor r))"

text \<open>
  The loop is the first result other than \<open>Enxio\<close> among as many attempts as it makes, which are one
  and the repetitions of the option.
\<close>

lemma open_loop_spec:
  "open_loop numberRepeat rep rs =
     (let n = Suc (nat (numberRepeat - rep)) in
      case dropWhile (\<lambda>r. r = Enxio) (take n rs) of
        [] \<Rightarrow> if n \<le> length rs then Some None else None
      | r # _ \<Rightarrow> Some (case r of Opened fd \<Rightarrow> Some fd | _ \<Rightarrow> None))"
proof (induction rs arbitrary: rep)
  case (Cons r rs)
  show ?case
  proof (cases "r = Enxio \<and> rep < numberRepeat")
    case True
    then have "nat (numberRepeat - rep) = Suc (nat (numberRepeat - (rep + 1)))" by arith
    then show ?thesis using True by (simp add: Cons.IH Let_def)
  next
    case False
    then show ?thesis by (cases r) (simp_all add: Let_def)
  qed
qed simp

text \<open>
  Opening a pipe for writing always ends, after at most as many attempts as the option allows and
  one more, with the first result other than \<open>ENXIO\<close>; an error of the size is no error of opening.
\<close>

theorem openWriteNonBlock_bounded:
  assumes "op_setPipeSize p \<longrightarrow> currentSz \<noteq> - 1" and "nat (sint (op_numberRepeatENXIO p)) < length attempts"
  shows "openWriteNonBlock err p attempts (currentSz, ret, newSz) = Inr (Some
    (case dropWhile (\<lambda>r. r = Enxio) (take (Suc (nat (sint (op_numberRepeatENXIO p)))) attempts) of
       Opened n # _ \<Rightarrow> Some n | _ \<Rightarrow> None))"
proof -
  have "\<exists>b. setPipeSize err p currentSz ret newSz = Inr b"
    using assms(1) by (auto simp: setPipeSize_def)
  then show ?thesis
    using assms(2) by (auto simp: openWriteNonBlock_def open_loop_spec Let_def
        simp del: dropWhile_eq_Nil_conv split: list.splits open_result.splits)
qed

subsection \<open>Pipes in the directory\<close>

text \<open>
  The directory of the pipes as its entries; a removal that fails is logged and the loop goes on.
  \<open>mkfifo\<close> makes the pipe, finds it there, or fails.
\<close>

record dir_entry =
  de_name :: string
  de_fifo :: bool
  de_removable :: bool

definition removeFifoFiles :: "dir_entry list \<Rightarrow> dir_entry list" where
  "removeFifoFiles entries = filter (\<lambda>e. \<not> (de_fifo e \<and> de_removable e)) entries"

datatype mkfifo_result = Made | Already_There | Mkfifo_Error

definition mkfifo :: "string \<Rightarrow> mkfifo_result \<Rightarrow> dir_entry list \<Rightarrow> dir_entry list \<times> bool" where
  "mkfifo name r entries =
     (case r of
        Made \<Rightarrow> (\<lparr>de_name = name, de_fifo = True, de_removable = True\<rparr> # entries, True)
      | Already_There \<Rightarrow> (entries, True)
      | Mkfifo_Error \<Rightarrow> (entries, False))"

definition FifoAcceptor_start :: "'a options_scheme \<Rightarrow> mkfifo_result \<Rightarrow> dir_entry list \<Rightarrow> dir_entry list \<times> bool" where
  "FifoAcceptor_start p r entries = mkfifo (op_acceptorName p) r (removeFifoFiles entries)"

definition session_fifoName :: "'a options_scheme \<Rightarrow> nat \<Rightarrow> string" where
  "session_fifoName p clientId = op_fifoDirectoryName p @ ''/'' @ toCharsBoost clientId False"

definition FifoSession_start :: "'a options_scheme \<Rightarrow> nat \<Rightarrow> mkfifo_result \<Rightarrow> dir_entry list \<Rightarrow> dir_entry list \<times> bool" where
  "FifoSession_start p clientId r entries = mkfifo (session_fifoName p clientId) r entries"

definition FifoSession_end :: "'a options_scheme \<Rightarrow> nat \<Rightarrow> dir_entry list \<Rightarrow> dir_entry list" where
  "FifoSession_end p clientId entries =
     filter (\<lambda>e. \<not> (de_name e = session_fifoName p clientId \<and> de_removable e)) entries"

text \<open>
  After the acceptor has started no pipe is left of an earlier run that could be removed, except
  its own; and a session leaves the directory as it found it.
\<close>

lemma FifoAcceptor_start_clean:
  assumes "FifoAcceptor_start p r entries = (entries', ok)" "e \<in> set entries'" "de_fifo e" "de_removable e"
  shows "ok \<and> r = Made \<and> de_name e = op_acceptorName p"
  using assms by (auto simp: FifoAcceptor_start_def mkfifo_def removeFifoFiles_def split: mkfifo_result.splits)

lemma FifoSession_start_end:
  assumes "\<forall>e \<in> set entries. de_name e \<noteq> session_fifoName p clientId"
  shows "FifoSession_end p clientId (fst (FifoSession_start p clientId r entries)) = entries"
  using assms by (auto simp: FifoSession_end_def FifoSession_start_def mkfifo_def filter_id_conv split: mkfifo_result.splits)

text \<open>
  The names of the pipes of two sessions are different, and the client that is told the number of
  its session opens the pipe of this session.
\<close>

lemma session_fifoName_inj: "session_fifoName p m = session_fifoName p n \<longleftrightarrow> m = n"
  by (simp add: session_fifoName_def inj_to_digits)

lemma processStatus_fifoName:
  assumes "processStatus lib xr q2 type q3 c = Inr (ok, w, c')"
  shows "ct_fifoName c' = ct_fifoName c"
proof -
  have "ct_fifoName c1 = ct_fifoName c0" if "clientKeyExchange lib xr q2 q3 c0 = Inr c1" for c0 c1
    using that by (auto simp: clientKeyExchange_def bindE_Inr_iff split: if_splits)
  then show ?thesis
    using assms by (auto simp: processStatus_def Let_def split: sum.splits if_splits)
qed

lemma client_opens_session_pipe:
  assumes "statusToClient se status = (s, q1, q2, q3)" "header_wf s" "unmarked (serialize s @ q1 @ q2 @ q3)"
    and "concat cs = message_bytes s q1 q2 q3 []" and "ct_fifoName c = []" and "ct_status c = ST_NONE"
    and received: "fifo_receiveStatus lib xr (op_fifoDirectoryName p) True (map Read_Bytes cs) c = Inr (Some (True, w, c'))"
  shows "ct_fifoName c' = session_fifoName p (se_clientId se)"
proof -
  have sizes: "field1_size s = length q1" "field2_size s = length q2" "field3_size s = length q3"
    and q1: "q1 = toCharsBoost (se_clientId se) False"
    using assms(1) by (auto simp: statusToClient_def keyExchangeHeader_def)
  have "concat cs = (serialize s @ q1 @ q2 @ q3) @ ENDOFMESSAGE"
    using assms(4) by (simp add: message_bytes_def)
  from fifo_readMessage_chunks [OF assms(3) this] processMessage_three [OF assms(2) sizes]
  have "fifo_readMessage True True (map Read_Bytes cs) (ct_header c) [[], [], []] =
      Inr (Some (received_header s, [q1, q2, q3], True))" by simp
  then show ?thesis
    using received assms(5,6) q1
    by (auto simp: fifo_receiveStatus_def take_status_def bindE_Inr_iff session_fifoName_def
        dest!: processStatus_fifoName)
qed

subsection \<open>Sockets\<close>

text \<open>
  The address is converted once, by the first call; only this call sees that it is no address. What
  is written to the log is the level.
\<close>

definition setSocket ::
  "bool \<Rightarrow> asio_error option \<Rightarrow> asio_error option \<Rightarrow> asio_error option \<Rightarrow> bool \<times> LOG_LEVEL option" where
  "setSocket first address_ec connect_ec option_ec =
     (if first \<and> address_ec \<noteq> None then
        (False, Some (if address_ec = Some Connection_Refused then INFO else ERROR))
      else case connect_ec of
        Some ec \<Rightarrow>
          (False, Some (if ec \<in> {Eof, Connection_Refused, Connection_Reset, Broken_Pipe} then INFO else WARN))
      | None \<Rightarrow>
          (case option_ec of
             Some ec \<Rightarrow> (False, if ec = Connection_Reset then Some INFO else None)
           | None \<Rightarrow> (True, None)))"

lemma setSocket_iff:
  "fst (setSocket first a c r) \<longleftrightarrow> \<not> (first \<and> a \<noteq> None) \<and> c = None \<and> r = None"
  by (auto simp: setSocket_def split: option.splits)

datatype socket_call = Shutdown_Both | Close_Socket

definition shutdownSocket :: "asio_error option \<Rightarrow> socket_call list" where
  "shutdownSocket ec = Shutdown_Both # (if ec = None then [Close_Socket] else [])"

subsection \<open>Witnesses\<close>

lemma openWriteNonBlock_bounded_witness:
  "openWriteNonBlock ''EBADF'' (demo_server_options\<lparr>op_numberRepeatENXIO := 2\<rparr>) [Enxio, Enxio, Opened 7, Opened 8] (65536, 0, 65536) =
     Inr (Some (Some 7))"
  using openWriteNonBlock_bounded [of "demo_server_options\<lparr>op_numberRepeatENXIO := 2\<rparr>" 65536 "[Enxio, Enxio, Opened 7, Opened 8]"]
  by (simp add: demo_server_options_def)

end
