(* ===== verification/Heartbeat.thy ===== *)
theory Heartbeat
  imports Transport
begin

section \<open>The heartbeat of a client (TcpClientHeartbeat)\<close>

text \<open>
  A client may run a heartbeat in a thread of its pool: every period it connects to the server,
  sends a header and waits for the header to come back. The status of the heartbeat is what
  \<open>Client::printReply\<close> asks before it prints a reply.

  As for a TCP session the handlers are functions and \<open>heartbeat_step\<close> runs them: the handlers that
  were posted, the operation on the socket, the two timers. The calls that block the thread are
  arguments of the handlers; \<open>None\<close> for the wait in \<open>read\<close> says that nothing ever arrives, and then
  the thread is blocked for good. That a timer is cancelled or not is read off its flag: it is up from
  the start of a wait until the wait has expired or was cancelled.
  The headers that were written whole and the stars that were printed are recorded.
\<close>

datatype heartbeat_handler = B_write | B_stop | B_cancel

datatype heartbeat_op = Beat_write HEADER | Beat_read

record heartbeat =
  hb_posted :: "heartbeat_handler list"
  hb_ops :: "heartbeat_op list"
  hb_period :: bool
  hb_timeout :: bool
  hb_stopped :: bool
  hb_status :: STATUS
  hb_blocked :: bool
  hb_exit :: "exn option"
  hb_connects :: nat
  hb_sent :: "HEADER list"
  hb_stars :: nat

subsection \<open>Handlers\<close>

definition hb_post :: "heartbeat_handler \<Rightarrow> heartbeat \<Rightarrow> heartbeat" where
  "hb_post h hb = hb\<lparr>hb_posted := hb_posted hb @ [h]\<rparr>"

text \<open>The constructor and \<open>start\<close>.\<close>

definition heartbeat_start :: heartbeat where
  "heartbeat_start = \<lparr>hb_posted = [B_write], hb_ops = [], hb_period = False, hb_timeout = False,
     hb_stopped = False, hb_status = ST_NONE, hb_blocked = False, hb_exit = None, hb_connects = 0,
     hb_sent = [], hb_stars = 0\<rparr>"

definition heartbeat_stop :: "heartbeat \<Rightarrow> heartbeat" where
  "heartbeat_stop hb = hb_post B_cancel (hb\<lparr>hb_stopped := True\<rparr>)"

definition heartbeatWait :: "heartbeat \<Rightarrow> heartbeat" where
  "heartbeatWait hb = hb\<lparr>hb_period := True\<rparr>"

definition timeoutWait :: "heartbeat \<Rightarrow> heartbeat" where
  "timeoutWait hb = hb\<lparr>hb_timeout := True\<rparr>"

definition cancel_timers :: "heartbeat \<Rightarrow> heartbeat" where
  "cancel_timers hb = hb\<lparr>hb_period := False, hb_timeout := False\<rparr>"

definition heartbeatHeader :: "heartbeat \<Rightarrow> HEADER" where
  "heartbeatHeader hb = heartbeat_header (hb_status hb)"

text \<open>\<open>linked\<close> is what \<open>Tcp::setSocket\<close> returns, \<open>wait_ec\<close> the error of the wait.\<close>

definition heartbeat_write :: "bool \<Rightarrow> asio_error option \<Rightarrow> heartbeat \<Rightarrow> heartbeat" where
  "heartbeat_write linked wait_ec hb =
     (let hb = timeoutWait hb; hb = hb\<lparr>hb_connects := hb_connects hb + 1\<rparr> in
      if \<not> linked then hb
      else if wait_ec \<noteq> None then hb
      else hb\<lparr>hb_ops := hb_ops hb @ [Beat_write (heartbeatHeader hb)]\<rparr>)"

definition heartbeat_read :: "asio_error option option \<Rightarrow> heartbeat \<Rightarrow> heartbeat" where
  "heartbeat_read wait hb =
     (case wait of
        None \<Rightarrow> hb\<lparr>hb_blocked := True\<rparr>
      | Some (Some ec) \<Rightarrow> hb
      | Some None \<Rightarrow> hb\<lparr>hb_ops := hb_ops hb @ [Beat_read]\<rparr>)"

definition on_beat_written ::
  "asio_error option \<Rightarrow> asio_error option option \<Rightarrow> HEADER \<Rightarrow> heartbeat \<Rightarrow> heartbeat" where
  "on_beat_written ec wait h hb =
     (if ec \<noteq> None then hb\<lparr>hb_status := HEARTBEAT_PROBLEM\<rparr>
      else heartbeat_read wait (hb\<lparr>hb_sent := hb_sent hb @ [h]\<rparr>))"

text \<open>
  The handler of the read, for the contents of the buffer. The marker is only taken off the view;
  the header is read from the beginning of the buffer. An error replaces a timeout as the status.
\<close>

definition cancel_timeout :: "heartbeat \<Rightarrow> heartbeat" where
  "cancel_timeout hb = (if hb_timeout hb then hb else hb\<lparr>hb_status := HEARTBEAT_TIMEOUT\<rparr>)\<lparr>hb_timeout := False\<rparr>"

definition on_beat_read :: "asio_error option \<Rightarrow> string \<Rightarrow> HEADER \<Rightarrow> heartbeat \<Rightarrow> heartbeat result" where
  "on_beat_read ec buffer fresh hb =
     (if hb_stopped hb then Inr hb
      else
        let hb = cancel_timeout hb
        in if ec \<noteq> None then Inr (hb_post B_stop (hb\<lparr>hb_status := HEARTBEAT_PROBLEM\<rparr>))
           else bindE (deserialize fresh buffer) (\<lambda>(header, ok).
             if \<not> ok then Inr hb
             else if \<not> isOk header then Inr hb
             else Inr (heartbeatWait (hb\<lparr>hb_stars := hb_stars hb + 1\<rparr>))))"

text \<open>The period has ended.\<close>

definition on_period :: "bool \<Rightarrow> asio_error option \<Rightarrow> heartbeat \<Rightarrow> heartbeat" where
  "on_period linked wait_ec hb =
     (let hb = hb\<lparr>hb_period := False\<rparr> in
      if hb_stopped hb then hb else heartbeat_write linked wait_ec hb)"

subsection \<open>Steps\<close>

definition beat_running :: "heartbeat \<Rightarrow> bool" where
  "beat_running hb \<longleftrightarrow> hb_exit hb = None \<and> \<not> hb_blocked hb"

definition beat_leave :: "heartbeat result \<Rightarrow> heartbeat \<Rightarrow> heartbeat" where
  "beat_leave r hb = (case r of Inl e \<Rightarrow> hb\<lparr>hb_exit := Some e\<rparr> | Inr hb' \<Rightarrow> hb')"

inductive beat_internal :: "heartbeat \<Rightarrow> heartbeat \<Rightarrow> bool" where
  posted_write: "beat_running hb \<Longrightarrow> hb_posted hb = B_write # hs \<Longrightarrow>
    beat_internal hb (heartbeat_write linked wait_ec (hb\<lparr>hb_posted := hs\<rparr>))"
| posted_stop: "beat_running hb \<Longrightarrow> hb_posted hb = B_stop # hs \<Longrightarrow>
    beat_internal hb (heartbeat_stop (hb\<lparr>hb_posted := hs\<rparr>))"
| posted_cancel: "beat_running hb \<Longrightarrow> hb_posted hb = B_cancel # hs \<Longrightarrow>
    beat_internal hb (cancel_timers (hb\<lparr>hb_posted := hs\<rparr>))"
| written: "beat_running hb \<Longrightarrow> hb_ops hb = Beat_write h # ops \<Longrightarrow>
    beat_internal hb (on_beat_written ec wait h (hb\<lparr>hb_ops := ops\<rparr>))"
| read: "beat_running hb \<Longrightarrow> hb_ops hb = Beat_read # ops \<Longrightarrow>
    ec = None \<longrightarrow> find_str ENDOFMESSAGE buffer \<noteq> None \<Longrightarrow>
    beat_internal hb (beat_leave (on_beat_read ec buffer fresh (hb\<lparr>hb_ops := ops\<rparr>)) hb)"
| period: "beat_running hb \<Longrightarrow> hb_period hb \<Longrightarrow> beat_internal hb (on_period linked wait_ec hb)"
| timeout: "beat_running hb \<Longrightarrow> hb_timeout hb \<Longrightarrow> beat_internal hb (hb\<lparr>hb_timeout := False\<rparr>)"

text \<open>\<open>Client::stop\<close> calls \<open>stop\<close> from another thread at any time.\<close>

inductive beat_step :: "heartbeat \<Rightarrow> heartbeat \<Rightarrow> bool" where
  internal: "beat_internal hb hb' \<Longrightarrow> beat_step hb hb'"
| client_stop: "beat_step hb (heartbeat_stop hb)"

inductive beat_reach :: "heartbeat \<Rightarrow> bool" where
  start: "beat_reach heartbeat_start"
| step: "beat_reach hb \<Longrightarrow> beat_step hb hb' \<Longrightarrow> beat_reach hb'"

inductive_cases beat_internalE: "beat_internal hb hb'"
inductive_cases beat_stepE: "beat_step hb hb'"

lemmas beat_defs = hb_post_def heartbeat_stop_def heartbeatWait_def timeoutWait_def cancel_timers_def
  heartbeatHeader_def heartbeat_write_def heartbeat_read_def on_beat_written_def on_period_def
  beat_leave_def beat_running_def Let_def

subsection \<open>One beat at a time\<close>

definition beat_inv :: "heartbeat \<Rightarrow> bool" where
  "beat_inv hb \<longleftrightarrow>
     hb_status hb \<in> {ST_NONE, HEARTBEAT_PROBLEM, HEARTBEAT_TIMEOUT} \<and>
     hb_stars hb \<le> length (hb_sent hb) \<and> length (hb_sent hb) \<le> hb_connects hb \<and> hb_connects hb \<le> hb_stars hb + 1 \<and>
     (\<forall>h \<in> set (hb_sent hb). \<exists>status. h = heartbeat_header status) \<and>
     (B_write \<in> set (hb_posted hb) \<and> count_list (hb_posted hb) B_write = 1 \<and> hb_connects hb = 0 \<and>
        hb_ops hb = [] \<and> \<not> hb_period hb \<or>
      B_write \<notin> set (hb_posted hb) \<and> hb_ops hb = [] \<and> (hb_period hb \<longrightarrow> hb_connects hb = hb_stars hb) \<or>
      B_write \<notin> set (hb_posted hb) \<and> (\<exists>status. hb_ops hb = [Beat_write (heartbeat_header status)]) \<and>
        \<not> hb_period hb \<and> hb_connects hb = hb_stars hb + 1 \<and> length (hb_sent hb) = hb_stars hb \<or>
      B_write \<notin> set (hb_posted hb) \<and> hb_ops hb = [Beat_read] \<and>
        \<not> hb_period hb \<and> hb_connects hb = hb_stars hb + 1 \<and> length (hb_sent hb) = hb_stars hb + 1)"

lemma beat_inv_start: "beat_inv heartbeat_start"
  by (simp add: beat_inv_def heartbeat_start_def)

lemma count_list_0: "x \<notin> set xs \<longleftrightarrow> count_list xs x = 0"
  by (simp add: count_list_0_iff)

lemma beat_inv_stop: "beat_inv hb \<Longrightarrow> beat_inv (heartbeat_stop hb)"
  by (auto simp: beat_inv_def beat_defs)

lemma on_beat_read_result:
  assumes "on_beat_read ec buffer fresh hb = Inr hb'"
  shows "hb_ops hb' = hb_ops hb" "hb_connects hb' = hb_connects hb" "hb_sent hb' = hb_sent hb"
    "hb_posted hb' = hb_posted hb \<or> hb_posted hb' = hb_posted hb @ [B_stop]"
    "hb_status hb' \<in> {hb_status hb, HEARTBEAT_TIMEOUT, HEARTBEAT_PROBLEM}"
    "hb_period hb' = hb_period hb \<and> hb_stars hb' = hb_stars hb \<or> hb_period hb' \<and> hb_stars hb' = hb_stars hb + 1"
proof -
  let ?h = "cancel_timeout hb"
  consider "hb' = hb" | "hb' = hb_post B_stop (?h\<lparr>hb_status := HEARTBEAT_PROBLEM\<rparr>)" | "hb' = ?h"
    | "hb' = heartbeatWait (?h\<lparr>hb_stars := hb_stars ?h + 1\<rparr>)"
    using assms by (auto simp: on_beat_read_def Let_def bindE_Inr_iff split: if_splits)
  then show "hb_ops hb' = hb_ops hb" "hb_connects hb' = hb_connects hb" "hb_sent hb' = hb_sent hb"
    "hb_posted hb' = hb_posted hb \<or> hb_posted hb' = hb_posted hb @ [B_stop]"
    "hb_status hb' \<in> {hb_status hb, HEARTBEAT_TIMEOUT, HEARTBEAT_PROBLEM}"
    "hb_period hb' = hb_period hb \<and> hb_stars hb' = hb_stars hb \<or> hb_period hb' \<and> hb_stars hb' = hb_stars hb + 1"
    by (cases; simp add: cancel_timeout_def hb_post_def heartbeatWait_def)+
qed

lemma beat_inv_internal:
  assumes "beat_internal hb hb'" "beat_inv hb"
  shows "beat_inv hb'"
  using assms
proof (cases rule: beat_internal.cases)
  case (posted_write hs linked wait_ec)
  then have "B_write \<notin> set hs" using assms(2) by (auto simp: beat_inv_def count_list_0)
  then show ?thesis using posted_write assms(2) by (auto simp: beat_inv_def beat_defs)
next
  case (posted_stop hs)
  then show ?thesis using assms(2) by (auto simp: beat_inv_def beat_defs)
next
  case (posted_cancel hs)
  then show ?thesis using assms(2) by (auto simp: beat_inv_def beat_defs split: if_splits)
next
  case (written h ops ec wait)
  then show ?thesis using assms(2) by (auto simp: beat_inv_def beat_defs split: option.splits)
next
  case (read ops ec buffer fresh)
  have ops: "ops = []" "B_write \<notin> set (hb_posted hb)" "\<not> hb_period hb" "hb_connects hb = hb_stars hb + 1"
      "length (hb_sent hb) = hb_stars hb + 1"
    using read(3) assms(2) by (auto simp: beat_inv_def)
  show ?thesis
  proof (cases "on_beat_read ec buffer fresh (hb\<lparr>hb_ops := ops\<rparr>)")
    case (Inl e)
    then show ?thesis using read(1) assms(2) by (simp add: beat_leave_def beat_inv_def)
  next
    case (Inr hb2)
    from on_beat_read_result [OF this] show ?thesis
      using Inr read(1) ops assms(2) by (auto simp: beat_leave_def beat_inv_def)
  qed
next
  case (period linked wait_ec)
  then show ?thesis using assms(2) by (auto simp: beat_inv_def beat_defs split: if_splits list.splits)
next
  case timeout
  then show ?thesis using assms(2) by (auto simp: beat_inv_def)
qed

lemma beat_reach_inv: "beat_reach hb \<Longrightarrow> beat_inv hb"
  by (induction rule: beat_reach.induct)
    (auto intro: beat_inv_start beat_inv_stop beat_inv_internal elim: beat_stepE)

text \<open>
  C36: Whatever happens to the connections, beats do not overlap: at most one is without an answer, every
  star stands for a header that was sent and came back, and the status is one of three.
\<close>

theorem heartbeat_one_at_a_time:
  assumes "beat_reach hb"
  shows "hb_stars hb \<le> length (hb_sent hb) \<and> length (hb_sent hb) \<le> hb_connects hb \<and>
    hb_connects hb \<le> hb_stars hb + 1 \<and> length (hb_ops hb) \<le> 1 \<and> (hb_ops hb \<noteq> [] \<longrightarrow> \<not> hb_period hb) \<and>
    hb_status hb \<in> {ST_NONE, HEARTBEAT_PROBLEM, HEARTBEAT_TIMEOUT}"
  using beat_reach_inv [OF assms] by (auto simp: beat_inv_def)

subsection \<open>A beat through the server\<close>

lemma heartbeat_header_facts [simp]:
  "header_type (heartbeat_header status) = HEARTBEAT" "header_compressor (heartbeat_header status) = COMPR_NONE"
  "field1_size (heartbeat_header status) = 0" "field2_size (heartbeat_header status) = 0"
  "field3_size (heartbeat_header status) = 0" "header_status (heartbeat_header status) = status"
  "received_header (heartbeat_header status) = heartbeat_header status"
  by (simp_all add: heartbeat_header_def received_header_def)

lemma heartbeat_header_wf: "status \<notin> {ST_INVALIDLOW, ST_INVALIDHIGH} \<Longrightarrow> header_wf (heartbeat_header status)"
  by (simp add: heartbeat_header_def header_wf_def)

lemma heartbeat_unmarked:
  "status \<in> {ST_NONE, HEARTBEAT_PROBLEM, HEARTBEAT_TIMEOUT} \<Longrightarrow> unmarked (serialize (heartbeat_header status))"
proof -
  have "unmarked (serialize (heartbeat_header ST_NONE)) \<and> unmarked (serialize (heartbeat_header HEARTBEAT_PROBLEM)) \<and>
      unmarked (serialize (heartbeat_header HEARTBEAT_TIMEOUT))"
    by code_simp
  then show "status \<in> {ST_NONE, HEARTBEAT_PROBLEM, HEARTBEAT_TIMEOUT} \<Longrightarrow> ?thesis" by auto
qed

lemma isOk_iff: "isOk h \<longleftrightarrow> header_status h \<in> {ST_NONE, MAX_TOTAL_OBJECTS, MAX_OBJECTS_OF_TYPE}"
  by (simp add: isOk_def extractStatus_def split: STATUS.split)

lemma on_beat_read_echo:
  assumes "\<not> hb_stopped hb" and "status \<notin> {ST_INVALIDLOW, ST_INVALIDHIGH}"
  shows "on_beat_read None (message_bytes (heartbeat_header status) [] [] [] []) fresh hb =
    Inr (if isOk (heartbeat_header status)
         then heartbeatWait ((cancel_timeout hb)\<lparr>hb_stars := hb_stars hb + 1\<rparr>) else cancel_timeout hb)"
proof -
  have "deserialize fresh (message_bytes (heartbeat_header status) [] [] [] []) = Inr (heartbeat_header status, True)"
    using deserialize_serialize_rest [OF heartbeat_header_wf [OF assms(2)], of fresh ENDOFMESSAGE]
    by (simp add: message_bytes_def heartbeat_header_def)
  moreover have "hb_stars (cancel_timeout hb) = hb_stars hb" by (simp add: cancel_timeout_def)
  ultimately show ?thesis using assms(1) by (simp add: on_beat_read_def Let_def isOk_iff)
qed

text \<open>
  C35: A beat that is answered in time: the header that the client writes reaches the acceptor in whatever
  pieces, the acceptor answers it and goes on, and the answer makes the client wait for the next
  period with its status unchanged.
\<close>

theorem heartbeat_exchange:
  assumes hb: "hb_ops hb = []" "hb_status hb = ST_NONE" "\<not> hb_stopped hb" and h: "h = heartbeatHeader hb"
    and cs: "concat cs = message_bytes h [] [] [] []"
    and acceptor: "tcp_acceptor_run cfg es h sv = (sv', replies, exit)"
  shows "\<exists>reply hb1 hb2. heartbeat_write True None hb = hb1 \<and> hb_ops hb1 = [Beat_write h] \<and>
    on_beat_written None (Some None) h (hb1\<lparr>hb_ops := []\<rparr>) = hb2 \<and> hb_ops hb2 = [Beat_read] \<and>
    tcp_acceptor_run cfg (Connected cs errorString # es) h0 sv = (sv', reply # replies, exit) \<and>
    on_beat_read None reply fresh (hb2\<lparr>hb_ops := []\<rparr>) =
      Inr (hb\<lparr>hb_connects := hb_connects hb + 1, hb_sent := hb_sent hb @ [h], hb_timeout := False,
        hb_stars := hb_stars hb + 1, hb_period := True\<rparr>)"
proof -
  have h': "h = heartbeat_header ST_NONE" using h hb(2) by (simp add: heartbeatHeader_def)
  let ?hb1 = "heartbeat_write True None hb"
  let ?hb2 = "on_beat_written None (Some None) h (?hb1\<lparr>hb_ops := []\<rparr>)"
  have "hb_ops ?hb1 = [Beat_write h]" "hb_ops ?hb2 = [Beat_read]" "\<not> hb_stopped (?hb2\<lparr>hb_ops := []\<rparr>)"
    using hb h by (simp_all add: beat_defs)
  moreover have "tcp_acceptor_run cfg (Connected cs errorString # es) h0 sv =
      (sv', message_bytes h [] [] [] [] # replies, exit)"
    using heartbeat_answered [of h cs cfg es sv sv' replies exit errorString h0] cs acceptor heartbeat_unmarked [of ST_NONE]
    by (simp add: h' heartbeat_header_wf)
  moreover have "on_beat_read None (message_bytes h [] [] [] []) fresh (?hb2\<lparr>hb_ops := []\<rparr>) =
      Inr (hb\<lparr>hb_connects := hb_connects hb + 1, hb_sent := hb_sent hb @ [h], hb_timeout := False,
        hb_stars := hb_stars hb + 1, hb_period := True\<rparr>)"
    unfolding h' by (subst on_beat_read_echo)
      (use hb in \<open>simp_all add: isOk_iff beat_defs cancel_timeout_def\<close>)
  ultimately show ?thesis by blast
qed

text \<open>
  A beat that comes back late is the last but one: the status goes into the next header, which the
  client then refuses as invalid, and nothing is left that would start another beat.
\<close>

theorem late_beat_ends:
  assumes "beat_reach hb" "hb_ops hb = [Beat_read]" "\<not> hb_stopped hb"
    and "hb_sent hb \<noteq> []" "last (hb_sent hb) = heartbeat_header HEARTBEAT_TIMEOUT"
  shows "\<exists>hb'. on_beat_read None (message_bytes (last (hb_sent hb)) [] [] [] []) fresh (hb\<lparr>hb_ops := []\<rparr>) = Inr hb' \<and>
    hb_stars hb' = hb_stars hb \<and> B_write \<notin> set (hb_posted hb') \<and> hb_ops hb' = [] \<and> \<not> hb_period hb'"
proof -
  have "B_write \<notin> set (hb_posted hb)" "\<not> hb_period hb"
    using beat_reach_inv [OF assms(1)] assms(2) by (auto simp: beat_inv_def)
  moreover have "on_beat_read None (message_bytes (last (hb_sent hb)) [] [] [] []) fresh (hb\<lparr>hb_ops := []\<rparr>) =
      Inr (cancel_timeout (hb\<lparr>hb_ops := []\<rparr>))"
    unfolding assms(5) by (subst on_beat_read_echo) (use assms(3) in \<open>simp_all add: isOk_iff\<close>)
  ultimately show ?thesis by (simp add: cancel_timeout_def)
qed

subsection \<open>Failures that nobody sees\<close>

text \<open>
  A server that takes the connection and never answers, and a server that is not there: in the first
  case the thread blocks in the wait before the read, so the timer never gets a turn; in the second
  nothing is left to do. In both the status stays what it was, and \<open>printReply\<close> sees no problem.
\<close>

theorem dead_server_unnoticed:
  "(\<exists>hb. beat_reach hb \<and> hb_blocked hb \<and> hb_timeout hb \<and> \<not> snd (displayStatus (hb_status hb)) \<and>
      (\<nexists>hb'. beat_internal hb hb')) \<and>
   (\<exists>hb. beat_reach hb \<and> hb_sent hb = [] \<and> beat_running hb \<and> \<not> snd (displayStatus (hb_status hb)) \<and>
      (\<nexists>hb'. beat_internal hb hb'))"
proof
  let ?h1 = "heartbeat_write True None (heartbeat_start\<lparr>hb_posted := []\<rparr>)"
  let ?h2 = "on_beat_written None None (heartbeat_header ST_NONE) (?h1\<lparr>hb_ops := []\<rparr>)"
  have "beat_reach ?h1"
    by (rule beat_reach.step [OF beat_reach.start beat_step.internal], rule beat_internal.posted_write)
      (simp_all add: heartbeat_start_def beat_running_def)
  then have "beat_reach ?h2"
    by (rule beat_reach.step [OF _ beat_step.internal], intro beat_internal.written)
      (simp_all add: heartbeat_start_def beat_defs)
  moreover have "hb_blocked ?h2 \<and> hb_timeout ?h2 \<and> \<not> snd (displayStatus (hb_status ?h2)) \<and> \<not> beat_running ?h2"
    by (simp add: heartbeat_start_def beat_defs displayStatus_def)
  ultimately show "\<exists>hb. beat_reach hb \<and> hb_blocked hb \<and> hb_timeout hb \<and> \<not> snd (displayStatus (hb_status hb)) \<and>
      (\<nexists>hb'. beat_internal hb hb')"
    by (auto elim: beat_internalE)
next
  let ?h1 = "heartbeat_write False None (heartbeat_start\<lparr>hb_posted := []\<rparr>)"
  let ?h2 = "?h1\<lparr>hb_timeout := False\<rparr>"
  have "beat_reach ?h1"
    by (rule beat_reach.step [OF beat_reach.start beat_step.internal], rule beat_internal.posted_write)
      (simp_all add: heartbeat_start_def beat_running_def)
  then have "beat_reach ?h2"
    by (rule beat_reach.step [OF _ beat_step.internal], intro beat_internal.timeout)
      (simp_all add: heartbeat_start_def beat_defs)
  moreover have "hb_sent ?h2 = [] \<and> beat_running ?h2 \<and> \<not> snd (displayStatus (hb_status ?h2)) \<and>
      hb_posted ?h2 = [] \<and> hb_ops ?h2 = [] \<and> \<not> hb_period ?h2 \<and> \<not> hb_timeout ?h2"
    by (simp add: heartbeat_start_def beat_defs displayStatus_def)
  ultimately show "\<exists>hb. beat_reach hb \<and> hb_sent hb = [] \<and> beat_running hb \<and> \<not> snd (displayStatus (hb_status hb)) \<and>
      (\<nexists>hb'. beat_internal hb hb')"
    by (intro exI [of _ ?h2]) (auto elim: beat_internalE)
qed

subsection \<open>After stop\<close>

fun handler_weight :: "heartbeat_handler \<Rightarrow> nat" where
  "handler_weight B_write = 5" | "handler_weight B_stop = 2" | "handler_weight B_cancel = 1"

fun op_weight :: "heartbeat_op \<Rightarrow> nat" where
  "op_weight (Beat_write _) = 3" | "op_weight Beat_read = 2"

definition beat_left :: "heartbeat \<Rightarrow> nat" where
  "beat_left hb = (if beat_running hb then
     1 + sum_list (map handler_weight (hb_posted hb)) + sum_list (map op_weight (hb_ops hb)) +
       of_bool (hb_period hb) + of_bool (hb_timeout hb) else 0)"

lemma beat_left_less:
  assumes "beat_internal hb hb'" "hb_stopped hb"
  shows "beat_left hb' < beat_left hb \<and> hb_stopped hb'"
  using assms
proof (cases rule: beat_internal.cases)
  case (read ops ec buffer fresh)
  then show ?thesis using assms(2) by (simp add: beat_left_def on_beat_read_def beat_leave_def beat_running_def)
qed (auto simp: beat_left_def beat_defs split: option.split)

text \<open>
  A heartbeat that was stopped comes to rest after finitely many steps, and one that rests without
  being blocked has nothing left: \<open>run\<close> has returned and the thread can be joined.
\<close>

theorem stopped_heartbeat_ends:
  "wf {(hb', hb). hb_stopped hb \<and> beat_internal hb hb'} \<and>
   ((\<nexists>hb'. beat_internal hb hb') \<and> beat_running hb \<longrightarrow>
      hb_posted hb = [] \<and> hb_ops hb = [] \<and> \<not> hb_period hb \<and> \<not> hb_timeout hb)"
proof
  show "wf {(hb', hb). hb_stopped hb \<and> beat_internal hb hb'}"
    by (rule wf_subset [OF wf_measure [of beat_left]]) (auto dest: beat_left_less)
next
  show "(\<nexists>hb'. beat_internal hb hb') \<and> beat_running hb \<longrightarrow>
      hb_posted hb = [] \<and> hb_ops hb = [] \<and> \<not> hb_period hb \<and> \<not> hb_timeout hb"
  proof (intro impI conjI; elim conjE)
    assume stuck: "\<nexists>hb'. beat_internal hb hb'" and running: "beat_running hb"
    show "hb_posted hb = []"
    proof (cases "hb_posted hb")
      case (Cons h hs)
      then show ?thesis using stuck running
        by (cases h) (blast intro: beat_internal.posted_write beat_internal.posted_stop beat_internal.posted_cancel)+
    qed simp
    show "hb_ops hb = []"
    proof (cases "hb_ops hb")
      case (Cons op ops)
      then show ?thesis using stuck running
        by (cases op) (blast intro: beat_internal.written beat_internal.read [where ec = "Some Eof"])+
    qed simp
    show "\<not> hb_period hb" "\<not> hb_timeout hb"
      using stuck running by (blast intro: beat_internal.period beat_internal.timeout)+
  qed
qed

subsection \<open>Witnesses\<close>

text \<open>A heartbeat whose first beat came back late and whose second one is under way.\<close>

definition late_beat :: heartbeat where
  "late_beat = \<lparr>hb_posted = [], hb_ops = [Beat_read], hb_period = False, hb_timeout = True, hb_stopped = False,
     hb_status = HEARTBEAT_TIMEOUT, hb_blocked = False, hb_exit = None, hb_connects = 2,
     hb_sent = [heartbeat_header ST_NONE, heartbeat_header HEARTBEAT_TIMEOUT], hb_stars = 1\<rparr>"

lemma late_beat_reach: "beat_reach late_beat"
proof -
  let ?b = "message_bytes (heartbeat_header ST_NONE) [] [] [] []"
  let ?h1 = "heartbeat_start\<lparr>hb_posted := [], hb_ops := [Beat_write (heartbeat_header ST_NONE)], hb_timeout := True, hb_connects := 1\<rparr>"
  let ?h2 = "?h1\<lparr>hb_timeout := False\<rparr>"
  let ?h3 = "?h2\<lparr>hb_ops := [Beat_read], hb_sent := [heartbeat_header ST_NONE]\<rparr>"
  let ?h4 = "?h3\<lparr>hb_ops := [], hb_status := HEARTBEAT_TIMEOUT, hb_stars := 1, hb_period := True\<rparr>"
  let ?h5 = "?h4\<lparr>hb_ops := [Beat_write (heartbeat_header HEARTBEAT_TIMEOUT)], hb_period := False, hb_timeout := True, hb_connects := 2\<rparr>"
  note step = beat_reach.step [OF _ beat_step.internal]
  have 1: "beat_reach ?h1"
    using step [OF beat_reach.start beat_internal.posted_write [of heartbeat_start "[]" True None]]
    by (simp add: heartbeat_start_def beat_defs)
  have 2: "beat_reach ?h2"
    using step [OF 1 beat_internal.timeout] by (simp add: heartbeat_start_def beat_defs)
  have 3: "beat_reach ?h3"
    using step [OF 2 beat_internal.written [where ops = "[]" and h = "heartbeat_header ST_NONE" and ec = None and wait = "Some None"]]
    by (simp add: heartbeat_start_def beat_defs)
  have "find_str ENDOFMESSAGE ?b \<noteq> None" by code_simp
  then have "beat_internal ?h3 ?h4"
    using beat_internal.read [where hb = ?h3 and ops = "[]" and ec = None and buffer = ?b and fresh = demo_header]
    by (simp add: on_beat_read_echo isOk_iff cancel_timeout_def heartbeat_start_def beat_defs)
  then have 4: "beat_reach ?h4" by (rule step [OF 3])
  have 5: "beat_reach ?h5"
    using step [OF 4 beat_internal.period [where linked = True and wait_ec = None]]
    by (simp add: heartbeat_start_def beat_defs numeral_2_eq_2)
  show ?thesis
    using step [OF 5 beat_internal.written [where ops = "[]" and h = "heartbeat_header HEARTBEAT_TIMEOUT" and ec = None and wait = "Some None"]]
    by (simp add: heartbeat_start_def late_beat_def beat_defs numeral_2_eq_2)
qed

lemma heartbeat_one_at_a_time_witness:
  "beat_reach late_beat \<and> length (hb_sent late_beat) = 2 \<and> hb_connects late_beat \<le> hb_stars late_beat + 1 \<and>
    length (hb_ops late_beat) \<le> 1"
  using heartbeat_one_at_a_time [OF late_beat_reach] late_beat_reach by (simp add: late_beat_def)

lemma heartbeat_exchange_witness:
  "\<exists>reply. tcp_acceptor_run demo_server_config
      [Connected [message_bytes (heartbeat_header ST_NONE) [] [] [] []] ''x''] demo_header (Server_new demo_server_config) =
      (Server_new demo_server_config, [reply], Waiting) \<and>
    on_beat_read None reply demo_header (heartbeat_start\<lparr>hb_posted := [], hb_timeout := True, hb_connects := 1,
      hb_sent := [heartbeat_header ST_NONE]\<rparr>) =
    Inr (heartbeat_start\<lparr>hb_posted := [], hb_connects := 1, hb_sent := [heartbeat_header ST_NONE], hb_stars := 1, hb_period := True\<rparr>)"
  using heartbeat_exchange [of "heartbeat_start\<lparr>hb_posted := []\<rparr>" "heartbeat_header ST_NONE"
      "[message_bytes (heartbeat_header ST_NONE) [] [] [] []]" demo_server_config "[]" "Server_new demo_server_config"
      "Server_new demo_server_config" "[]" Waiting "''x''" demo_header demo_header]
  by (simp add: heartbeat_start_def beat_defs)

lemma late_beat_ends_witness:
  "\<exists>hb'. on_beat_read None (message_bytes (heartbeat_header HEARTBEAT_TIMEOUT) [] [] [] []) demo_header
      (late_beat\<lparr>hb_ops := []\<rparr>) = Inr hb' \<and> hb_stars hb' = 1 \<and> hb_ops hb' = [] \<and> \<not> hb_period hb'"
  using late_beat_ends [OF late_beat_reach, of demo_header] by (auto simp: late_beat_def)

lemma stopped_heartbeat_ends_witness:
  "hb_posted (late_beat\<lparr>hb_ops := [], hb_timeout := False, hb_stopped := True\<rparr>) = [] \<and>
    beat_running (late_beat\<lparr>hb_ops := [], hb_timeout := False, hb_stopped := True\<rparr>)"
proof -
  let ?hb = "late_beat\<lparr>hb_ops := [], hb_timeout := False, hb_stopped := True\<rparr>"
  have "\<nexists>hb'. beat_internal ?hb hb'" by (auto simp: late_beat_def elim: beat_internalE)
  moreover have "beat_running ?hb" by (simp add: beat_running_def late_beat_def)
  ultimately show ?thesis using stopped_heartbeat_ends [of ?hb] by blast
qed

end
