(* ===== verification/Client_Life.thy ===== *)
theory Client_Life
  imports Heartbeat
begin

section \<open>The life of a client (Client::start, startHeartbeat, stop)\<close>

text \<open>
  A client has a pool whose threads run its task builder and, if the options ask for it, its
  heartbeat. The main thread goes through the tasks and at last, in the destructor, stops the
  heartbeat, the builder and the pool, in this order, and waits for the threads.

  The state is the pool with the builder as object 0 and the heartbeat as object 1, the two
  objects as their own theories have them, and how far the main thread is. A step of an object
  needs a thread of the pool that runs it, and a thread goes on only when the object's \<open>run\<close> has
  returned. A weak pointer can be locked until the pool has let go of the object.
\<close>

subsection \<open>State\<close>

datatype main_at = M_Run | M_Stop_Heartbeat | M_Stop_Builder | M_Stop_Pool | M_Join | M_Done

record client_sys =
  cs_pool :: pool
  cs_builder :: builder_sys
  cs_heartbeat :: heartbeat
  cs_main :: main_at

text \<open>Neither object counts itself as running: the type of both is without a meaning.\<close>

definition client_object :: runnable where
  "client_object = \<lparr>rn_type = 0, rn_maxNumberRunningByType = MAX_NUMBER_THREADS_DEFAULT, rn_stopped = False,
     rn_status = ST_NONE\<rparr>"

definition startHeartbeat :: "bool \<Rightarrow> pool \<Rightarrow> pool" where
  "startHeartbeat heartbeatEnabled p = (if heartbeatEnabled then fst (base_push 1 p) else p)"

definition Client_start :: "pool \<Rightarrow> pool" where
  "Client_start p = fst (base_push 0 p)"

text \<open>The constructor ends with \<open>startHeartbeat\<close>; \<open>run\<close> begins with \<open>start\<close>.\<close>

definition client_begin :: "bool \<Rightarrow> crypto_tuple \<Rightarrow> client_sys" where
  "client_begin heartbeatEnabled tu =
     \<lparr>cs_pool = Client_start (startHeartbeat heartbeatEnabled (pool_new MAX_NUMBER_THREADS_DEFAULT (\<lambda>_. client_object))),
      cs_builder = builder_start tu, cs_heartbeat = heartbeat_start, cs_main = M_Run\<rparr>"

subsection \<open>Threads of the pool\<close>

text \<open>\<open>io_context::run\<close> returns when there is nothing left to do, or with what a handler throws.\<close>

definition beat_returned :: "heartbeat \<Rightarrow> bool" where
  "beat_returned hb \<longleftrightarrow> hb_exit hb \<noteq> None \<or>
     beat_running hb \<and> hb_posted hb = [] \<and> hb_ops hb = [] \<and> \<not> hb_period hb \<and> \<not> hb_timeout hb"

definition run_returned :: "client_sys \<Rightarrow> nat \<Rightarrow> bool" where
  "run_returned cs r = (if r = 0 then ys_at (cs_builder cs) = B_End else beat_returned (cs_heartbeat cs))"

definition client_thread :: "(nat \<Rightarrow> bool) \<Rightarrow> nat \<Rightarrow> pool \<Rightarrow> pool option" where
  "client_thread returned i p =
     (case p_threads p ! i of
        Idle \<Rightarrow> thread_get base_get i p
      | Taken r \<Rightarrow> Some (set_thread i (Running r) p)
      | Running r \<Rightarrow>
          (if returned r
           then let p = Finally p in
             Some (set_thread i (if p_stopped p then Exited else Idle) (p\<lparr>p_finished := p_finished p @ [r]\<rparr>))
           else None)
      | Exited \<Rightarrow> None)"

definition runs :: "nat \<Rightarrow> client_sys \<Rightarrow> bool" where
  "runs r cs \<longleftrightarrow> Running r \<in> set (p_threads (cs_pool cs))"

definition alive :: "nat \<Rightarrow> client_sys \<Rightarrow> bool" where
  "alive r cs \<longleftrightarrow> r \<in># in_pool (cs_pool cs) \<and> r \<notin> set (p_finished (cs_pool cs))"

definition stop_object :: "nat \<Rightarrow> pool \<Rightarrow> pool" where
  "stop_object r p = p\<lparr>p_objects := (p_objects p)(r := (p_objects p r)\<lparr>rn_stopped := True\<rparr>)\<rparr>"

subsection \<open>Client::stop\<close>

text \<open>The three calls of \<open>stop\<close>; the status and the metrics that it saves play no part here.\<close>

definition stop_heartbeat :: "client_sys \<Rightarrow> client_sys" where
  "stop_heartbeat cs =
     (if alive 1 cs
      then cs\<lparr>cs_heartbeat := heartbeat_stop (cs_heartbeat cs), cs_pool := stop_object 1 (cs_pool cs)\<rparr>
      else cs)\<lparr>cs_main := M_Stop_Builder\<rparr>"

definition stop_builder :: "client_sys \<Rightarrow> client_sys" where
  "stop_builder cs =
     (if alive 0 cs
      then let ys = cs_builder cs in
        cs\<lparr>cs_builder := ys\<lparr>ys_builder := builder_stop (ys_builder ys), ys_taker := T_End,
             ys_at := notify_builder (ys_at ys)\<rparr>,
           cs_pool := stop_object 0 (cs_pool cs)\<rparr>
      else cs)\<lparr>cs_main := M_Stop_Pool\<rparr>"

definition stop_pool :: "client_sys \<Rightarrow> client_sys" where
  "stop_pool cs = cs\<lparr>cs_pool := pool_stop (cs_pool cs), cs_main := M_Join\<rparr>"

subsection \<open>Steps\<close>

text \<open>
  \<open>take\<close> is the main thread in \<open>processTask\<close>, which ends the loop of the tasks when it has looked at a
  task or when the builder is gone.
\<close>

inductive client_step ::
  "client_opts \<Rightarrow> crypto_libs \<Rightarrow> terminals \<Rightarrow> lines result set \<Rightarrow> client_sys \<Rightarrow> client_sys \<Rightarrow> bool"
  for opts lib t sources where
  pool_thread: "i < length (p_threads (cs_pool cs)) \<Longrightarrow> client_thread (run_returned cs) i (cs_pool cs) = Some p \<Longrightarrow>
    client_step opts lib t sources cs (cs\<lparr>cs_pool := p\<rparr>)"
| build: "runs 0 cs \<Longrightarrow> builder_step opts lib t sources (cs_builder cs) ys \<Longrightarrow>
    ys_taker ys = ys_taker (cs_builder cs) \<or> ys_taker (cs_builder cs) = T_Sleep \<and> ys_taker ys = T_Call \<Longrightarrow>
    client_step opts lib t sources cs (cs\<lparr>cs_builder := ys\<rparr>)"
| beat: "runs 1 cs \<Longrightarrow> beat_internal (cs_heartbeat cs) hb \<Longrightarrow>
    client_step opts lib t sources cs (cs\<lparr>cs_heartbeat := hb\<rparr>)"
| take: "cs_main cs = M_Run \<Longrightarrow> builder_step opts lib t sources (cs_builder cs) ys \<Longrightarrow>
    ys_taker (cs_builder cs) \<in> {T_Call, T_Got} \<Longrightarrow> ys_taker ys \<notin> {ys_taker (cs_builder cs), T_End} \<Longrightarrow>
    client_step opts lib t sources cs (cs\<lparr>cs_builder := ys\<rparr>)"
| run_ends: "cs_main cs = M_Run \<Longrightarrow>
    ys_taker (cs_builder cs) = T_Got \<or> ys_taker (cs_builder cs) = T_Call \<and> \<not> alive 0 cs \<Longrightarrow>
    client_step opts lib t sources cs (cs\<lparr>cs_main := M_Stop_Heartbeat\<rparr>)"
| heartbeat_stops: "cs_main cs = M_Stop_Heartbeat \<Longrightarrow> client_step opts lib t sources cs (stop_heartbeat cs)"
| builder_stops: "cs_main cs = M_Stop_Builder \<Longrightarrow> client_step opts lib t sources cs (stop_builder cs)"
| pool_stops: "cs_main cs = M_Stop_Pool \<Longrightarrow> client_step opts lib t sources cs (stop_pool cs)"
| join: "cs_main cs = M_Join \<Longrightarrow> pool_join (cs_pool cs) = Some p \<Longrightarrow>
    client_step opts lib t sources cs (cs\<lparr>cs_pool := p, cs_main := M_Done\<rparr>)"

inductive client_reach ::
  "client_opts \<Rightarrow> crypto_libs \<Rightarrow> terminals \<Rightarrow> lines result set \<Rightarrow> bool \<Rightarrow> crypto_tuple \<Rightarrow> client_sys \<Rightarrow> bool"
  for opts lib t sources enabled tu where
  start: "client_reach opts lib t sources enabled tu (client_begin enabled tu)"
| step: "client_reach opts lib t sources enabled tu cs \<Longrightarrow> client_step opts lib t sources cs cs' \<Longrightarrow>
    client_reach opts lib t sources enabled tu cs'"

inductive_cases client_stepE: "client_step opts lib t sources cs cs'"

subsection \<open>Reading comes to an end\<close>

lemma collectBatch_source:
  assumes "source_ok xs i l" "collectBatch fuel maxSize l b = Inr (Some (l', Some (b', d)))"
  shows "\<exists>xs' i'. source_ok xs' i' l'"
  using assms
proof (induction fuel arbitrary: xs i l b)
  case (Suc fuel)
  show ?case
  proof (cases xs)
    case Nil
    then have "lines_inv l" "unread l = []" using Suc.prems(1) by (simp_all add: source_ok_def as_lines_def)
    then obtain l1 where "file_getLine l = Inr (l1, None)"
      using file_source.getLine_end by (auto simp: file_getLine_def)
    then show ?thesis using Suc.prems(2) by simp
  next
    case (Cons x xs1)
    obtain l1 where l1: "file_getLine l = Inr (l1, Some (x @ [CHR 0x0A]))" "source_ok xs1 (Suc i) l1"
      by (rule source_ok_line [of x xs1 i l]) (use Suc.prems(1) Cons in simp_all)
    show ?thesis
      using Suc.prems(2) l1 Suc.IH [OF l1(2)] by (auto simp: bindE_Inr_iff Let_def split: if_splits)
  qed
qed simp

lemma collectBatch_ends:
  assumes "source_ok xs i l" "length xs < fuel"
  shows "\<exists>r. collectBatch fuel maxSize l b = Inr (Some r)"
  using assms
proof (induction xs arbitrary: i l b fuel)
  case Nil
  then have "lines_inv l" "unread l = []" by (simp_all add: source_ok_def as_lines_def)
  then obtain l1 where "file_getLine l = Inr (l1, None)"
    using file_source.getLine_end by (auto simp: file_getLine_def)
  then show ?case using Nil.prems(2) by (cases fuel) simp_all
next
  case (Cons x xs)
  obtain f where f: "fuel = Suc f" "length xs < f" using Cons.prems(2) by (cases fuel) auto
  obtain l1 where l1: "file_getLine l = Inr (l1, Some (x @ [CHR 0x0A]))" "source_ok xs (Suc i) l1" "ln_index l1 = int i"
    by (rule source_ok_line [OF Cons.prems(1)])
  have "i < TASK_MAX_SIZE" using Cons.prems(1) by (simp add: source_ok_def)
  then show ?case
    using l1 f Cons.IH [OF l1(2) f(2)] by (simp add: copyRequestWithId_def getRequestId_def Let_def)
qed

lemma createSubtask_source:
  assumes "source_ok xs i l" "createSubtask opts lib t rn fuel l tb tu = Inr (Some (SUBTASK_DONE, l', tb', tu'))"
  shows "\<exists>xs' i'. source_ok xs' i' l'"
  using assms collectBatch_source [OF assms(1)]
  by (fastforce simp: createSubtask_def bindE_Inr_iff split: option.splits prod.splits)

text \<open>Once it is stopped the builder makes no subtask any more, whatever it reads.\<close>

lemma createSubtask_when_stopped:
  assumes "tb_stopped tb" "createSubtask opts lib t rn fuel l tb tu = Inr (Some (status, l', tb', tu'))"
  shows "status \<in> {ST_NONE, STOPPED}"
  using assms
  by (auto simp: createSubtask_def compressEncryptSubtask_def bindE_Inr_iff Let_def split: option.splits prod.splits)

lemma createSubtask_ends:
  assumes "tb_stopped tb" "source_ok xs i l"
  shows "\<exists>fuel status l' tb' tu'. createSubtask opts lib t rn fuel l tb tu = Inr (Some (status, l', tb', tu'))"
proof -
  obtain r where r: "collectBatch (Suc (length xs)) (maxSubtaskSize (co_bufferSize opts)) l [] = Inr (Some r)"
    using collectBatch_ends [OF assms(2), of "Suc (length xs)"] by blast
  obtain l' x where "r = (l', x)" by (cases r)
  then show ?thesis
    using r assms(1)
    by (intro exI [of _ "Suc (length xs)"]; cases x)
      (auto simp: createSubtask_def compressEncryptSubtask_def Let_def simp del: collectBatch.simps)
qed

subsection \<open>What stays true\<close>

lemma builder_step_stopped:
  assumes "builder_step opts lib t sources ys ys'" "tb_stopped (ys_builder ys)"
  shows "tb_stopped (ys_builder ys')"
  using assms
proof cases
  case (create l rn fuel status l' tb tu)
  then show ?thesis using assms(2) createSubtask_status [OF create(3)] by simp
qed (use assms(2) in \<open>auto simp: builder_error_def getTask_def builder_resume_def builder_stop_def split: if_splits\<close>)

definition reads_source :: "builder_sys \<Rightarrow> bool" where
  "reads_source ys \<longleftrightarrow> (\<forall>l. ys_at ys = B_Read l \<longrightarrow> (\<exists>xs i. source_ok xs i l))"

lemma builder_step_reads:
  assumes "builder_step opts lib t sources ys ys'" "reads_source ys"
    and "\<And>l. Inr l \<in> sources \<Longrightarrow> \<exists>xs. source_ok xs 0 l"
  shows "reads_source ys'"
  using assms(1)
proof cases
  case (open_source l)
  obtain xs where "source_ok xs 0 l" using assms(3) [OF open_source(4)] by blast
  then show ?thesis using open_source(1) by (auto simp: reads_source_def)
next
  case (create l rn fuel status l' tb tu)
  show ?thesis
  proof (cases "status = SUBTASK_DONE")
    case True
    obtain xs i where "source_ok xs i l" using assms(2) create(2) by (auto simp: reads_source_def)
    from createSubtask_source [OF this create(3) [unfolded True]] show ?thesis
      using create(1) True by (simp add: reads_source_def)
  qed (use create(1) in \<open>simp add: reads_source_def\<close>)
qed (use assms(2) in \<open>auto simp: reads_source_def notify_builder_def split: if_splits\<close>)

definition client_inv :: "bool \<Rightarrow> client_sys \<Rightarrow> bool" where
  "client_inv enabled cs \<longleftrightarrow>
     (cs_main cs \<noteq> M_Done \<longrightarrow> in_pool (cs_pool cs) = mset (if enabled then [0, 1] else [0])) \<and>
     (cs_main cs \<in> {M_Stop_Heartbeat, M_Stop_Builder} \<longrightarrow> ys_taker (cs_builder cs) = T_Got \<or> \<not> alive 0 cs) \<and>
     (cs_main cs \<in> {M_Stop_Builder, M_Stop_Pool, M_Join} \<longrightarrow> \<not> alive 1 cs \<or> hb_stopped (cs_heartbeat cs)) \<and>
     (cs_main cs \<in> {M_Stop_Pool, M_Join} \<longrightarrow> \<not> alive 0 cs \<or> tb_stopped (ys_builder (cs_builder cs))) \<and>
     (cs_main cs = M_Join \<longrightarrow> p_stopped (cs_pool cs))"

lemma client_thread_pool:
  assumes "i < length (p_threads p)" "client_thread returned i p = Some p'"
  shows "in_pool p' = in_pool p" and "p_stopped p' = p_stopped p"
    and "set (p_finished p) \<subseteq> set (p_finished p')"
proof -
  have "in_pool p' = in_pool p \<and> p_stopped p' = p_stopped p \<and> set (p_finished p) \<subseteq> set (p_finished p')"
  proof (cases "p_threads p ! i")
    case Idle
    then have "thread_step base_get i p = Some p'" "thread_get base_get i p = Some p'"
      using assms(2) by (simp_all add: client_thread_def thread_step_def)
    then show ?thesis
      using base_pool.thread_step_in_pool(1) [OF assms(1)]
      by (auto simp: thread_get_def base_get_def get_with_def set_thread_def Finally_def
          split: if_splits option.splits prod.splits)
  next
    case (Taken r)
    then show ?thesis
      using assms base_pool.held_update [OF assms(1), of "Running r"]
      by (auto simp: client_thread_def in_pool_def set_thread_def held_def)
  next
    case (Running r)
    then show ?thesis
      using assms base_pool.held_update [OF assms(1), of Idle] base_pool.held_update [OF assms(1), of Exited]
      by (auto simp: client_thread_def in_pool_def set_thread_def Finally_def held_def Let_def split: if_splits)
  next
    case Exited
    then show ?thesis using assms(2) by (simp add: client_thread_def)
  qed
  then show "in_pool p' = in_pool p" "p_stopped p' = p_stopped p" "set (p_finished p) \<subseteq> set (p_finished p')"
    by simp_all
qed

lemma base_push_in_pool:
  "pool_size p < p_maxSize p \<Longrightarrow> in_pool (fst (base_push r p)) = add_mset r (in_pool p) \<and>
     p_maxSize (fst (base_push r p)) = p_maxSize p \<and> pool_size (fst (base_push r p)) \<le> Suc (pool_size p)"
  by (simp add: base_push_def in_pool_def createThread_def pool_size_def held_def Let_def)

lemma client_inv_begin: "client_inv enabled (client_begin enabled tu)"
proof -
  let ?p = "pool_new MAX_NUMBER_THREADS_DEFAULT (\<lambda>_. client_object)"
  have "pool_size ?p = 0 \<and> p_maxSize ?p = 1000 \<and> in_pool ?p = {#}"
    by (simp add: pool_new_def pool_size_def in_pool_def MAX_NUMBER_THREADS_DEFAULT_def)
  then have "in_pool (Client_start (startHeartbeat enabled ?p)) = mset (if enabled then [0, 1] else [0])"
    using base_push_in_pool [of ?p 1] base_push_in_pool [of "fst (base_push 1 ?p)" 0] base_push_in_pool [of ?p 0]
    by (auto simp: Client_start_def startHeartbeat_def)
  then show ?thesis by (simp add: client_inv_def client_begin_def)
qed

lemma in_pool_once:
  assumes "client_inv enabled cs" "cs_main cs \<noteq> M_Done"
  shows "runs r cs \<Longrightarrow> alive r cs" "r \<in># in_pool (cs_pool cs) \<Longrightarrow> r = 0 \<or> r = 1"
proof -
  have pool: "in_pool (cs_pool cs) = mset (if enabled then [0, 1] else [0])"
    using assms by (simp add: client_inv_def)
  show "r \<in># in_pool (cs_pool cs) \<Longrightarrow> r = 0 \<or> r = 1" unfolding pool by (auto split: if_splits)
  assume "runs r cs"
  then obtain ts us where "p_threads (cs_pool cs) = ts @ Running r # us"
    by (auto simp: runs_def in_set_conv_decomp)
  then have "in_pool (cs_pool cs) = add_mset r (mset (p_queue (cs_pool cs)) +
      mset (concat (map held ts)) + mset (concat (map held us)) + mset (p_finished (cs_pool cs)))"
    by (simp add: in_pool_def held_def)
  moreover have "count (in_pool (cs_pool cs)) r \<le> 1" unfolding pool by simp
  ultimately show "alive r cs" by (auto simp: alive_def not_in_iff)
qed

lemma stop_object_fields [simp]:
  "p_queue (stop_object r p) = p_queue p" "p_threads (stop_object r p) = p_threads p"
  "p_finished (stop_object r p) = p_finished p" "p_stopped (stop_object r p) = p_stopped p"
  "in_pool (stop_object r p) = in_pool p"
  by (simp_all add: stop_object_def in_pool_def)

lemma alive_simps [simp]:
  "alive r (cs\<lparr>cs_main := m\<rparr>) = alive r cs" "alive r (cs\<lparr>cs_builder := ys\<rparr>) = alive r cs"
  "alive r (cs\<lparr>cs_heartbeat := hb\<rparr>) = alive r cs" "alive r (cs\<lparr>cs_pool := stop_object q (cs_pool cs)\<rparr>) = alive r cs"
  "alive r (cs\<lparr>cs_heartbeat := hb, cs_pool := stop_object q (cs_pool cs)\<rparr>) = alive r cs"
  "alive r (cs\<lparr>cs_builder := ys, cs_pool := stop_object q (cs_pool cs)\<rparr>) = alive r cs"
  by (simp_all add: alive_def pool_stop_def in_pool_def)

lemma pool_stop_fields [simp]:
  "in_pool (pool_stop p) = in_pool p" "p_stopped (pool_stop p)" "p_threads (pool_stop p) = p_threads p"
  "p_finished (pool_stop p) = p_finished p"
  by (simp_all add: pool_stop_def in_pool_def)

lemma alive_stop_pool [simp]: "alive r (cs\<lparr>cs_pool := pool_stop (cs_pool cs)\<rparr>) = alive r cs"
  by (simp add: alive_def)

lemma alive_stops [simp]:
  "alive r (stop_heartbeat cs) = alive r cs" "alive r (stop_builder cs) = alive r cs"
  by (simp_all add: stop_heartbeat_def stop_builder_def Let_def)

lemma client_inv_step:
  assumes "client_step opts lib t sources cs cs'" "client_inv enabled cs"
  shows "client_inv enabled cs'"
  using assms(1)
proof cases
  case (pool_thread i p)
  note pool = client_thread_pool [OF pool_thread(2,3)]
  have gone: "\<not> alive r cs \<longrightarrow> \<not> alive r (cs\<lparr>cs_pool := p\<rparr>)" for r
    using pool(1,3) by (auto simp: alive_def)
  show ?thesis
    using assms(2) gone [of 0] gone [of 1] pool(1,2) unfolding client_inv_def pool_thread(1)
    by (cases "cs_main cs") auto
next
  case (build ys)
  then have "tb_stopped (ys_builder (cs_builder cs)) \<longrightarrow> tb_stopped (ys_builder ys)"
    using builder_step_stopped by blast
  moreover have "ys_taker (cs_builder cs) = T_Got \<longrightarrow> ys_taker ys = T_Got" using build(4) by auto
  ultimately show ?thesis using assms(2) unfolding client_inv_def build(1) by (cases "cs_main cs") auto
next
  case (beat hb)
  then have "hb_stopped (cs_heartbeat cs) \<longrightarrow> hb_stopped hb" using beat_left_less by blast
  then show ?thesis using assms(2) unfolding client_inv_def beat(1) by (cases "cs_main cs") auto
next
  case (take ys)
  then show ?thesis using assms(2) by (simp add: client_inv_def)
next
  case run_ends
  then show ?thesis using assms(2) by (auto simp: client_inv_def)
next
  case heartbeat_stops
  then show ?thesis using assms(2)
    by (auto simp: client_inv_def stop_heartbeat_def heartbeat_stop_def hb_post_def)
next
  case builder_stops
  then show ?thesis using assms(2)
    by (auto simp: client_inv_def stop_builder_def builder_stop_def Let_def)
next
  case pool_stops
  then show ?thesis using assms(2)
    by (auto simp: client_inv_def stop_pool_def)
next
  case (join p)
  then show ?thesis by (simp add: client_inv_def)
qed

text \<open>What the builder does in a client is what it can do on its own.\<close>

lemma client_step_builder:
  assumes "client_step opts lib t sources cs cs'" "client_inv enabled cs"
  shows "cs_builder cs' = cs_builder cs \<or> builder_step opts lib t sources (cs_builder cs) (cs_builder cs')"
  using assms(1)
proof cases
  case builder_stops
  show ?thesis
  proof (cases "alive 0 cs")
    case True
    then have "ys_taker (cs_builder cs) = T_Got" using assms(2) builder_stops by (auto simp: client_inv_def)
    from builder_step.call_stop [OF this] show ?thesis using builder_stops True by (simp add: stop_builder_def Let_def)
  qed (use builder_stops in \<open>simp add: stop_builder_def\<close>)
qed (auto simp: stop_heartbeat_def stop_pool_def)

definition sources_ok :: "lines result set \<Rightarrow> bool" where
  "sources_ok sources \<longleftrightarrow> (\<forall>l. Inr l \<in> sources \<longrightarrow> (\<exists>xs. source_ok xs 0 l))"

lemma client_reach_inv:
  assumes "client_reach opts lib t sources enabled tu cs" "sources_ok sources"
  shows "client_inv enabled cs \<and> reads_source (cs_builder cs) \<and>
    builder_reach opts lib t sources tu (cs_builder cs)"
  using assms(1)
proof induction
  case start
  then show ?case
    using client_inv_begin [of enabled tu]
    by (auto simp: client_begin_def reads_source_def builder_reach.start) (simp add: builder_start_def)
next
  case (step cs cs')
  then have "client_inv enabled cs'" using client_inv_step by blast
  moreover have "reads_source (cs_builder cs') \<and> builder_reach opts lib t sources tu (cs_builder cs')"
    using client_step_builder [OF step.hyps(2)] step.IH assms(2) builder_step_reads
    unfolding sources_ok_def by (metis builder_reach.step)
  ultimately show ?case by blast
qed

subsection \<open>The threads can be joined\<close>

fun builder_rank :: "builder_at \<Rightarrow> nat" where
  "builder_rank (B_Read l) = 3" | "builder_rank B_Wait = 2" | "builder_rank B_Loop = 1"
| "builder_rank B_Sleep = 0" | "builder_rank B_End = 0"

fun thread_rank :: "thread_pc \<Rightarrow> nat" where
  "thread_rank (Taken r) = 3" | "thread_rank (Running r) = 2" | "thread_rank Idle = 1" | "thread_rank Exited = 0"

definition client_left :: "client_sys \<Rightarrow> nat" where
  "client_left cs = (if cs_main cs = M_Done then 0
     else 1 + builder_rank (ys_at (cs_builder cs)) + beat_left (cs_heartbeat cs) +
       sum_list (map thread_rank (p_threads (cs_pool cs))))"

lemma sum_list_map_update:
  fixes f :: "'a \<Rightarrow> nat"
  assumes "i < length xs" "f x < f (xs ! i)"
  shows "sum_list (map f (xs[i := x])) < sum_list (map f xs)"
  using assms by (induction xs arbitrary: i) (auto split: nat.splits)

lemma client_thread_rank:
  assumes "i < length (p_threads p)" "client_thread returned i p = Some p'" "p_stopped p"
  shows "sum_list (map thread_rank (p_threads p')) < sum_list (map thread_rank (p_threads p))"
proof -
  obtain pc where "p_threads p' = (p_threads p)[i := pc]" "thread_rank pc < thread_rank (p_threads p ! i)"
    using assms(2,3)
    by (auto simp: client_thread_def thread_get_def base_get_def get_with_def set_thread_def Finally_def Let_def
        split: thread_pc.splits if_splits)
  then show ?thesis using sum_list_map_update [OF assms(1)] by metis
qed

lemma builder_step_rank:
  assumes "builder_step opts lib t sources ys ys'" "tb_stopped (ys_builder ys)" "ys_taker ys = T_End"
  shows "builder_rank (ys_at ys') < builder_rank (ys_at ys)"
  using assms(1)
proof cases
  case (create l rn fuel status l' tb tu)
  then show ?thesis using createSubtask_when_stopped [OF assms(2) create(3)] by auto
qed (use assms(2,3) in auto)

lemma builder_progress:
  assumes "builder_reach opts lib t sources tu ys" "reads_source ys" "tb_stopped (ys_builder ys)"
  shows "ys_at ys = B_End \<or> (\<exists>ys'. builder_step opts lib t sources ys ys' \<and> ys_taker ys' = ys_taker ys)"
proof (cases "ys_at ys")
  case B_Loop
  then show ?thesis using builder_step.leave_loop [OF _ assms(3)] by fastforce
next
  case (B_Read l)
  obtain xs i where "source_ok xs i l" using assms(2) B_Read by (auto simp: reads_source_def)
  from createSubtask_ends [OF assms(3) this]
  obtain fuel status l' tb' tu' where
    c: "createSubtask opts lib t undefined fuel l (ys_builder ys) (ys_tuple ys) = Inr (Some (status, l', tb', tu'))"
    by blast
  from builder_step.create [OF B_Read c] createSubtask_when_stopped [OF assms(3) c] show ?thesis by fastforce
next
  case B_Wait
  then show ?thesis using builder_step.wait_resume [OF B_Wait] by fastforce
next
  case B_Sleep
  then show ?thesis using builder_wakeups [OF assms(1)] assms(3) by blast
qed simp

lemma client_left_less:
  assumes "client_reach opts lib t sources enabled tu cs" "sources_ok sources" "cs_main cs = M_Join"
    and "client_step opts lib t sources cs cs'"
  shows "client_left cs' < client_left cs"
proof -
  have inv: "client_inv enabled cs" "builder_reach opts lib t sources tu (cs_builder cs)"
    using client_reach_inv [OF assms(1,2)] by simp_all
  show ?thesis
    using assms(4)
  proof cases
    case (pool_thread i p)
    have "p_stopped (cs_pool cs)" using inv(1) assms(3) by (simp add: client_inv_def)
    from client_thread_rank [OF pool_thread(2,3) this] show ?thesis
      using assms(3) pool_thread(1) by (simp add: client_left_def)
  next
    case (build ys)
    have "tb_stopped (ys_builder (cs_builder cs))"
      using inv(1) assms(3) in_pool_once(1) [OF inv(1) _ build(2)] by (simp add: client_inv_def)
    from builder_step_rank [OF build(3) this builder_stopped [OF inv(2) this]] show ?thesis
      using assms(3) build(1) by (simp add: client_left_def)
  next
    case (beat hb)
    have "hb_stopped (cs_heartbeat cs)"
      using inv(1) assms(3) in_pool_once(1) [OF inv(1) _ beat(2)] by (simp add: client_inv_def)
    then show ?thesis using beat_left_less [OF beat(3)] assms(3) beat(1) by (simp add: client_left_def)
  next
    case (join p)
    then show ?thesis using assms(3) by (simp add: client_left_def)
  qed (use assms(3) in simp_all)
qed

lemma client_thread_moves:
  assumes "p_stopped p" "client_thread returned i p = None"
  shows "p_threads p ! i = Exited \<or> (\<exists>r. p_threads p ! i = Running r \<and> \<not> returned r)"
  using assms
  by (cases "p_threads p ! i")
    (auto simp: client_thread_def thread_get_def base_get_def get_with_def Let_def split: if_splits)

lemma client_at_rest:
  assumes "client_reach opts lib t sources enabled tu cs" "sources_ok sources"
    and "cs_main cs \<notin> {M_Run, M_Done}" and rest: "\<nexists>cs'. client_step opts lib t sources cs cs'"
  shows "hb_blocked (cs_heartbeat cs)"
proof (rule ccontr)
  assume unblocked: "\<not> hb_blocked (cs_heartbeat cs)"
  have inv: "client_inv enabled cs" "reads_source (cs_builder cs)" "builder_reach opts lib t sources tu (cs_builder cs)"
    using client_reach_inv [OF assms(1,2)] by simp_all
  have main: "cs_main cs = M_Join"
    using assms(3) rest client_step.heartbeat_stops client_step.builder_stops client_step.pool_stops
    by (cases "cs_main cs") blast+
  then have stopped: "p_stopped (cs_pool cs)" using inv(1) by (simp add: client_inv_def)
  have "run_returned cs r" if "runs r cs" for r
  proof -
    have al: "alive r cs" using in_pool_once(1) [OF inv(1) _ that] main by simp
    then have "r = 0 \<or> r = 1" using in_pool_once(2) [OF inv(1)] main by (simp add: alive_def)
    then show ?thesis
    proof
      assume r: "r = 0"
      then have "tb_stopped (ys_builder (cs_builder cs))" using inv(1) main al by (simp add: client_inv_def)
      from builder_progress [OF inv(3,2) this] show ?thesis
        using client_step.build [of cs opts lib t sources] that rest by (auto simp: run_returned_def r)
    next
      assume r: "r = 1"
      then have "\<nexists>hb. beat_internal (cs_heartbeat cs) hb" using client_step.beat that rest by blast
      then show ?thesis
        using stopped_heartbeat_ends [of "cs_heartbeat cs"] unblocked
        by (auto simp: run_returned_def beat_returned_def beat_running_def r)
    qed
  qed
  moreover have "client_thread (run_returned cs) i (cs_pool cs) = None" if "i < length (p_threads (cs_pool cs))" for i
    using client_step.pool_thread [OF that] rest by (cases "client_thread (run_returned cs) i (cs_pool cs)") blast+
  ultimately have "\<forall>pc \<in> set (p_threads (cs_pool cs)). pc = Exited"
    using client_thread_moves [OF stopped] by (metis in_set_conv_nth runs_def)
  then show False using client_step.join [OF main, of _ opts lib t sources] stopped rest by (auto simp: pool_join_def)
qed

text \<open>
  C37: \<open>stop\<close> of a client ends: when everything has been told to stop only finitely many steps are left,
  and as long as the destructor is not done there is a next one, unless the heartbeat is blocked.
  The source has to be one whose lines fit into the array that it is read with.
\<close>

theorem client_stop_ends:
  assumes "client_reach opts lib t sources enabled tu cs" "sources_ok sources" "cs_main cs \<notin> {M_Run, M_Done}"
  shows "wf {(b, a). client_reach opts lib t sources enabled tu a \<and> cs_main a = M_Join \<and> client_step opts lib t sources a b} \<and>
    (hb_blocked (cs_heartbeat cs) \<or> (\<exists>cs'. client_step opts lib t sources cs cs'))"
proof
  show "wf {(b, a). client_reach opts lib t sources enabled tu a \<and> cs_main a = M_Join \<and> client_step opts lib t sources a b}"
    by (rule wf_subset [OF wf_measure [of client_left]]) (use client_left_less assms(2) in auto)
  show "hb_blocked (cs_heartbeat cs) \<or> (\<exists>cs'. client_step opts lib t sources cs cs')"
    using client_at_rest [OF assms] by blast
qed

subsection \<open>A blocked heartbeat\<close>

lemma client_step_blocked:
  assumes "client_step opts lib t sources cs cs'"
    and "hb_blocked (cs_heartbeat cs) \<and> hb_exit (cs_heartbeat cs) = None \<and> runs 1 cs \<and> cs_main cs \<noteq> M_Done"
  shows "hb_blocked (cs_heartbeat cs') \<and> hb_exit (cs_heartbeat cs') = None \<and> runs 1 cs' \<and> cs_main cs' \<noteq> M_Done"
  using assms(1)
proof cases
  case (pool_thread i p)
  obtain j where j: "j < length (p_threads (cs_pool cs))" "p_threads (cs_pool cs) ! j = Running 1"
    using assms(2) by (auto simp: runs_def in_set_conv_nth)
  have "\<not> run_returned cs 1" using assms(2) by (simp add: run_returned_def beat_returned_def beat_running_def)
  then have "i \<noteq> j" using pool_thread(3) j(2) by (auto simp: client_thread_def)
  moreover have "\<exists>pc. p_threads p = (p_threads (cs_pool cs))[i := pc]"
    using pool_thread(3)
    by (auto simp: client_thread_def thread_get_def base_get_def get_with_def set_thread_def Finally_def Let_def
        split: thread_pc.splits if_splits option.splits) blast+
  ultimately have "p_threads p ! j = Running 1 \<and> j < length (p_threads p)" using j by auto
  then show ?thesis using assms(2) pool_thread(1) by (auto simp: runs_def in_set_conv_nth)
next
  case (join p)
  then show ?thesis using assms(2) by (auto simp: pool_join_def runs_def split: if_splits)
next
  case (beat hb)
  then show ?thesis using assms(2) by (auto simp: beat_running_def elim: beat_internalE)
qed (use assms(2) in \<open>auto simp: runs_def stop_heartbeat_def stop_builder_def stop_pool_def heartbeat_stop_def
    hb_post_def Let_def\<close>)


subsection \<open>Witnesses\<close>

lemma client_step_pool:
  assumes "client_reach opts lib t sources enabled tu cs" "i < length (p_threads (cs_pool cs))"
    and "client_thread (run_returned cs) i (cs_pool cs) = Some p"
  shows "client_reach opts lib t sources enabled tu (cs\<lparr>cs_pool := p\<rparr>)"
  by (rule client_reach.step [OF assms(1) client_step.pool_thread [OF assms(2,3)]])

lemma begin_threads:
  "p_threads (cs_pool (client_begin enabled tu)) = (if enabled then [Idle, Idle] else [Idle])"
  "p_queue (cs_pool (client_begin enabled tu)) = (if enabled then [1, 0] else [0])"
  "p_totalNumberObjects (cs_pool (client_begin enabled tu)) = (if enabled then 2 else 1)"
  "p_maxSize (cs_pool (client_begin enabled tu)) = 1000" "\<not> p_stopped (cs_pool (client_begin enabled tu))"
  "\<not> rn_stopped (p_objects (cs_pool (client_begin enabled tu)) r)" "p_finished (cs_pool (client_begin enabled tu)) = []"
  "cs_main (client_begin enabled tu) = M_Run" "cs_heartbeat (client_begin enabled tu) = heartbeat_start"
  "cs_builder (client_begin enabled tu) = builder_start tu"
  by (simp_all add: client_begin_def Client_start_def startHeartbeat_def base_push_def pool_new_def createThread_def
      pool_size_def client_object_def MAX_NUMBER_THREADS_DEFAULT_def Let_def)

text \<open>The first thread of the pool takes the first object and runs it.\<close>

lemma first_runs:
  obtains cs where "client_reach opts lib t sources enabled tu cs" "runs (if enabled then 1 else 0) cs"
    "cs_main cs = M_Run" "cs_heartbeat cs = heartbeat_start" "cs_builder cs = builder_start tu"
    "p_threads (cs_pool cs) ! 0 = Running (if enabled then 1 else 0)" "p_threads (cs_pool cs) \<noteq> []"
    "\<not> p_stopped (cs_pool cs)"
proof -
  let ?b = "client_begin enabled tu" and ?r = "if enabled then 1 else 0 :: nat"
  let ?p = "(cs_pool ?b)\<lparr>p_queue := (if enabled then [0] else [])\<rparr>"
  have "client_thread (run_returned ?b) 0 (cs_pool ?b) = Some (set_thread 0 (Taken ?r) ?p)"
    by (simp add: client_thread_def thread_get_def base_get_def get_with_def begin_threads)
  from client_step_pool [OF client_reach.start _ this]
  have 1: "client_reach opts lib t sources enabled tu (?b\<lparr>cs_pool := set_thread 0 (Taken ?r) ?p\<rparr>)"
    by (simp add: begin_threads)
  let ?c = "?b\<lparr>cs_pool := set_thread 0 (Taken ?r) ?p\<rparr>"
  have "client_thread (run_returned ?c) 0 (cs_pool ?c) = Some (set_thread 0 (Running ?r) (cs_pool ?c))"
    by (simp add: client_thread_def set_thread_def begin_threads)
  from client_step_pool [OF 1 _ this]
  have "client_reach opts lib t sources enabled tu (?c\<lparr>cs_pool := set_thread 0 (Running ?r) (cs_pool ?c)\<rparr>)"
    by (simp add: set_thread_def begin_threads)
  then show ?thesis
    by (rule that) (simp_all add: set_thread_def begin_threads runs_def)
qed


lemma client_stop_ends_witness:
  "\<exists>cs cs'. client_reach demo_client_opts demo_libs client_terminals {Inl (Runtime_Error ''file_size'')} False
      (demo_tuple True) cs \<and> cs_main cs = M_Stop_Heartbeat \<and>
    client_step demo_client_opts demo_libs client_terminals {Inl (Runtime_Error ''file_size'')} cs cs'"
proof -
  let ?s = "{Inl (Runtime_Error ''file_size'')} :: lines result set"
  let ?reach = "client_reach demo_client_opts demo_libs client_terminals ?s False (demo_tuple True)"
  obtain cs where cs: "?reach cs" "runs 0 cs" "cs_main cs = M_Run" "cs_heartbeat cs = heartbeat_start"
      "cs_builder cs = builder_start (demo_tuple True)"
    by (rule first_runs [of demo_client_opts demo_libs client_terminals ?s False "demo_tuple True"]) simp
  let ?y0 = "builder_start (demo_tuple True)"
  let ?y1 = "?y0\<lparr>ys_builder := builder_error ((ys_builder ?y0)\<lparr>tb_resume := False\<rparr>), ys_at := B_End\<rparr>"
  have "builder_step demo_client_opts demo_libs client_terminals ?s ?y0 ?y1"
    by (rule builder_step.open_fails [where e = "Runtime_Error ''file_size''"])
      (simp_all add: builder_start_def TaskBuilder_new_def)
  with cs have 1: "?reach (cs\<lparr>cs_builder := ?y1\<rparr>)"
    by (intro client_reach.step [OF cs(1)] client_step.build) (simp_all add: builder_start_def)
  obtain ys where ys: "builder_step demo_client_opts demo_libs client_terminals ?s ?y1 ys" "ys_taker ys = T_Got"
    using builder_step.call_getTask [of ?y1]
    by (force simp: builder_start_def TaskBuilder_new_def builder_error_def getTask_def)
  have 2: "?reach (cs\<lparr>cs_builder := ys\<rparr>)"
    using client_reach.step [OF 1 client_step.take [of "cs\<lparr>cs_builder := ?y1\<rparr>"]] ys cs(3)
    by (force simp: builder_start_def)
  let ?cs = "cs\<lparr>cs_builder := ys, cs_main := M_Stop_Heartbeat\<rparr>"
  have 3: "?reach ?cs"
    using client_reach.step [OF 2 client_step.run_ends] ys(2) cs(3) by simp
  have "\<not> hb_blocked (cs_heartbeat ?cs)" by (simp add: cs(4) heartbeat_start_def)
  then show ?thesis
    using client_stop_ends [OF 3] 3 by (auto simp: sources_ok_def)
qed

end
