(* ===== verification/Encryptor_Tuples.thy ===== *)
theory Encryptor_Tuples
  imports Crypto_Operations
begin

section \<open>Encryptors of both sides in one process (CryptoTuple, CryptoVariant, CryptoBase)\<close>

text \<open>
  The tests make the encryptors of a client and of its session in one process, once, and hand them
  out as tuples or as variants. \<open>createServerEncryptor\<close> makes the session's encryptor of what the
  client's would send; the signature is not sent, so it is marked as sent. The variants are made
  without the mark.
\<close>

definition markSignatureSent :: "encryptor \<Rightarrow> encryptor" where
  "markSignatureSent e = e\<lparr>en_signatureSent := True\<rparr>"

text \<open>The session's constructor, for what the client's encryptor holds, and the client's marked.\<close>

definition createServerEncryptor ::
  "(string \<Rightarrow> string \<Rightarrow> encryptor result) \<Rightarrow> encryptor \<Rightarrow> (encryptor \<times> encryptor) result" where
  "createServerEncryptor session_new clientEncryptor =
     (let clientEncryptor = markSignatureSent clientEncryptor in
      bindE (session_new (en_encodedPubKeyAes clientEncryptor) (en_signatureWithPubKeySign clientEncryptor))
        (\<lambda>s. Inr (clientEncryptor, s)))"

text \<open>Random bytes: the key pairs of both sides, the signature, and those that hide the keys.\<close>

record pair_random =
  pr_client :: bytes
  pr_sign :: bytes
  pr_session :: bytes
  pr_hide_session :: bytes
  pr_hide_client :: bytes

definition sodium_pair :: "crypto_libs \<Rightarrow> string \<Rightarrow> pair_random \<Rightarrow> (encryptor \<times> encryptor) result" where
  "sodium_pair lib auth r =
     bindE (CryptoSodium_client (cl_sodium lib) auth (pr_client r) (pr_sign r)) (\<lambda>c.
     bindE (createServerEncryptor (CryptoSodium_session (cl_sodium lib) auth (pr_session r) (pr_hide_session r)) c) (\<lambda>(c, s).
     bindE (sodium_clientKeyExchange (cl_sodium lib) (pr_hide_client r) (en_encodedPubKeyAes s) c) (\<lambda>c. Inr (c, s))))"

definition cryptopp_pair :: "crypto_libs \<Rightarrow> string \<Rightarrow> pair_random \<Rightarrow> (encryptor \<times> encryptor) result" where
  "cryptopp_pair lib auth r =
     bindE (CryptoPlPl_client (cl_cryptopp lib) auth (pr_client r) (pr_sign r)) (\<lambda>c.
     bindE (createServerEncryptor (CryptoPlPl_session (cl_cryptopp lib) auth (pr_session r) (pr_hide_session r)) c) (\<lambda>(c, s).
     bindE (cryptopp_clientKeyExchange (cl_cryptopp lib) (pr_hide_client r) (en_encodedPubKeyAes s) c) (\<lambda>c. Inr (c, s))))"

subsection \<open>Tuples\<close>

record encryptor_tuples =
  et_initialized :: bool
  et_client :: crypto_tuple
  et_server :: crypto_tuple

definition cryptotuple_start :: encryptor_tuples where
  "cryptotuple_start = \<lparr>et_initialized = False,
     et_client = \<lparr>tu_sodium = None, tu_cryptopp = None, tu_input = []\<rparr>,
     et_server = \<lparr>tu_sodium = None, tu_cryptopp = None, tu_input = []\<rparr>\<rparr>"

definition cryptotuple_initialize ::
  "crypto_libs \<Rightarrow> string \<Rightarrow> pair_random \<Rightarrow> pair_random \<Rightarrow> encryptor_tuples result" where
  "cryptotuple_initialize lib auth r0 r1 =
     bindE (sodium_pair lib auth r0) (\<lambda>(c0, s0).
     bindE (cryptopp_pair lib auth r1) (\<lambda>(c1, s1).
       Inr \<lparr>et_initialized = True,
            et_client = \<lparr>tu_sodium = Some c0, tu_cryptopp = Some c1, tu_input = []\<rparr>,
            et_server = \<lparr>tu_sodium = Some s0, tu_cryptopp = Some s1, tu_input = []\<rparr>\<rparr>))"

definition getClientEncryptorTuple ::
  "crypto_libs \<Rightarrow> string \<Rightarrow> pair_random \<Rightarrow> pair_random \<Rightarrow> encryptor_tuples \<Rightarrow> (crypto_tuple \<times> encryptor_tuples) result" where
  "getClientEncryptorTuple lib auth r0 r1 et =
     bindE (if et_initialized et then Inr et else cryptotuple_initialize lib auth r0 r1)
       (\<lambda>et. Inr (et_client et, et))"

definition getServerEncryptorTuple ::
  "crypto_libs \<Rightarrow> string \<Rightarrow> pair_random \<Rightarrow> pair_random \<Rightarrow> encryptor_tuples \<Rightarrow> (crypto_tuple \<times> encryptor_tuples) result" where
  "getServerEncryptorTuple lib auth r0 r1 et =
     bindE (if et_initialized et then Inr et else cryptotuple_initialize lib auth r0 r1)
       (\<lambda>et. Inr (et_server et, et))"

subsection \<open>Variants\<close>

text \<open>A variant holds one of the two pointers; the empty one holds a null pointer of the first kind.\<close>

datatype crypto_variant = Sodium_Ptr "encryptor option" | PlPl_Ptr "encryptor option"

record encryptor_variants =
  ev_initialized :: bool
  ev_client0 :: crypto_variant
  ev_server0 :: crypto_variant
  ev_client1 :: crypto_variant
  ev_server1 :: crypto_variant

definition variant_pair ::
  "encryptor result \<Rightarrow> (string \<Rightarrow> string \<Rightarrow> encryptor result) \<Rightarrow> (string \<Rightarrow> encryptor \<Rightarrow> encryptor result) \<Rightarrow>
   (encryptor \<times> encryptor) result" where
  "variant_pair client_new session_new exchange =
     bindE client_new (\<lambda>c.
     bindE (session_new (en_encodedPubKeyAes c) (en_signatureWithPubKeySign c)) (\<lambda>s.
     bindE (exchange (en_encodedPubKeyAes s) c) (\<lambda>c. Inr (c, s))))"

definition cryptovariant_initialize ::
  "crypto_libs \<Rightarrow> string \<Rightarrow> pair_random \<Rightarrow> pair_random \<Rightarrow> encryptor_variants result" where
  "cryptovariant_initialize lib auth r0 r1 =
     bindE (variant_pair (CryptoSodium_client (cl_sodium lib) auth (pr_client r0) (pr_sign r0))
       (CryptoSodium_session (cl_sodium lib) auth (pr_session r0) (pr_hide_session r0))
       (sodium_clientKeyExchange (cl_sodium lib) (pr_hide_client r0))) (\<lambda>(c0, s0).
     bindE (variant_pair (CryptoPlPl_client (cl_cryptopp lib) auth (pr_client r1) (pr_sign r1))
       (CryptoPlPl_session (cl_cryptopp lib) auth (pr_session r1) (pr_hide_session r1))
       (cryptopp_clientKeyExchange (cl_cryptopp lib) (pr_hide_client r1))) (\<lambda>(c1, s1).
       Inr \<lparr>ev_initialized = True, ev_client0 = Sodium_Ptr (Some c0), ev_server0 = Sodium_Ptr (Some s0),
            ev_client1 = PlPl_Ptr (Some c1), ev_server1 = PlPl_Ptr (Some s1)\<rparr>))"

definition select_variant :: "APPTYPE \<Rightarrow> CRYPTO \<Rightarrow> encryptor_variants \<Rightarrow> crypto_variant" where
  "select_variant app crypto ev =
     (case app of
        SERVER \<Rightarrow> (case crypto of CRYPTOSODIUM \<Rightarrow> ev_server0 ev | CRYPTOPP \<Rightarrow> ev_server1 ev | _ \<Rightarrow> Sodium_Ptr None)
      | CLIENT \<Rightarrow> (case crypto of CRYPTOSODIUM \<Rightarrow> ev_client0 ev | CRYPTOPP \<Rightarrow> ev_client1 ev | _ \<Rightarrow> Sodium_Ptr None)
      | TESTS \<Rightarrow> Sodium_Ptr None)"

definition getEncryptorVariant ::
  "crypto_libs \<Rightarrow> string \<Rightarrow> pair_random \<Rightarrow> pair_random \<Rightarrow> APPTYPE \<Rightarrow> CRYPTO \<Rightarrow> encryptor_variants \<Rightarrow>
   (crypto_variant \<times> encryptor_variants) result" where
  "getEncryptorVariant lib auth r0 r1 app crypto ev =
     bindE (if ev_initialized ev then Inr ev else cryptovariant_initialize lib auth r0 r1)
       (\<lambda>ev. Inr (select_variant app crypto ev, ev))"

subsection \<open>Names\<close>

definition encryptor_library :: "CRYPTO \<Rightarrow> string" where
  "encryptor_library crypto =
     (case crypto of CRYPTOSODIUM \<Rightarrow> ''Sodium'' | CRYPTOPP \<Rightarrow> ''Crypto++'' | _ \<Rightarrow> ''Error'')"

definition displayCryptoLibName :: "CRYPTO \<Rightarrow> CRYPTO \<Rightarrow> string" where
  "displayCryptoLibName primary single =
     (let nl = [CHR 0x0A, CHR 0x0A] in
      nl @ ''primary encryptor: '' @ encryptor_library primary @ '' library.'' @ nl @
      nl @ ''single encryptor: '' @ encryptor_library single @ '' library.'' @ nl)"

subsection \<open>Both sides go together\<close>

text \<open>The terminal of the tests: neither that of a server nor that of a client.\<close>

definition test_at :: "terminals \<Rightarrow> bool" where
  "test_at t \<longleftrightarrow> isTerminal serverTerminal t = Inr False \<and> isTerminal clientTerminal t = Inr False \<and>
     isTerminal testbinTerminal t = Inr True"

lemma test_may_use [simp]: "test_at t \<Longrightarrow> may_use t e"
  by (simp add: test_at_def may_use_def checkAccess_def)

lemma marked_exchange:
  "sodium_clientKeyExchange lib r p (markSignatureSent e) = map_sum id markSignatureSent (sodium_clientKeyExchange lib r p e)"
  "cryptopp_clientKeyExchange lib' r p (markSignatureSent e) = map_sum id markSignatureSent (cryptopp_clientKeyExchange lib' r p e)"
  "encryptor_key (markSignatureSent e) = encryptor_key e"
  by (simp_all add: sodium_clientKeyExchange_def base64_decode_def cryptopp_clientKeyExchange_def markSignatureSent_def encryptor_key_def
      split_beta Let_def split: option.split)

lemma marked_fields [simp]:
  "en_encodedPubKeyAes (markSignatureSent e) = en_encodedPubKeyAes e"
  "en_signatureWithPubKeySign (markSignatureSent e) = en_signatureWithPubKeySign e"
  "en_signatureSent (markSignatureSent e)"
  by (simp_all add: markSignatureSent_def)

lemma sodium_pair_keys:
  assumes "sodium_ok (cl_sodium lib)" "length auth \<le> 32"
  obtains c s where "sodium_pair lib auth r = Inr (c, s)" "encryptor_key c = encryptor_key s"
    "en_signatureSent c" "en_verifiedSignature s"
proof -
  obtain c s c' where "CryptoSodium_client (cl_sodium lib) auth (pr_client r) (pr_sign r) = Inr c"
    "CryptoSodium_session (cl_sodium lib) auth (pr_session r) (pr_hide_session r) (en_encodedPubKeyAes c)
       (en_signatureWithPubKeySign c) = Inr s"
    "sodium_clientKeyExchange (cl_sodium lib) (pr_hide_client r) (en_encodedPubKeyAes s) c = Inr c'"
    "en_verifiedSignature s" "encryptor_key c' = encryptor_key s"
    using sodium_handshake_aux [OF assms] by blast
  then show ?thesis
    by (intro that [of "markSignatureSent c'" s])
      (simp_all add: sodium_pair_def createServerEncryptor_def Let_def marked_exchange)
qed

lemma cryptopp_pair_keys:
  assumes "cryptopp_ok (cl_cryptopp lib)"
  obtains c s where "cryptopp_pair lib auth r = Inr (c, s)" "encryptor_key c = encryptor_key s"
    "en_signatureSent c" "en_verifiedSignature s"
proof -
  obtain c s c' where "CryptoPlPl_client (cl_cryptopp lib) auth (pr_client r) (pr_sign r) = Inr c"
    "CryptoPlPl_session (cl_cryptopp lib) auth (pr_session r) (pr_hide_session r) (en_encodedPubKeyAes c)
       (en_signatureWithPubKeySign c) = Inr s"
    "cryptopp_clientKeyExchange (cl_cryptopp lib) (pr_hide_client r) (en_encodedPubKeyAes s) c = Inr c'"
    "en_verifiedSignature s" "encryptor_key c' = encryptor_key s"
    using cryptopp_handshake_aux [OF assms] by blast
  then show ?thesis
    by (intro that [of "markSignatureSent c'" s])
      (simp_all add: cryptopp_pair_def createServerEncryptor_def Let_def marked_exchange)
qed

text \<open>
  The two tuples are made once, whichever is asked for first, and go together: at the terminal of
  the tests what one encrypts the other decrypts.
\<close>

theorem encryptor_tuples_peers:
  assumes "sodium_ok (cl_sodium lib)" "cryptopp_ok (cl_cryptopp lib)" "length auth \<le> 32" "test_at t"
  shows "\<exists>client server et. getClientEncryptorTuple lib auth r0 r1 cryptotuple_start = Inr (client, et) \<and>
    getServerEncryptorTuple lib auth r0 r1 cryptotuple_start = Inr (server, et) \<and>
    (\<forall>r2 r3. getClientEncryptorTuple lib auth r2 r3 et = Inr (client, et) \<and>
       getServerEncryptorTuple lib auth r2 r3 et = Inr (server, et)) \<and> tuple_peers t client t server"
proof -
  obtain c0 s0 where 0: "sodium_pair lib auth r0 = Inr (c0, s0)" "encryptor_key c0 = encryptor_key s0"
    by (rule sodium_pair_keys [OF assms(1,3)])
  obtain c1 s1 where 1: "cryptopp_pair lib auth r1 = Inr (c1, s1)" "encryptor_key c1 = encryptor_key s1"
    by (rule cryptopp_pair_keys [OF assms(2)])
  show ?thesis using 0 1 assms(4)
    by (simp add: getClientEncryptorTuple_def getServerEncryptorTuple_def cryptotuple_initialize_def
        cryptotuple_start_def tuple_peers_def)
qed

text \<open>The variants of a client and a server have the same keys; every other variant is empty.\<close>

lemma variant_keys:
  assumes "sodium_ok (cl_sodium lib)" "cryptopp_ok (cl_cryptopp lib)" "length auth \<le> 32"
  obtains c0 s0 c1 s1 where "cryptovariant_initialize lib auth r0 r1 =
      Inr \<lparr>ev_initialized = True, ev_client0 = Sodium_Ptr (Some c0), ev_server0 = Sodium_Ptr (Some s0),
           ev_client1 = PlPl_Ptr (Some c1), ev_server1 = PlPl_Ptr (Some s1)\<rparr>"
    "encryptor_key c0 = encryptor_key s0" "encryptor_key c1 = encryptor_key s1"
proof -
  obtain c0 s0 d0 where 0: "CryptoSodium_client (cl_sodium lib) auth (pr_client r0) (pr_sign r0) = Inr c0"
    "CryptoSodium_session (cl_sodium lib) auth (pr_session r0) (pr_hide_session r0) (en_encodedPubKeyAes c0)
       (en_signatureWithPubKeySign c0) = Inr s0"
    "sodium_clientKeyExchange (cl_sodium lib) (pr_hide_client r0) (en_encodedPubKeyAes s0) c0 = Inr d0"
    "encryptor_key d0 = encryptor_key s0"
    using sodium_handshake_aux [OF assms(1,3)] by blast
  obtain c1 s1 d1 where 1: "CryptoPlPl_client (cl_cryptopp lib) auth (pr_client r1) (pr_sign r1) = Inr c1"
    "CryptoPlPl_session (cl_cryptopp lib) auth (pr_session r1) (pr_hide_session r1) (en_encodedPubKeyAes c1)
       (en_signatureWithPubKeySign c1) = Inr s1"
    "cryptopp_clientKeyExchange (cl_cryptopp lib) (pr_hide_client r1) (en_encodedPubKeyAes s1) c1 = Inr d1"
    "encryptor_key d1 = encryptor_key s1"
    using cryptopp_handshake_aux [OF assms(2)] by blast
  show ?thesis
    by (rule that [of d0 s0 d1 s1]) (use 0 1 in \<open>simp_all add: cryptovariant_initialize_def variant_pair_def\<close>)
qed

end
