(* ===== verification/Programs.thy ===== *)
theory Programs
  imports Client_Life Encryptor_Tuples
begin

section \<open>The two programs and what they report (ServerMain, ClientMain, Session, Metrics, Chronometer)\<close>

text \<open>
  \<open>main\<close> of both programs with the ways they can end, and the texts for the operator: the load that
  the server shows for a new session, the resources at the end and the times of the parts. A
  report is the list of the log statements with their levels; clocks and files under \<open>/proc\<close> are
  arguments.
\<close>

subsection \<open>main\<close>

text \<open>\<open>main\<close> returns, the process is ended by \<open>std::exit\<close>, or an exception leaves \<open>main\<close>.\<close>

datatype program_end = Returns nat | Exit_Called nat | Uncaught exn

text \<open>
  \<open>env\<close> is the variable of the terminal, \<open>parse\<close> what the parse of the options gives, \<open>run\<close> the
  construction and the run of the client of the kind in the options.
\<close>

definition client_main ::
  "string option \<Rightarrow> client_options parse_end \<Rightarrow> (CLIENT_TYPE \<Rightarrow> client_options \<Rightarrow> unit result) \<Rightarrow> terminals \<Rightarrow>
   terminals \<times> program_end" where
  "client_main env parse run t =
     (case env of
        None \<Rightarrow> (t, Uncaught Undefined_Behaviour)
      | Some terminal \<Rightarrow>
          let t = setClientTerminal terminal t in
          (t, case parse of
                Exits n \<Rightarrow> Exit_Called n
              | Threw_Parse e p \<Rightarrow> Uncaught e
              | Parsed p \<Rightarrow>
                  (case (if clo_clientType p \<in> {FIFOCLIENT, TCPCLIENT} then run (clo_clientType p) p else Inr ()) of
                     Inl e \<Rightarrow> if std_exception e then Returns 3 else Uncaught e
                   | Inr _ \<Rightarrow> Returns 0)))"

text \<open>\<open>start\<close> and \<open>stop\<close> are those of the server; between them \<open>main\<close> waits for a signal.\<close>

definition server_main ::
  "string option \<Rightarrow> server_options parse_end \<Rightarrow> (server_options \<Rightarrow> bool result) \<Rightarrow> unit result \<Rightarrow> terminals \<Rightarrow>
   terminals \<times> program_end" where
  "server_main env parse start stop t =
     (case env of
        None \<Rightarrow> (t, Uncaught Undefined_Behaviour)
      | Some terminal \<Rightarrow>
          let t = setServerTerminal terminal t;
              handled = (\<lambda>e. if std_exception e then Returns 5 else Uncaught e) in
          (t, case parse of
                Exits n \<Rightarrow> Exit_Called n
              | Threw_Parse e p \<Rightarrow> handled e
              | Parsed p \<Rightarrow>
                  (case start p of
                     Inl e \<Rightarrow> handled e
                   | Inr started \<Rightarrow>
                       if \<not> started then Returns 3
                       else (case stop of Inl e \<Rightarrow> handled e | Inr _ \<Rightarrow> Returns 0))))"

subsection \<open>The load of the server\<close>

definition newline :: string where "newline = [CHR 0x0A]"

definition displayCapacityCheck ::
  "string \<Rightarrow> nat \<Rightarrow> nat \<Rightarrow> nat \<Rightarrow> nat \<Rightarrow> STATUS \<Rightarrow> (LOG_LEVEL \<times> string) list" where
  "displayCapacityCheck type totalNumberObjects numberObjects numberRunningByType maxNumberRunningByType status =
     (INFO, ''Number '' @ type @ '' sessions='' @ to_digits numberObjects @ '', Number running '' @ type @
        '' sessions='' @ to_digits numberRunningByType @ '', max number '' @ type @ '' running='' @
        to_digits maxNumberRunningByType @ newline) #
     (case status of
        MAX_OBJECTS_OF_TYPE \<Rightarrow>
          [(WARN, newline @ ''The number of '' @ type @ '' sessions='' @ to_digits numberObjects @
              '' exceeds thread pool capacity.'' @ newline)]
      | MAX_TOTAL_OBJECTS \<Rightarrow>
          [(WARN, newline @ ''Total sessions='' @ to_digits totalNumberObjects @ '' exceeds system capacity.'' @ newline)]
      | _ \<Rightarrow> [])"

text \<open>The sessions of both kinds show what the pool knows of them.\<close>

definition session_capacity :: "session_kind \<Rightarrow> nat \<Rightarrow> nat \<Rightarrow> pool \<Rightarrow> (LOG_LEVEL \<times> string) list" where
  "session_capacity kind numberObjects r p =
     displayCapacityCheck (case kind of Tcp_Kind \<Rightarrow> ''tcp'' | Fifo_Kind \<Rightarrow> ''fifo'') (p_totalNumberObjects p) numberObjects
       (getNumberRunningByType p r) (rn_maxNumberRunningByType (p_objects p r)) (rn_status (p_objects p r))"

subsection \<open>Resources\<close>

record metrics =
  me_procFdPath :: string
  me_procThreadPath :: string
  me_maxRss :: nat
  me_numberThreads :: nat
  me_numberOpenFDs :: nat

text \<open>A failure of \<open>getrusage\<close> gives 0.\<close>

definition getMaxRss :: "nat option \<Rightarrow> nat" where
  "getMaxRss usage = (case usage of None \<Rightarrow> 0 | Some n \<Rightarrow> n)"

text \<open>The directories are counted one after the other; a failure keeps the numbers of an earlier call.\<close>

definition Metrics_save :: "nat \<Rightarrow> nat option \<Rightarrow> nat option \<Rightarrow> nat option \<Rightarrow> metrics \<Rightarrow> metrics" where
  "Metrics_save pid usage threads fds m =
     (let prefix = ''/proc/'' @ toCharsBoost pid False;
          m = m\<lparr>me_procFdPath := prefix @ ''/fd'', me_procThreadPath := prefix @ ''/task'', me_maxRss := getMaxRss usage\<rparr>
      in case threads of
          None \<Rightarrow> m
        | Some n \<Rightarrow>
            let m = m\<lparr>me_numberThreads := n\<rparr> in
            (case fds of None \<Rightarrow> m | Some k \<Rightarrow> m\<lparr>me_numberOpenFDs := k\<rparr>))"

definition Metrics_print :: "LOG_LEVEL \<Rightarrow> logging \<Rightarrow> metrics \<Rightarrow> string" where
  "Metrics_print level st m =
     lg_stream (fold (log_value st)
       [CHR 0x09 # ''maxRss='', to_digits (me_maxRss m), newline,
        CHR 0x09 # ''numberThreads='', to_digits (me_numberThreads m), newline,
        [CHR 0x09, CHR 0x27] @ ''lsof'' @ [CHR 0x27, CHR 0x3D], to_digits (me_numberOpenFDs m), newline]
       (Logger_new level True))"

subsection \<open>Times\<close>

text \<open>
  The clock counts in ticks; \<open>seconds\<close> is the text of a time with three digits after the point.
  The stream is not the log of the program but goes through a logger of the level \<open>INFO\<close>.
\<close>

record chronometer =
  ch_enabled :: bool
  ch_location :: source_location
  ch_globalStart :: nat
  ch_localStart :: nat

definition Chronometer_new :: "bool \<Rightarrow> source_location \<Rightarrow> nat \<Rightarrow> chronometer" where
  "Chronometer_new enable loc now =
     \<lparr>ch_enabled = enable, ch_location = loc, ch_globalStart = (if enable then now else 0),
      ch_localStart = (if enable then now else 0)\<rparr>"

definition info_text :: "logging \<Rightarrow> string list \<Rightarrow> string" where
  "info_text st vs = lg_stream (fold (log_value st) vs (Logger_new INFO True))"

definition Chronometer_start :: "logging \<Rightarrow> source_location \<Rightarrow> nat \<Rightarrow> chronometer \<Rightarrow> string \<times> chronometer" where
  "Chronometer_start st loc now ch =
     (if ch_enabled ch
      then (info_text st [''start'', ''-'', loc_file loc, '':'', to_digits (loc_line loc), '' '', loc_function loc, newline],
            ch\<lparr>ch_localStart := now\<rparr>)
      else ([], ch))"

definition Chronometer_stop :: "logging \<Rightarrow> (nat \<Rightarrow> string) \<Rightarrow> source_location \<Rightarrow> nat \<Rightarrow> chronometer \<Rightarrow> string" where
  "Chronometer_stop st seconds loc now ch =
     (if ch_enabled ch
      then info_text st [''stop'', ''-'', loc_file loc, '':'', to_digits (loc_line loc), '' '', loc_function loc,
             '' elapsed='', seconds (now - ch_localStart ch), ''s'', newline]
      else [])"

definition Chronometer_end :: "logging \<Rightarrow> (nat \<Rightarrow> string) \<Rightarrow> nat \<Rightarrow> chronometer \<Rightarrow> string" where
  "Chronometer_end st seconds now ch =
     (if ch_enabled ch
      then info_text st [''~Chronometer'', '':'', loc_file (ch_location ch), '':'', to_digits (loc_line (ch_location ch)),
             '' '', loc_function (ch_location ch), '' '', ''elapsed='', seconds (now - ch_globalStart ch), ''s'', newline]
      else [])"

subsection \<open>What the operator sees\<close>

text \<open>
  A warning says that a session has to wait; it is shown exactly when the status of the session
  is one of the two, which the pool has set when the session came in.
\<close>

lemma capacity_warned:
  "(\<exists>text. (WARN, text) \<in> set (session_capacity kind n r p)) \<longleftrightarrow>
     rn_status (p_objects p r) \<in> {MAX_OBJECTS_OF_TYPE, MAX_TOTAL_OBJECTS}"
  by (simp add: session_capacity_def displayCapacityCheck_def split: STATUS.split)

text \<open>
  The server reports every failure of the configuration, of the policy and of the acceptors by
  its code, as long as what is thrown is a standard exception. An option that is missing ends
  the client by \<open>std::terminate\<close>.
\<close>

theorem program_ends:
  assumes "server_options_wf p" "client_options_wf q" "json_ok (svo_jv p)" "json_ok (clo_jv q)"
    and "\<forall>jv. parsed = Inr jv \<longrightarrow> json_ok jv"
    and "\<forall>p e. start p = Inl e \<or> stop = Inl e \<longrightarrow> std_exception e" "\<forall>kind q e. run kind q = Inl e \<longrightarrow> std_exception e"
  shows "snd (server_main (Some terminal) (ServerOptions_parse name parsed hw p) start stop t) \<in>
      {Returns 0, Returns 3, Returns 5, Exit_Called 3} \<and>
    snd (client_main (Some terminal) (ClientOptions_parse name ext parsed q) run t) \<in>
      {Returns 0, Returns 3, Exit_Called 3} \<union>
      {Uncaught e | e q'. ClientOptions_parse name ext parsed q = Threw_Parse e q'}"
proof -
  have "case ServerOptions_parse name parsed hw p of Parsed _ \<Rightarrow> True | Threw_Parse e _ \<Rightarrow> std_exception e | Exits n \<Rightarrow> n = 3"
    and "case ClientOptions_parse name ext parsed q of Parsed _ \<Rightarrow> True | Threw_Parse e _ \<Rightarrow> True | Exits n \<Rightarrow> n = 3"
    using parse_options_wf_aux [OF assms(1-5), of name hw ext] by (auto split: parse_end.splits)
  then show ?thesis
    using assms(6,7) by (auto simp: server_main_def client_main_def Let_def split: parse_end.splits sum.splits)
qed

end
