(* ===== verification/Connecting.thy ===== *)
theory Connecting
  imports Transport
begin

section \<open>How clients and acceptors are connected (TcpClient, FifoClient, TcpAcceptor, Server)\<close>

text \<open>
  The constructors of the two clients make the encryptors, connect, send the signatures and keys and
  wait for the status; the client exists only if all of it succeeds. The acceptor of TCP opens its
  socket in four calls. The results of the calls and the bytes that arrive are arguments; \<open>err\<close> is
  the text of \<open>createErrorString\<close>. The heartbeat that the constructor starts at last is in \<open>Client_Life\<close>.
\<close>

subsection \<open>TcpClient\<close>

definition tcp_sendSignature ::
  "crypto_libs \<Rightarrow> exchange_random \<Rightarrow> asio_error option \<Rightarrow> string list \<Rightarrow> client \<Rightarrow> (string \<times> string \<times> client) result" where
  "tcp_sendSignature lib xr ec chunks c =
     (case tcp_sendMessage ec (ct_authenticationHeader c) (ct_primarySignatureWithKey c) (ct_primaryPubKeyAes c)
             (ct_secondarySignatureWithKey c) (ct_secondaryPubKeyAes c) of (sent, ok) \<Rightarrow>
        let (ok, c) = (if ok then sendSignatureCommon c else (False, c)) in
        if \<not> ok then Inl (Runtime_Error ''TcpClient::init failed'')
        else bindE (tcp_receiveStatus lib xr chunks c) (\<lambda>(ok, warning, c).
          if \<not> ok then Inl (Runtime_Error ''TcpClient::receiveStatus failed'') else Inr (sent, warning, c)))"

definition TcpClient_new ::
  "string \<Rightarrow> CRYPTO \<Rightarrow> crypto_libs \<Rightarrow> string \<Rightarrow> client_random \<Rightarrow> exchange_random \<Rightarrow> HEADER \<Rightarrow> bool \<Rightarrow> asio_error option \<Rightarrow>
   string list \<Rightarrow> (string \<times> string \<times> client) result" where
  "TcpClient_new err primary lib auth cr xr fresh linked ec chunks =
     bindE (Client_new primary lib auth cr fresh) (\<lambda>c.
       if \<not> linked then Inl (Runtime_Error err) else tcp_sendSignature lib xr ec chunks c)"

subsection \<open>FifoClient\<close>

text \<open>\<open>None\<close> says that a call on the pipe does not return.\<close>

definition fifo_sendSignature ::
  "bool \<Rightarrow> write_result list \<Rightarrow> client \<Rightarrow> (string \<times> bool \<times> client) option result" where
  "fifo_sendSignature opened ws c =
     bindE (fifo_sendMessage opened ws (ct_authenticationHeader c) (ct_primarySignatureWithKey c) (ct_primaryPubKeyAes c)
              (ct_secondarySignatureWithKey c) (ct_secondaryPubKeyAes c)) (\<lambda>r.
       Inr (map_option (\<lambda>(sent, ok). if ok then (sent, sendSignatureCommon c) else (sent, False, c)) r))"

definition FifoClient_new ::
  "CRYPTO \<Rightarrow> crypto_libs \<Rightarrow> string \<Rightarrow> client_random \<Rightarrow> exchange_random \<Rightarrow> HEADER \<Rightarrow> 'a options_scheme \<Rightarrow> bool \<Rightarrow>
   write_result list \<Rightarrow> bool \<Rightarrow> read_result list \<Rightarrow> (string \<times> string \<times> client) option result" where
  "FifoClient_new primary lib auth cr xr fresh p opened ws opened_read rs =
     bindE (Client_new primary lib auth cr fresh) (\<lambda>c.
     bindE (fifo_sendSignature opened ws c) (\<lambda>r.
       case r of
         None \<Rightarrow> Inr None
       | Some (sent, ok, c) \<Rightarrow>
           if \<not> ok then Inl (Runtime_Error ''FifoClient::sendSignature failed'')
           else bindE (fifo_receiveStatus lib xr (op_fifoDirectoryName p) opened_read rs c) (\<lambda>r.
             case r of
               None \<Rightarrow> Inr None
             | Some (ok, warning, c) \<Rightarrow>
                 if \<not> ok then Inl (Runtime_Error ''FifoClient::receiveStatus failed'')
                 else Inr (Some (sent, warning, c)))))"

text \<open>The destructor unblocks the session that waits for the pipe, if the pipe is still there.\<close>

definition FifoClient_end ::
  "string \<Rightarrow> 'a options_scheme \<Rightarrow> bool \<Rightarrow> open_result list \<Rightarrow> 64 word \<times> 64 word \<times> 64 word \<Rightarrow> nat list option result" where
  "FifoClient_end err p exists attempts sizes =
     (if exists
      then (case onExit err p attempts sizes of
              Inl e \<Rightarrow> if std_exception e then Inr (Some []) else Inl e
            | Inr r \<Rightarrow> Inr r)
      else Inr (Some []))"

subsection \<open>The acceptor of TCP and the server\<close>

text \<open>
  The results of \<open>open\<close>, \<open>set_option\<close>, \<open>bind\<close> and \<open>listen\<close>; after an error the following calls are left
  out. The first component says whether \<open>accept\<close> was posted.
\<close>

fun first_error :: "'e option list \<Rightarrow> 'e option" where
  "first_error [] = None"
| "first_error (ec # ecs) = (case ec of None \<Rightarrow> first_error ecs | Some e \<Rightarrow> Some e)"

definition TcpAcceptor_start ::
  "asio_error option \<Rightarrow> asio_error option \<Rightarrow> asio_error option \<Rightarrow> asio_error option \<Rightarrow> bool \<times> bool" where
  "TcpAcceptor_start open_ec option_ec bind_ec listen_ec =
     (case first_error [open_ec, option_ec, bind_ec, listen_ec] of None \<Rightarrow> (True, True) | Some e \<Rightarrow> (False, False))"

lemma first_error_None: "first_error ecs = None \<longleftrightarrow> set ecs \<subseteq> {None}"
  by (induction ecs) (auto split: option.splits)

lemma TcpAcceptor_start_ok:
  "snd (TcpAcceptor_start a b c d) \<longleftrightarrow> a = None \<and> b = None \<and> c = None \<and> d = None"
  by (auto simp: TcpAcceptor_start_def split: option.split)

text \<open>The destructor of the server: the map of the ads and the terminals are cleared.\<close>

definition Server_end :: "ads \<Rightarrow> terminals \<Rightarrow> ads \<times> terminals" where
  "Server_end ads t = (ads_clear ads, removeAccess t)"

subsection \<open>A client that is constructed\<close>

text \<open>What a constructor leaves when it returns.\<close>

definition secured :: "client \<Rightarrow> bool" where
  "secured c \<longleftrightarrow>
     (\<exists>e. tu_sodium (ct_encryptors c) = Some e \<and> en_keysExchanged e \<and> en_signatureSent e) \<and>
     (\<exists>e. tu_cryptopp (ct_encryptors c) = Some e \<and> en_keysExchanged e \<and> en_signatureSent e) \<and>
     set (ct_primarySignatureWithKey c @ ct_primaryPubKeyAes c @ ct_secondarySignatureWithKey c @ ct_secondaryPubKeyAes c)
       \<subseteq> {nul}"

lemma exchange_marks:
  "sodium_clientKeyExchange lib r p e = Inr e' \<Longrightarrow> en_keysExchanged e' \<and> en_signatureSent e' = en_signatureSent e"
  "cryptopp_clientKeyExchange lib' r p e = Inr e' \<Longrightarrow> en_keysExchanged e' \<and> en_signatureSent e' = en_signatureSent e"
  by (auto simp: sodium_clientKeyExchange_def cryptopp_clientKeyExchange_def bindE_Inr_iff split: if_splits option.splits prod.splits)

lemma clientKeyExchange_secured:
  assumes "clientKeyExchange lib xr q2 q3 c = Inr c'"
    and "tu_sodium (ct_encryptors c) = Some e0" "en_signatureSent e0"
    and "tu_cryptopp (ct_encryptors c) = Some e1" "en_signatureSent e1"
    and "set (ct_primarySignatureWithKey c @ ct_primaryPubKeyAes c @ ct_secondarySignatureWithKey c @ ct_secondaryPubKeyAes c)
      \<subseteq> {nul}"
  shows "secured c'"
proof -
  obtain f0 where f0: "sodium_clientKeyExchange (cl_sodium lib) (xr_sodium xr) q2 e0 = Inr f0"
    using assms(1,2) by (auto simp: clientKeyExchange_def optionally_def bindE_Inr_iff)
  obtain f1 where f1: "cryptopp_clientKeyExchange (cl_cryptopp lib) (xr_cryptopp xr) q3 e1 = Inr f1"
    using assms(1,4) by (auto simp: clientKeyExchange_def optionally_def bindE_Inr_iff)
  have "\<exists>x y. c' = c\<lparr>ct_encryptors := (ct_encryptors c)\<lparr>tu_sodium := Some f0, tu_cryptopp := Some f1\<rparr>,
      ct_primaryCryptopp := x, ct_secondarySodium := y\<rparr>"
    using assms(1,2,4) f0 f1 by (auto simp: clientKeyExchange_def optionally_def bindE_Inr_iff)
  then show ?thesis
    using exchange_marks(1) [OF f0] exchange_marks(2) [OF f1] assms(3,5,6) by (auto simp: secured_def)
qed

lemma processStatus_exchange:
  "processStatus lib xr q2 type q3 c = Inr (True, warning, c') \<Longrightarrow>
     clientKeyExchange lib xr q2 q3 (c\<lparr>ct_status := extractStatus (ct_header c)\<rparr>) = Inr c'"
  by (auto simp: processStatus_def Let_def split: sum.splits if_splits)

lemma take_status_secured:
  assumes "take_status lib xr type r c = Inr (True, warning, c')"
    and "tu_sodium (ct_encryptors c) = Some e0" "en_signatureSent e0"
    and "tu_cryptopp (ct_encryptors c) = Some e1" "en_signatureSent e1"
    and "set (ct_primarySignatureWithKey c @ ct_primaryPubKeyAes c @ ct_secondarySignatureWithKey c @ ct_secondaryPubKeyAes c)
      \<subseteq> {nul}"
  shows "secured c'"
proof -
  obtain h array clientId where
    "processStatus lib xr (array ! 1) type (array ! 2) (c\<lparr>ct_header := h, ct_clientId := clientId\<rparr>) = Inr (True, warning, c')"
    using assms(1) by (auto simp: take_status_def bindE_Inr_iff split: if_splits)
  from clientKeyExchange_secured [OF processStatus_exchange [OF this]] show ?thesis using assms(2-6) by simp
qed

text \<open>After \<open>sendSignatureCommon\<close> the encryptors of a new client are as the lemmas above need them.\<close>

lemma sendSignatureCommon_sent:
  assumes "Client_new primary lib auth cr fresh = Inr c"
  obtains e0 e1 where "tu_sodium (ct_encryptors (snd (sendSignatureCommon c))) = Some e0" "en_signatureSent e0"
    "tu_cryptopp (ct_encryptors (snd (sendSignatureCommon c))) = Some e1" "en_signatureSent e1"
    "set (ct_primarySignatureWithKey (snd (sendSignatureCommon c)) @ ct_primaryPubKeyAes (snd (sendSignatureCommon c)) @
       ct_secondarySignatureWithKey (snd (sendSignatureCommon c)) @ ct_secondaryPubKeyAes (snd (sendSignatureCommon c)))
       \<subseteq> {nul}"
    "fst (sendSignatureCommon c)"
proof -
  obtain d0 d1 where d: "tu_sodium (ct_encryptors c) = Some d0" "tu_cryptopp (ct_encryptors c) = Some d1"
    using assms by (auto simp: Client_new_def bindE_Inr_iff)
  show ?thesis
    by (rule that [of "sodium_sendSignature d0" "cryptopp_sendSignature d1"])
      (auto simp: d sendSignatureCommon_def zeroed_def)
qed

lemma FifoClient_new_parts:
  assumes "FifoClient_new primary lib auth cr xr fresh p opened ws opened_read rs = Inr (Some (sent, warning, c))"
    and "Client_new primary lib auth cr fresh = Inr c0"
  obtains c1 where "fifo_sendSignature opened ws c0 = Inr (Some (sent, True, c1))"
    "fifo_receiveStatus lib xr (op_fifoDirectoryName p) opened_read rs c1 = Inr (Some (True, warning, c))"
proof -
  obtain r where r: "fifo_sendSignature opened ws c0 = Inr r"
    using assms by (auto simp: FifoClient_new_def bindE_Inr_iff)
  with assms obtain s1 c1 where s1: "r = Some (s1, True, c1)"
    by (cases r) (simp_all add: FifoClient_new_def split: prod.splits if_splits)
  obtain q where q: "fifo_receiveStatus lib xr (op_fifoDirectoryName p) opened_read rs c1 = Inr q"
    using assms r s1 by (auto simp: FifoClient_new_def bindE_Inr_iff)
  show ?thesis
    using assms r s1 q by (cases q) (auto simp: FifoClient_new_def split: if_splits intro: that)
qed


subsection \<open>Witnesses\<close>


end
