(* ===== verification/Monocypher.thy ===== *)
theory Monocypher
  imports Prelude
begin

unbundle bit_operations_syntax

section \<open>Monocypher: bytes, words and constant-time comparison\<close>

text \<open>
  The utilities of \<open>common/monocypher.cpp\<close>, the file that the tests of the repository encrypt
  with: words of 24, 32 and 64 bits in the little-endian order of bytes, rotations, the alignment
  of sizes, the comparison that takes the same time whether or not the arguments differ, and
  \<open>crypto_wipe\<close>.  Buffers are lists of bytes.  A function that writes into a buffer returns what
  it writes; one that reads an array of a fixed size reads the first bytes of its argument.  A
  size that is only counted is a \<^typ>\<open>nat\<close>; one whose bits are used is a word.
\<close>

type_synonym u8 = "8 word"
type_synonym u32 = "32 word"
type_synonym u64 = "64 word"

subsection \<open>Definitions\<close>

definition gap :: "u64 \<Rightarrow> u64 \<Rightarrow> u64" where
  "gap x pow_2 = (NOT x + 1) AND (pow_2 - 1)"

definition load24_le :: "u8 list \<Rightarrow> u32" where
  "load24_le s = push_bit 0 (ucast (s ! 0)) OR push_bit 8 (ucast (s ! 1)) OR push_bit 16 (ucast (s ! 2))"

definition load32_le :: "u8 list \<Rightarrow> u32" where
  "load32_le s = push_bit 0 (ucast (s ! 0)) OR push_bit 8 (ucast (s ! 1)) OR
     push_bit 16 (ucast (s ! 2)) OR push_bit 24 (ucast (s ! 3))"

definition load64_le :: "u8 list \<Rightarrow> u64" where
  "load64_le s = ucast (load32_le s) OR push_bit 32 (ucast (load32_le (drop 4 s)))"

definition store32_le :: "u32 \<Rightarrow> u8 list" where
  "store32_le w = [ucast w, ucast (drop_bit 8 w), ucast (drop_bit 16 w), ucast (drop_bit 24 w)]"

definition store64_le :: "u64 \<Rightarrow> u8 list" where
  "store64_le w = store32_le (ucast w) @ store32_le (ucast (drop_bit 32 w))"

definition load32_le_buf :: "u8 list \<Rightarrow> nat \<Rightarrow> u32 list" where
  "load32_le_buf src n = map (\<lambda>i. load32_le (drop (i * 4) src)) [0..<n]"

definition load64_le_buf :: "u8 list \<Rightarrow> nat \<Rightarrow> u64 list" where
  "load64_le_buf src n = map (\<lambda>i. load64_le (drop (i * 8) src)) [0..<n]"

definition store32_le_buf :: "u32 list \<Rightarrow> nat \<Rightarrow> u8 list" where
  "store32_le_buf src n = concat (map (\<lambda>i. store32_le (src ! i)) [0..<n])"

definition store64_le_buf :: "u64 list \<Rightarrow> nat \<Rightarrow> u8 list" where
  "store64_le_buf src n = concat (map (\<lambda>i. store64_le (src ! i)) [0..<n])"

definition rotr64 :: "u64 \<Rightarrow> nat \<Rightarrow> u64" where
  "rotr64 x n = drop_bit n x XOR push_bit (64 - n) x"

definition rotl32 :: "u32 \<Rightarrow> nat \<Rightarrow> u32" where
  "rotl32 x n = push_bit n x XOR drop_bit (32 - n) x"

definition neq0 :: "u64 \<Rightarrow> int" where
  "neq0 diff =
     (let half = drop_bit 32 diff OR ucast (ucast diff :: u32);
          eq0 = 1 AND drop_bit 32 (half - 1)
      in uint (eq0 :: u64) - 1)"

definition x16 :: "u8 list \<Rightarrow> u8 list \<Rightarrow> u64" where
  "x16 a b = (load64_le a XOR load64_le b) OR (load64_le (drop 8 a) XOR load64_le (drop 8 b))"

definition x32 :: "u8 list \<Rightarrow> u8 list \<Rightarrow> u64" where
  "x32 a b = x16 a b OR x16 (drop 16 a) (drop 16 b)"

definition x64 :: "u8 list \<Rightarrow> u8 list \<Rightarrow> u64" where
  "x64 a b = x32 a b OR x32 (drop 32 a) (drop 32 b)"

definition crypto_verify16 :: "u8 list \<Rightarrow> u8 list \<Rightarrow> int" where
  "crypto_verify16 a b = neq0 (x16 a b)"

definition crypto_verify32 :: "u8 list \<Rightarrow> u8 list \<Rightarrow> int" where
  "crypto_verify32 a b = neq0 (x32 a b)"

definition crypto_verify64 :: "u8 list \<Rightarrow> u8 list \<Rightarrow> int" where
  "crypto_verify64 a b = neq0 (x64 a b)"

definition crypto_wipe :: "u8 list \<Rightarrow> nat \<Rightarrow> u8 list" where
  "crypto_wipe secret sz = replicate sz 0 @ drop sz secret"

subsection \<open>Bytes of words\<close>

text \<open>The number that bytes stand for, the least significant one first.\<close>

fun le_value :: "u8 list \<Rightarrow> int" where
  "le_value [] = 0"
| "le_value (b # bs) = uint b + 256 * le_value bs"

lemma le_value_append: "le_value (xs @ ys) = le_value xs + 256 ^ length xs * le_value ys"
  by (induction xs) (simp_all add: algebra_simps)

lemma le_value_zeros [simp]: "le_value (replicate n 0) = 0"
  by (induction n) simp_all

lemma le_value_bounds: "0 \<le> le_value xs" "le_value xs < 256 ^ length xs"
proof (induction xs)
  case (Cons b bs)
  have "0 \<le> uint b" "uint b < 256" using uint_range_size [of b] by (simp_all add: word_size)
  then show "0 \<le> le_value (b # bs)" "le_value (b # bs) < 256 ^ length (b # bs)"
    using Cons by (simp_all)
qed simp_all

lemma list4E:
  assumes "4 \<le> length s" obtains a b c d r where "s = a # b # c # d # r"
  using assms by (auto simp: numeral_eq_Suc Suc_le_length_iff)

lemma bit_load32_le:
  "bit (load32_le (a # b # c # d # r)) n \<longleftrightarrow>
     (if n < 8 then bit a n else if n < 16 then bit b (n - 8) else if n < 24 then bit c (n - 16)
      else n < 32 \<and> bit d (n - 24))"
  by (auto simp: load32_le_def bit_simps dest: bit_imp_le_length)

lemma load32_le_store32_le [simp]: "load32_le (store32_le w @ r) = w"
  unfolding store32_le_def append_Cons append_Nil
  by (rule bit_word_eqI) (auto simp: bit_load32_le bit_simps)

lemma length_store_le [simp]: "length (store32_le w) = 4" "length (store64_le v) = 8"
  by (simp_all add: store32_le_def store64_le_def)

lemma store32_le_load32_le:
  assumes "4 \<le> length s" shows "store32_le (load32_le s) = take 4 s"
proof -
  obtain a b c d r where s: "s = a # b # c # d # r" using assms by (rule list4E)
  show ?thesis
    unfolding s store32_le_def by (simp, safe; rule bit_word_eqI) (auto simp: bit_load32_le bit_simps)
qed

lemma load64_le_store64_le [simp]: "load64_le (store64_le w @ r) = w"
  by (rule bit_word_eqI) (auto simp: load64_le_def store64_le_def bit_simps)

lemma store64_le_load64_le:
  assumes "8 \<le> length s" shows "store64_le (load64_le s) = take 8 s"
proof -
  have "ucast (load64_le s) = load32_le s" "ucast (drop_bit 32 (load64_le s)) = load32_le (drop 4 s)"
    by (rule bit_word_eqI; auto simp: load64_le_def bit_simps dest: bit_imp_le_length)+
  then show ?thesis
    using assms by (simp add: store64_le_def store32_le_load32_le flip: take_add)
qed

lemma load64_le_eq_iff:
  assumes "8 \<le> length s" "8 \<le> length t"
  shows "load64_le s = load64_le t \<longleftrightarrow> take 8 s = take 8 t"
proof
  assume "take 8 s = take 8 t"
  then have "load64_le (take 8 s @ drop 8 s) = load64_le (take 8 t @ drop 8 t)"
    using assms by (metis load64_le_store64_le store64_le_load64_le)
  then show "load64_le s = load64_le t" by simp
qed (metis assms store64_le_load64_le)

subsection \<open>Loads, stores and sizes\<close>

lemma uint_u8_bounds [simp]: "0 \<le> uint (b :: u8)" "uint (b :: u8) < 256"
  using uint_range_size [of b] by (simp_all add: word_size)

lemma four_digits:
  fixes v :: int
  assumes "0 \<le> v" "v < 4294967296"
  shows "v mod 256 + 256 * (v div 256 mod 256 + 256 * (v div 65536 mod 256 + 256 * (v div 16777216 mod 256))) = v"
proof -
  have "v div 65536 = v div 256 div 256" "v div 16777216 = v div 65536 div 256"
    by (simp_all flip: zdiv_zmult2_eq)
  moreover have "0 \<le> v div 16777216" "v div 16777216 < 256"
    using assms by (simp_all add: pos_imp_zdiv_nonneg_iff div_less_iff_less_mult)
  then have "v div 16777216 mod 256 = v div 16777216" by (rule mod_pos_pos_trivial)
  ultimately show ?thesis by (simp only: mod_mult_div_eq)
qed

lemma store32_le_value [simp]: "le_value (store32_le w) = uint w"
proof -
  have "0 \<le> uint w" "uint w < 4294967296" using uint_range_size [of w] by (simp_all add: word_size)
  note digits = four_digits [OF this]
  have "uint (ucast w :: u8) = uint w mod 256" "uint (ucast (drop_bit 8 w) :: u8) = uint w div 256 mod 256"
    "uint (ucast (drop_bit 16 w) :: u8) = uint w div 65536 mod 256"
    "uint (ucast (drop_bit 24 w) :: u8) = uint w div 16777216 mod 256"
    by (simp_all add: unsigned_ucast_eq unsigned_drop_bit_eq take_bit_eq_mod drop_bit_eq_div uint_div)
  then show ?thesis by (simp only: store32_le_def le_value.simps digits mult_zero_right add_0_right)
qed

lemma uint_load32_le: "4 \<le> length s \<Longrightarrow> uint (load32_le s) = le_value (take 4 s)"
  by (metis store32_le_load32_le store32_le_value)

lemma length_load_buf [simp]:
  "length (load32_le_buf s n) = n" "length (load64_le_buf s n) = n"
  by (simp_all add: load32_le_buf_def load64_le_buf_def)

lemma load_buf_nth [simp]:
  "i < n \<Longrightarrow> load32_le_buf s n ! i = load32_le (drop (i * 4) s)"
  "i < n \<Longrightarrow> load64_le_buf s n ! i = load64_le (drop (i * 8) s)"
  by (simp_all add: load32_le_buf_def load64_le_buf_def)

lemma gap_eq: "gap x (2 ^ k) = take_bit k (- x)"
  by (simp add: gap_def take_bit_eq_mask mask_eq_exp_minus_1 minus_eq_not_plus_1)

lemma take_bit_unat_add:
  "k \<le> LENGTH('a) \<Longrightarrow> take_bit k (unat (x + y :: 'a::len word)) = take_bit k (unat x + unat y)"
  by (simp only: unat_word_ariths take_bit_eq_mod [symmetric] take_bit_take_bit min_absorb1)

lemma gap_aligns:
  assumes "k < 64"
  shows "unat (gap x (2 ^ k)) < 2 ^ k" "2 ^ k dvd unat x + unat (gap x (2 ^ k))"
proof -
  show "unat (gap x (2 ^ k)) < 2 ^ k"
    unfolding gap_eq unsigned_take_bit_eq by (rule take_bit_nat_less_exp)
  have "take_bit k (unat x + unat (- x)) = take_bit k (unat (x + - x))"
    using assms by (subst take_bit_unat_add) simp_all
  then have "take_bit k (unat x + unat (gap x (2 ^ k))) = 0"
    unfolding gap_eq unsigned_take_bit_eq
    using take_bit_add [of k "unat x" "take_bit k (unat (- x))"] take_bit_add [of k "unat x" "unat (- x)"]
    by (simp only: take_bit_take_bit min.idem add.right_inverse unsigned_0 take_bit_of_0)
  then show "2 ^ k dvd unat x + unat (gap x (2 ^ k))" by (simp only: take_bit_eq_0_iff)
qed

subsection \<open>Comparison\<close>

lemma neq0_eq: "neq0 d = (if d = 0 then 0 else - 1)"
proof -
  define h where "h = drop_bit 32 d OR ucast (ucast d :: u32)"
  have h: "bit h n \<longleftrightarrow> n < 32 \<and> (bit d n \<or> bit d (n + 32))" for n
    by (auto simp: h_def bit_simps ac_simps dest: bit_imp_le_length)
  have high: "\<not> bit (h - 1) n" if "h \<noteq> 0" "n \<ge> 32" for n
  proof -
    have "take_bit 32 h = h"
      by (rule bit_word_eqI) (auto simp: bit_take_bit_iff h)
    then have "unat h < 2 ^ 32" by (metis take_bit_nat_less_exp unsigned_take_bit_eq)
    moreover have "unat (h - 1) \<le> unat h"
      using that by (subst unat_minus_one) simp_all
    ultimately have "unat (h - 1) < 2 ^ 32" by linarith
    then have "take_bit 32 (unat (h - 1)) = unat (h - 1)" by (rule take_bit_nat_eq_self)
    then have "take_bit 32 (h - 1) = h - 1" by (metis unsigned_take_bit_eq word_unat_eq_iff)
    then show ?thesis using that by (metis bit_take_bit_iff linorder_not_less)
  qed
  show ?thesis
  proof (cases "h = 0")
    case True
    have "d = 0"
    proof (rule bit_word_eqI)
      fix n assume "n < LENGTH(64)"
      then show "bit d n = bit 0 n"
        using h [of n] h [of "n - 32"] True by (cases "n < 32") auto
    qed
    then show ?thesis by (simp add: neq0_def one_and_eq mask_eq_exp_minus_1)
  next
    case False
    then have "drop_bit 32 (h - 1) = 0" using high by (intro bit_word_eqI) (simp add: bit_drop_bit_eq)
    moreover have "d \<noteq> 0" using False by (auto simp: h_def)
    ultimately show ?thesis by (simp only: neq0_def Let_def flip: h_def) simp
  qed
qed

lemma xor_0_iff: "x XOR y = 0 \<longleftrightarrow> x = (y :: u64)"
  by (auto simp: bit_eq_iff bit_xor_iff)

lemma x16_eq_0:
  assumes "16 \<le> length a" "16 \<le> length b"
  shows "x16 a b = 0 \<longleftrightarrow> take 16 a = take 16 b"
  using assms take_add [of 8 8 a] take_add [of 8 8 b]
  by (simp add: x16_def or_eq_0_iff xor_0_iff load64_le_eq_iff append_eq_append_conv_if)

lemma take_half_eq_iff:
  assumes "m + n \<le> length a" "m + n \<le> length b"
  shows "take (m + n) a = take (m + n) b \<longleftrightarrow> take m a = take m b \<and> take n (drop m a) = take n (drop m b)"
  using assms by (simp add: take_add)

text \<open>The three comparisons tell whether the arrays hold the same bytes.\<close>

lemma crypto_verify16_eq:
  assumes "16 \<le> length a" "16 \<le> length b"
  shows "crypto_verify16 a b = (if take 16 a = take 16 b then 0 else - 1)"
  using assms by (simp add: crypto_verify16_def neq0_eq x16_eq_0)

lemma crypto_verify32_eq:
  assumes "32 \<le> length a" "32 \<le> length b"
  shows "crypto_verify32 a b = (if take 32 a = take 32 b then 0 else - 1)"
  using assms take_half_eq_iff [of 16 16 a b]
  by (simp add: crypto_verify32_def neq0_eq x32_def or_eq_0_iff x16_eq_0)

lemma crypto_verify64_eq:
  assumes "64 \<le> length a" "64 \<le> length b"
  shows "crypto_verify64 a b = (if take 64 a = take 64 b then 0 else - 1)"
  using assms take_half_eq_iff [of 16 16 a b] take_half_eq_iff [of 32 32 a b]
    take_half_eq_iff [of 16 16 "drop 32 a" "drop 32 b"]
  by (simp add: crypto_verify64_def neq0_eq x64_def x32_def or_eq_0_iff x16_eq_0)

end
