(* ===== verification/Chacha20.thy ===== *)
theory Chacha20
  imports Monocypher
begin

section \<open>Monocypher: the stream cipher Chacha20\<close>

text \<open>
  The section \<open>Chacha 20\<close> of \<open>common/monocypher.cpp\<close>: the rounds, the hash
  \<open>crypto_chacha20_h\<close>, and the three ciphers with nonces of 8, 12 and 24 bytes.  The pointer
  \<open>plain_text\<close>, which may be \<open>NULL\<close>, is an option; a cipher returns the bytes that it writes and
  the counter.  The theorems say that the cipher is the exclusive or of the text with a key
  stream, whose block number is a counter of 64 bits although the code keeps its halves apart;
  hence it is undone by itself and can be continued at a block boundary.
\<close>

subsection \<open>Definitions\<close>

text \<open>The macro works on four of the sixteen variables; \<open>quarter\<close> applies it to their places.\<close>

definition QUARTERROUND :: "u32 \<Rightarrow> u32 \<Rightarrow> u32 \<Rightarrow> u32 \<Rightarrow> u32 \<times> u32 \<times> u32 \<times> u32" where
  "QUARTERROUND a b c d =
     (let a = a + b; d = rotl32 (d XOR a) 16;
          c = c + d; b = rotl32 (b XOR c) 12;
          a = a + b; d = rotl32 (d XOR a) 8;
          c = c + d; b = rotl32 (b XOR c) 7
      in (a, b, c, d))"

definition quarter :: "nat \<Rightarrow> nat \<Rightarrow> nat \<Rightarrow> nat \<Rightarrow> u32 list \<Rightarrow> u32 list" where
  "quarter i j k l t =
     (case QUARTERROUND (t ! i) (t ! j) (t ! k) (t ! l) of
        (a, b, c, d) \<Rightarrow> t[i := a, j := b, k := c, l := d])"

definition two_rounds :: "u32 list \<Rightarrow> u32 list" where
  "two_rounds t =
     (let t = quarter 0 4 8 12 t; t = quarter 1 5 9 13 t;
          t = quarter 2 6 10 14 t; t = quarter 3 7 11 15 t;
          t = quarter 0 5 10 15 t; t = quarter 1 6 11 12 t;
          t = quarter 2 7 8 13 t; t = quarter 3 4 9 14 t
      in t)"

definition chacha20_rounds :: "u32 list \<Rightarrow> u32 list" where
  "chacha20_rounds inp = (two_rounds ^^ 10) (take 16 inp)"

text \<open>The bytes of \<open>expand 32-byte k\<close>.\<close>

definition chacha20_constant :: "u8 list" where
  "chacha20_constant = map of_char ''expand 32-byte k''"

definition crypto_chacha20_h :: "u8 list \<Rightarrow> u8 list \<Rightarrow> u8 list" where
  "crypto_chacha20_h key inp =
     (let block = load32_le_buf chacha20_constant 4 @ load32_le_buf key 8 @ load32_le_buf inp 4;
          block = chacha20_rounds block
      in store32_le_buf block 4 @ store32_le_buf (drop 12 block) 4)"

definition next_input :: "u32 list \<Rightarrow> u32 list" where
  "next_input inp =
     (let inp = inp[12 := inp ! 12 + 1]
      in if inp ! 12 = 0 then inp[13 := inp ! 13 + 1] else inp)"

text \<open>The loop over the whole blocks: the cipher text, where the plain text stands, the input.\<close>

fun whole_blocks :: "nat \<Rightarrow> u8 list option \<Rightarrow> u32 list \<Rightarrow> u8 list \<times> u8 list option \<times> u32 list" where
  "whole_blocks 0 plain_text inp = ([], plain_text, inp)"
| "whole_blocks (Suc nb_blocks) plain_text inp =
     (let pool = chacha20_rounds inp;
          out = (case plain_text of
              Some text \<Rightarrow> concat (map (\<lambda>j. let p = pool ! j + inp ! j
                in store32_le (p XOR load32_le (drop (4 * j) text))) [0..<16])
            | None \<Rightarrow> concat (map (\<lambda>j. let p = pool ! j + inp ! j in store32_le p) [0..<16]));
          (rest, text, inp') = whole_blocks nb_blocks (map_option (drop 64) plain_text) (next_input inp)
      in (out @ rest, text, inp'))"

definition crypto_chacha20_djb ::
  "u8 list option \<Rightarrow> nat \<Rightarrow> u8 list \<Rightarrow> u8 list \<Rightarrow> u64 \<Rightarrow> u8 list \<times> u64" where
  "crypto_chacha20_djb plain_text text_size key nonce ctr =
     (let inp = load32_le_buf chacha20_constant 4 @ load32_le_buf key 8 @
            [ucast ctr, ucast (drop_bit 32 ctr)] @ load32_le_buf nonce 2;
          nb_blocks = text_size div 64;
          (cipher_text, plain_text, inp) = whole_blocks nb_blocks plain_text inp;
          text_size = text_size mod 64;
          last = (if text_size > 0 then
              let text = (case plain_text of None \<Rightarrow> replicate 128 0 | Some text \<Rightarrow> text);
                  pool = chacha20_rounds inp;
                  tmp = concat (map (\<lambda>i. store32_le (pool ! i + inp ! i)) [0..<16])
              in map (\<lambda>i. tmp ! i XOR text ! i) [0..<text_size]
            else []);
          ctr = ucast (inp ! 12) + push_bit 32 (ucast (inp ! 13)) + of_bool (text_size > 0)
      in (cipher_text @ last, ctr))"

definition crypto_chacha20_ietf ::
  "u8 list option \<Rightarrow> nat \<Rightarrow> u8 list \<Rightarrow> u8 list \<Rightarrow> u32 \<Rightarrow> u8 list \<times> u32" where
  "crypto_chacha20_ietf plain_text text_size key nonce ctr =
     (let big_ctr = ucast ctr + push_bit 32 (ucast (load32_le nonce));
          (cipher_text, ctr) = crypto_chacha20_djb plain_text text_size key (drop 4 nonce) big_ctr
      in (cipher_text, ucast ctr))"

definition crypto_chacha20_x ::
  "u8 list option \<Rightarrow> nat \<Rightarrow> u8 list \<Rightarrow> u8 list \<Rightarrow> u64 \<Rightarrow> u8 list \<times> u64" where
  "crypto_chacha20_x plain_text text_size key nonce ctr =
     (let sub_key = crypto_chacha20_h key nonce
      in crypto_chacha20_djb plain_text text_size sub_key (drop 16 nonce) ctr)"

subsection \<open>The key stream\<close>

text \<open>
  The reference: the input for a block number of 64 bits, the block of the stream that it gives,
  and the bytes of the stream.
\<close>

definition chacha20_input :: "u8 list \<Rightarrow> u8 list \<Rightarrow> u64 \<Rightarrow> u32 list" where
  "chacha20_input key nonce ctr = load32_le_buf chacha20_constant 4 @ load32_le_buf key 8 @
     [ucast ctr, ucast (drop_bit 32 ctr)] @ load32_le_buf nonce 2"

definition chacha20_block :: "u8 list \<Rightarrow> u8 list \<Rightarrow> u64 \<Rightarrow> u8 list" where
  "chacha20_block key nonce ctr =
     (let inp = chacha20_input key nonce ctr
      in concat (map (\<lambda>i. store32_le (chacha20_rounds inp ! i + inp ! i)) [0..<16]))"

definition keystream :: "u8 list \<Rightarrow> u8 list \<Rightarrow> u64 \<Rightarrow> nat \<Rightarrow> u8" where
  "keystream key nonce ctr i = chacha20_block key nonce (ctr + of_nat (i div 64)) ! (i mod 64)"

lemma length_rounds [simp]: "length (chacha20_rounds inp) = min 16 (length inp)"
proof -
  have "length (quarter i j k l t) = length t" for i j k l t
    by (simp add: quarter_def split: prod.split)
  then have "length (two_rounds t) = length t" for t by (simp add: two_rounds_def Let_def)
  then have "length ((two_rounds ^^ n) t) = length t" for n t by (induction n) simp_all
  then show ?thesis by (simp add: chacha20_rounds_def)
qed

lemma length_concat_store [simp]: "length (concat (map (\<lambda>i. store32_le (f i)) is)) = 4 * length is"
  by (induction "is") simp_all

lemma length_chacha20 [simp]:
  "length (chacha20_input key nonce ctr) = 16" "length (chacha20_block key nonce ctr) = 64"
  by (simp_all add: chacha20_input_def chacha20_block_def Let_def)

lemma length_chacha20_h [simp]: "length (crypto_chacha20_h key inp) = 32"
  by (simp add: crypto_chacha20_h_def store32_le_buf_def Let_def)

lemma nth_concat_store:
  "i < 4 * n \<Longrightarrow> concat (map (\<lambda>i. store32_le (f i)) [0..<n]) ! i = store32_le (f (i div 4)) ! (i mod 4)"
proof (induction n)
  case (Suc n)
  show ?case
  proof (cases "i < 4 * n")
    case False
    then obtain k where "i = 4 * n + k" "k < 4" using Suc.prems by (metis add_diff_inverse_nat add_less_cancel_left mult_Suc_right add.commute)
    then show ?thesis by (simp add: nth_append)
  qed (use Suc in \<open>simp add: nth_append\<close>)
qed simp

lemma store32_le_xor:
  assumes "4 \<le> length s" "k < 4"
  shows "store32_le (w XOR load32_le s) ! k = store32_le w ! k XOR s ! k"
proof -
  obtain a b c d r where s: "s = a # b # c # d # r" using assms(1) by (rule list4E)
  have "store32_le (w XOR v) = map2 (XOR) (store32_le w) (store32_le v)" for v
    unfolding store32_le_def by (simp, safe; rule bit_word_eqI) (simp_all add: bit_simps)
  then have "store32_le (w XOR v) ! k = store32_le w ! k XOR store32_le v ! k" for v
    using assms(2) by simp
  also have "store32_le (load32_le s) ! k = s ! k"
    using assms by (simp add: store32_le_load32_le)
  finally show ?thesis .
qed


subsection \<open>The halves of the counter\<close>

lemma uint_push_32: "uint (push_bit 32 (ucast (w :: u32)) :: u64) = 2 ^ 32 * uint w"
proof -
  have "uint w < 2 ^ 32" using uint_range_size [of w] by (simp add: word_size)
  then show ?thesis
    by (simp only: unsigned_push_bit_eq unsigned_ucast_eq) (simp add: push_bit_eq_mult take_bit_eq_mod mod_pos_pos_trivial)
qed

lemma uint_low_half: "uint (ucast (x :: u64) :: u32) = uint x mod 2 ^ 32"
  by (simp add: unsigned_ucast_eq take_bit_eq_mod)

lemma uint_high_half: "uint (ucast (drop_bit 32 (x :: u64)) :: u32) = uint x div 2 ^ 32"
proof -
  have "0 \<le> uint x" "uint x < 2 ^ 64" using uint_range_size [of x] by (simp_all add: word_size)
  then have "0 \<le> uint x div 2 ^ 32" "uint x div 2 ^ 32 < 2 ^ 32"
    by (simp_all add: pos_imp_zdiv_nonneg_iff div_less_iff_less_mult)
  then show ?thesis
    by (simp only: unsigned_ucast_eq unsigned_drop_bit_eq) (simp add: drop_bit_eq_div take_bit_eq_mod mod_pos_pos_trivial uint_div)
qed

lemma u64_halves: "ucast (ucast x :: u32) + push_bit 32 (ucast (ucast (drop_bit 32 x) :: u32)) = (x :: u64)"
proof (rule word_uint_eqI)
  have "uint (ucast (ucast x :: u32) :: u64) = uint x mod 2 ^ 32"
    by (simp add: uint_low_half uint_up_ucast is_up)
  moreover have "uint (push_bit 32 (ucast (ucast (drop_bit 32 x) :: u32)) :: u64) = 2 ^ 32 * (uint x div 2 ^ 32)"
    by (simp only: uint_push_32 uint_high_half)
  ultimately show "uint (ucast (ucast x :: u32) + push_bit 32 (ucast (ucast (drop_bit 32 x) :: u32)) :: u64) = uint x"
    using uint_range_size [of x]
    by (simp only: uint_word_ariths mod_mult_div_eq) (simp add: word_size mod_pos_pos_trivial)
qed

lemma u64_carry:
  fixes n :: int assumes "0 \<le> n" "n < B * B" "0 < B"
  shows "(n + 1) mod (B * B) div B = (n div B + of_bool ((n mod B + 1) mod B = 0)) mod B"
    and "(n + 1) mod (B * B) mod B = (n mod B + 1) mod B"
proof -
  show "(n + 1) mod (B * B) mod B = (n mod B + 1) mod B"
    by (simp add: mod_mod_cancel mod_add_left_eq)
  define q r where "q = n div B" and "r = n mod B"
  have n: "n = B * q + r" "0 \<le> r" "r < B" using assms by (simp_all add: q_def r_def)
  have "\<not> B \<le> q"
    using mult_left_mono [of B q B] assms n by linarith
  then have q: "0 \<le> q" "q < B"
    using assms by (simp_all add: q_def pos_imp_zdiv_nonneg_iff)
  show "(n + 1) mod (B * B) div B = (n div B + of_bool ((n mod B + 1) mod B = 0)) mod B"
    unfolding q_def [symmetric] r_def [symmetric]
  proof (cases "r + 1 = B")
    case True
    then have "n + 1 = B * (q + 1)" using n by (simp add: algebra_simps)
    then show "(n + 1) mod (B * B) div B = (q + of_bool ((r + 1) mod B = 0)) mod B"
      using True assms by (simp add: mod_mult_mult1)
  next
    case False
    then have r: "r + 1 < B" using n by simp
    have "n + 1 < B * (q + 1)" using n r by (simp add: algebra_simps)
    also have "\<dots> \<le> B * B" using q assms by (intro mult_left_mono) simp_all
    finally have "(n + 1) mod (B * B) = n + 1" using assms by (simp add: mod_pos_pos_trivial)
    moreover have "(n + 1) div B = q" using n r by (simp add: add.assoc div_pos_pos_trivial)
    ultimately show "(n + 1) mod (B * B) div B = (q + of_bool ((r + 1) mod B = 0)) mod B"
      using r n q by (simp add: mod_pos_pos_trivial)
  qed
qed

lemma low_half_next: "(ucast (x + 1 :: u64) :: u32) = ucast x + 1"
proof (rule word_uint_eqI)
  have "0 \<le> uint x" "uint x < 2 ^ 32 * 2 ^ 32" "0 < (2 :: int) ^ 32" using uint_range_size [of x] by (simp_all add: word_size)
  from u64_carry(2) [OF this] show "uint (ucast (x + 1 :: u64) :: u32) = uint (ucast x + 1 :: u32)"
    by (simp add: uint_low_half uint_word_ariths)
qed
lemma high_half_next:
  "(ucast (drop_bit 32 (x + 1 :: u64)) :: u32) = ucast (drop_bit 32 x) + of_bool (ucast x + 1 = (0 :: u32))"
proof (rule word_uint_eqI)
  have "0 \<le> uint x" "uint x < 2 ^ 32 * 2 ^ 32" "0 < (2 :: int) ^ 32" using uint_range_size [of x] by (simp_all add: word_size)
  note carry = u64_carry(1) [OF this]
  have one: "uint (x + 1) = (uint x + 1) mod (2 ^ 32 * 2 ^ 32)" by (simp add: uint_word_ariths)
  have "ucast x + 1 = (0 :: u32) \<longleftrightarrow> (uint x mod 2 ^ 32 + 1) mod 2 ^ 32 = 0"
    by (simp add: word_uint_eq_iff uint_word_ariths uint_low_half del: unsigned_eq_0_iff)
  then have "uint (of_bool (ucast x + 1 = (0 :: u32)) :: u32) = of_bool ((uint x mod 2 ^ 32 + 1) mod 2 ^ 32 = 0)"
    by simp
  moreover have "uint (v + w) = (uint v + uint w) mod 2 ^ 32" for v w :: u32
    by (simp add: uint_word_ariths)
  ultimately show "uint (ucast (drop_bit 32 (x + 1 :: u64)) :: u32) =
      uint (ucast (drop_bit 32 x) + of_bool (ucast x + 1 = (0 :: u32)) :: u32)"
    by (simp only: uint_high_half one carry)
qed


subsection \<open>The cipher is the exclusive or with the key stream\<close>

lemma next_chacha20_input: "next_input (chacha20_input key nonce ctr) = chacha20_input key nonce (ctr + 1)"
  unfolding next_input_def chacha20_input_def low_half_next high_half_next
  by (simp add: nth_append list_update_append)

text \<open>What the cipher makes of the byte at a place.\<close>

definition text_byte :: "u8 list option \<Rightarrow> nat \<Rightarrow> u8" where
  "text_byte plain_text i = (case plain_text of None \<Rightarrow> 0 | Some text \<Rightarrow> text ! i)"

definition text_fits :: "u8 list option \<Rightarrow> nat \<Rightarrow> bool" where
  "text_fits plain_text n = (case plain_text of None \<Rightarrow> True | Some text \<Rightarrow> n \<le> length text)"

lemma nth_chacha20_block:
  assumes "i < 64"
  shows "chacha20_block key nonce ctr ! i =
    store32_le (chacha20_rounds (chacha20_input key nonce ctr) ! (i div 4) + chacha20_input key nonce ctr ! (i div 4)) ! (i mod 4)"
  using assms unfolding chacha20_block_def Let_def by (subst nth_concat_store) simp_all

lemma upt_add: "[0..<m + n] = [0..<m] @ map (\<lambda>i. m + i) [0..<n]"
  by (induction n) (simp_all)

lemma whole_blocks_stream:
  assumes "text_fits plain_text (64 * n)"
  shows "whole_blocks n plain_text (chacha20_input key nonce ctr) =
    (map (\<lambda>i. keystream key nonce ctr i XOR text_byte plain_text i) [0..<64 * n],
     map_option (drop (64 * n)) plain_text, chacha20_input key nonce (ctr + of_nat n))"
  using assms
proof (induction n arbitrary: plain_text ctr)
  case 0
  then show ?case by (cases plain_text) simp_all
next
  case (Suc n)
  let ?inp = "chacha20_input key nonce ctr" and ?b = "chacha20_block key nonce ctr"
  let ?out = "case plain_text of
      Some text \<Rightarrow> concat (map (\<lambda>j. store32_le ((chacha20_rounds ?inp ! j + ?inp ! j) XOR load32_le (drop (4 * j) text))) [0..<16])
    | None \<Rightarrow> concat (map (\<lambda>j. store32_le (chacha20_rounds ?inp ! j + ?inp ! j)) [0..<16])"
  have out: "?out = map (\<lambda>i. keystream key nonce ctr i XOR text_byte plain_text i) [0..<64]"
  proof (rule nth_equalityI)
    show "length ?out = length (map (\<lambda>i. keystream key nonce ctr i XOR text_byte plain_text i) [0..<64])"
      by (simp split: option.split)
    fix i assume "i < length ?out"
    then have i: "i < 64" by (simp split: option.splits)
    then have "?out ! i = ?b ! i XOR text_byte plain_text i"
    proof (cases plain_text)
      case (Some t)
      then have len: "64 \<le> length t" using Suc.prems by (simp add: text_fits_def)
      moreover have "i div 4 < 16" using i by (simp add: div_less_iff_less_mult)
      ultimately have "?out ! i = store32_le (chacha20_rounds ?inp ! (i div 4) + ?inp ! (i div 4)) ! (i mod 4)
          XOR drop (4 * (i div 4)) t ! (i mod 4)"
        using i Some by (simp add: nth_concat_store store32_le_xor)
      then show ?thesis
        using i Some len by (simp add: nth_chacha20_block text_byte_def)
    qed (simp add: nth_chacha20_block nth_concat_store text_byte_def)
    then show "?out ! i = map (\<lambda>i. keystream key nonce ctr i XOR text_byte plain_text i) [0..<64] ! i"
      using i by (simp add: keystream_def)
  qed
  have fits: "text_fits (map_option (drop 64) plain_text) (64 * n)"
    using Suc.prems by (cases plain_text) (auto simp: text_fits_def)
  have block: "(64 + i) div 64 = Suc (i div 64)" for i :: nat using div_add_self1 [of 64 i] by simp
  have shift: "keystream key nonce (ctr + 1) i XOR text_byte (map_option (drop 64) plain_text) i =
      keystream key nonce ctr (64 + i) XOR text_byte plain_text (64 + i)" if "i < 64 * n" for i
    using that Suc.prems
    by (cases plain_text) (simp_all add: keystream_def text_byte_def text_fits_def add.assoc block)
  have "map (\<lambda>i. keystream key nonce ctr i XOR text_byte plain_text i) [0..<64 * Suc n] =
      ?out @ map (\<lambda>i. keystream key nonce (ctr + 1) i XOR text_byte (map_option (drop 64) plain_text) i) [0..<64 * n]"
    unfolding out mult_Suc_right upt_add [of 64] map_append using shift by simp
  then show ?case
    using Suc.IH [OF fits, of "ctr + 1"]
    by (cases plain_text) (simp_all add: next_chacha20_input Let_def ac_simps)
qed

lemma chacha20_djb_value:
  assumes "text_fits plain_text n"
  shows "crypto_chacha20_djb plain_text n key nonce ctr =
    (map (\<lambda>i. keystream key nonce ctr i XOR text_byte plain_text i) [0..<n], ctr + of_nat ((n + 63) div 64))"
proof -
  let ?k = "n div 64" and ?r = "n mod 64"
  have n: "64 * ?k + ?r = n" "?r < 64" by simp_all
  have fits: "text_fits plain_text (64 * ?k)"
    using assms by (cases plain_text) (auto simp: text_fits_def elim: order_trans [rotated])
  let ?ctr = "ctr + of_nat ?k"
  let ?text = "case map_option (drop (64 * ?k)) plain_text of None \<Rightarrow> replicate 128 0 | Some text \<Rightarrow> text"
  have byte: "chacha20_block key nonce ?ctr ! i XOR ?text ! i =
      keystream key nonce ctr (64 * ?k + i) XOR text_byte plain_text (64 * ?k + i)" if "i < ?r" for i
  proof -
    have "i < 64" using that n(2) by linarith
    moreover have "?text ! i = text_byte plain_text (64 * ?k + i)"
      using that n assms by (cases plain_text) (simp_all add: text_byte_def text_fits_def)
    ultimately show ?thesis by (simp add: keystream_def)
  qed
  have count: "of_nat ?k + of_bool (?r > 0) = (of_nat ((n + 63) div 64) :: u64)"
  proof -
    have "(?r + 63) div 64 = of_bool (?r > 0)"
    proof (cases "?r = 0")
      case False
      then have "?r + 63 = (?r - 1) + 64 * 1" "?r - 1 < 64" using n(2) by simp_all
      then show ?thesis using False by (simp only: div_mult_self2) simp
    qed simp
    moreover have "(64 * ?k + (?r + 63)) div 64 = ?k + (?r + 63) div 64"
      by (rule div_mult_self4) simp
    moreover have "64 * ?k + (?r + 63) = n + 63" using n(1) by linarith
    ultimately have "(n + 63) div 64 = ?k + of_bool (?r > 0)" by simp
    then show ?thesis by simp
  qed
  have "crypto_chacha20_djb plain_text n key nonce ctr =
      (map (\<lambda>i. keystream key nonce ctr i XOR text_byte plain_text i) [0..<64 * ?k] @
       (if ?r > 0 then map (\<lambda>i. chacha20_block key nonce ?ctr ! i XOR ?text ! i) [0..<?r] else []),
       ?ctr + of_bool (?r > 0))"
    unfolding crypto_chacha20_djb_def Let_def chacha20_input_def [symmetric]
      whole_blocks_stream [OF fits] prod.case chacha20_block_def
    using u64_halves [of ?ctr] by (simp add: chacha20_input_def nth_append)
  also have "\<dots> = (map (\<lambda>i. keystream key nonce ctr i XOR text_byte plain_text i) [0..<64 * ?k + ?r],
      ctr + of_nat ((n + 63) div 64))"
    unfolding upt_add map_append using byte count by (simp add: add.assoc)
  finally show ?thesis by (simp only: n(1))
qed


text \<open>The test vector of RFC 8439, section 2.1.1.\<close>

lemma quarter_round_vector:
  "QUARTERROUND 0x11111111 0x01020304 0x9b8d6f43 0x01234567 =
    (0xea2a92f4, 0xcb1cf8ce, 0x4581472e, 0x5881c4bb)"
  by (simp add: QUARTERROUND_def Let_def rotl32_def)

lemma chacha20_keystream:
  "crypto_chacha20_djb None n key nonce ctr =
    (map (keystream key nonce ctr) [0..<n], ctr + of_nat ((n + 63) div 64))"
  by (subst chacha20_djb_value) (simp_all add: text_fits_def text_byte_def)

lemma length_chacha20_djb: "text_fits p n \<Longrightarrow> length (fst (crypto_chacha20_djb p n key nonce ctr)) = n"
  by (simp add: chacha20_djb_value)

text \<open>Encrypting twice gives the text back.\<close>

lemma chacha20_involution:
  assumes "crypto_chacha20_djb (Some p) (length p) key nonce ctr = (c, ctr')"
  shows "crypto_chacha20_djb (Some c) (length p) key nonce ctr = (p, ctr')"
proof -
  have c: "c = map (\<lambda>i. keystream key nonce ctr i XOR p ! i) [0..<length p]"
    "ctr' = ctr + of_nat ((length p + 63) div 64)"
    using assms chacha20_djb_value [of "Some p" "length p" key nonce ctr]
    by (simp_all add: text_fits_def text_byte_def)
  have "map (\<lambda>i. keystream key nonce ctr i XOR c ! i) [0..<length p] = p"
    by (rule nth_equalityI) (simp_all add: c(1) xor.left_commute [of _ "_ :: u8"] flip: xor.assoc)
  then show ?thesis
    using chacha20_djb_value [of "Some c" "length p" key nonce ctr] c
    by (simp add: text_fits_def text_byte_def)
qed

text \<open>
  A text can be encrypted in two calls when the first part ends at a block: the counter that the
  first call returns continues the stream.
\<close>

lemma chacha20_resumes:
  assumes "crypto_chacha20_djb (Some p) (64 * n) key nonce ctr = (c, ctr')" "length p = 64 * n"
    and "crypto_chacha20_djb (Some q) (length q) key nonce ctr' = (d, ctr'')"
  shows "crypto_chacha20_djb (Some (p @ q)) (length (p @ q)) key nonce ctr = (c @ d, ctr'')"
proof -
  have "(64 * n + 63) div 64 = n" by simp
  then have c: "c = map (\<lambda>i. keystream key nonce ctr i XOR p ! i) [0..<64 * n]" "ctr' = ctr + of_nat n"
    using assms(1,2) chacha20_djb_value [of "Some p" "64 * n" key nonce ctr]
    by (simp_all add: text_fits_def text_byte_def)
  have d: "d = map (\<lambda>i. keystream key nonce ctr' i XOR q ! i) [0..<length q]"
    "ctr'' = ctr' + of_nat ((length q + 63) div 64)"
    using assms(3) chacha20_djb_value [of "Some q" "length q" key nonce ctr']
    by (simp_all add: text_fits_def text_byte_def)
  have "(64 * n + length q + 63) div 64 = n + (length q + 63) div 64"
    unfolding add.assoc by (rule div_mult_self4) simp
  then show ?thesis
    using chacha20_djb_value [of "Some (p @ q)" "length (p @ q)" key nonce ctr] assms(2)
    by (simp add: text_fits_def text_byte_def upt_add nth_append c d keystream_def add.assoc comp_def)
qed


text \<open>
  C21: The stream cipher.  The three functions compute the exclusive or of the text, of any length, with
  the key stream of their key, nonce and counter, and return the number of the next block.  The
  code of RFC 8439 puts the first word of its nonce above its counter of 32 bits, and the one with
  24 bytes of nonce replaces the key.
\<close>

theorem chacha20_streams:
  assumes "text_fits plain_text n"
  shows "crypto_chacha20_djb plain_text n key nonce ctr =
      (map (\<lambda>i. keystream key nonce ctr i XOR text_byte plain_text i) [0..<n], ctr + of_nat ((n + 63) div 64)) \<and>
    crypto_chacha20_ietf plain_text n key nonce ctr32 =
      (map (\<lambda>i. keystream key (drop 4 nonce) (word_of_int (uint ctr32 + 2 ^ 32 * uint (load32_le nonce))) i XOR
         text_byte plain_text i) [0..<n], ctr32 + of_nat ((n + 63) div 64)) \<and>
    crypto_chacha20_x plain_text n key nonce ctr =
      (map (\<lambda>i. keystream (crypto_chacha20_h key nonce) (drop 16 nonce) ctr i XOR text_byte plain_text i) [0..<n],
       ctr + of_nat ((n + 63) div 64))"
proof -
  have big: "ucast ctr32 + push_bit 32 (ucast (load32_le nonce)) =
      (word_of_int (uint ctr32 + 2 ^ 32 * uint (load32_le nonce)) :: u64)"
    by (simp add: push_bit_eq_mult)
  have low: "ucast (word_of_int (uint ctr32 + 2 ^ 32 * uint (load32_le nonce)) + of_nat k :: u64) = ctr32 + of_nat k" for k
  proof (rule word_uint_eqI)
    have low: "uint (ucast (word_of_int x :: u64) :: u32) = x mod 2 ^ 32" for x
      unfolding uint_low_half uint_word_of_int by (rule mod_mod_cancel) (simp add: le_imp_power_dvd)
    have "word_of_int (uint ctr32 + 2 ^ 32 * uint (load32_le nonce)) + of_nat k =
        (word_of_int (uint ctr32 + 2 ^ 32 * uint (load32_le nonce) + int k) :: u64)" by simp
    moreover have "ctr32 + of_nat k = word_of_int (uint ctr32 + int k)" by simp
    moreover have "(uint ctr32 + 2 ^ 32 * w + int k) mod 2 ^ 32 = (uint ctr32 + int k) mod 2 ^ 32" for w :: int
      using mod_mult_self2 [of "uint ctr32 + int k" "2 ^ 32" w] by (simp only: ac_simps)
    ultimately show "uint (ucast (word_of_int (uint ctr32 + 2 ^ 32 * uint (load32_le nonce)) + of_nat k :: u64) :: u32) =
        uint (ctr32 + of_nat k)"
      by (simp only: low uint_word_of_int) simp
  qed
  have "crypto_chacha20_ietf plain_text n key nonce ctr32 =
      (map (\<lambda>i. keystream key (drop 4 nonce) (word_of_int (uint ctr32 + 2 ^ 32 * uint (load32_le nonce))) i XOR
         text_byte plain_text i) [0..<n], ctr32 + of_nat ((n + 63) div 64))"
    unfolding crypto_chacha20_ietf_def Let_def big chacha20_djb_value [OF assms] prod.case low ..
  then show ?thesis by (simp add: crypto_chacha20_x_def chacha20_djb_value [OF assms])
qed

lemma chacha20_streams_witness:
  "crypto_chacha20_djb (Some [1, 2, 3]) 3 [4] [5] 6 = (map (\<lambda>i. keystream [4] [5] 6 i XOR [1, 2, 3] ! i) [0..<3], 7)"
  using chacha20_streams [of "Some [1, 2, 3]" 3 "[4]" "[5]" 6] by (simp add: text_fits_def text_byte_def)

end
