(* ===== verification/Poly1305.thy ===== *)
theory Poly1305
  imports Monocypher
begin

section \<open>Monocypher: the one-time authenticator Poly1305\<close>

text \<open>
  The section \<open>Poly 1305\<close> of \<open>common/monocypher.cpp\<close>.  The code keeps the accumulated hash in
  five words of 32 bits, multiplies with four words without carry, and reduces only partially, with
  its products of 64 bits; the theorems show that no operation overflows, that the hash stays
  below the bound which the comment of \<open>poly_blocks\<close> gives, and that the result is the one that
  RFC 8439 defines by arithmetic modulo the prime \<open>2 ^ 130 - 5\<close>, however the message is split over
  the calls of \<open>crypto_poly1305_update\<close>.
\<close>

subsection \<open>Definitions\<close>

record crypto_poly1305_ctx =
  pc_c :: "u8 list"
  pc_c_idx :: nat
  pc_r :: "u32 list"
  pc_pad :: "u32 list"
  pc_h :: "u32 list"

text \<open>\<open>(h + c) * r\<close> without carry propagation, for one block.\<close>

definition poly_product :: "u32 list \<Rightarrow> u32 list \<Rightarrow> u8 list \<Rightarrow> u32 \<Rightarrow> u64 \<times> u64 \<times> u64 \<times> u64 \<times> u32" where
  "poly_product r h inp end =
     (let r0 = r ! 0; r1 = r ! 1; r2 = r ! 2; r3 = r ! 3;
          rr0 = drop_bit 2 r0 * 5; rr1 = drop_bit 2 r1 + r1; rr2 = drop_bit 2 r2 + r2;
          rr3 = drop_bit 2 r3 + r3; rr4 = r0 AND 3;
          s0 = (ucast (h ! 0) :: u64) + ucast (load32_le inp);
          s1 = (ucast (h ! 1) :: u64) + ucast (load32_le (drop 4 inp));
          s2 = (ucast (h ! 2) :: u64) + ucast (load32_le (drop 8 inp));
          s3 = (ucast (h ! 3) :: u64) + ucast (load32_le (drop 12 inp));
          s4 = h ! 4 + end
      in (s0 * ucast r0 + s1 * ucast rr3 + s2 * ucast rr2 + s3 * ucast rr1 + ucast (s4 * rr0),
          s0 * ucast r1 + s1 * ucast r0 + s2 * ucast rr3 + s3 * ucast rr2 + ucast (s4 * rr1),
          s0 * ucast r2 + s1 * ucast r1 + s2 * ucast r0 + s3 * ucast rr3 + ucast (s4 * rr2),
          s0 * ucast r3 + s1 * ucast r2 + s2 * ucast r1 + s3 * ucast r0 + ucast (s4 * rr3),
          s4 * rr4))"

text \<open>The partial reduction modulo \<open>2 ^ 130 - 5\<close>.\<close>

definition poly_reduce :: "u64 \<times> u64 \<times> u64 \<times> u64 \<times> u32 \<Rightarrow> u32 list" where
  "poly_reduce x =
     (case x of (x0, x1, x2, x3, x4) \<Rightarrow>
        let u5 = ucast (drop_bit 32 x3) + x4;
            u0 = ucast (drop_bit 2 u5 * 5) + (x0 AND 0xffffffff);
            u1 = ucast (ucast (drop_bit 32 u0) :: u32) + (x1 AND 0xffffffff) + drop_bit 32 x0;
            u2 = ucast (ucast (drop_bit 32 u1) :: u32) + (x2 AND 0xffffffff) + drop_bit 32 x1;
            u3 = ucast (ucast (drop_bit 32 u2) :: u32) + (x3 AND 0xffffffff) + drop_bit 32 x2;
            u4 = ucast (drop_bit 32 u3) + (u5 AND 3)
        in [ucast (u0 AND 0xffffffff), ucast (u1 AND 0xffffffff), ucast (u2 AND 0xffffffff),
            ucast (u3 AND 0xffffffff), u4])"

fun poly_loop :: "u32 list \<Rightarrow> u32 list \<Rightarrow> u8 list \<Rightarrow> nat \<Rightarrow> u32 \<Rightarrow> u32 list" where
  "poly_loop r h inp 0 end = h"
| "poly_loop r h inp (Suc nb_blocks) end =
     poly_loop r (poly_reduce (poly_product r h inp end)) (drop 16 inp) nb_blocks end"

definition poly_blocks :: "crypto_poly1305_ctx \<Rightarrow> u8 list \<Rightarrow> nat \<Rightarrow> u32 \<Rightarrow> crypto_poly1305_ctx" where
  "poly_blocks ctx inp nb_blocks end =
     ctx\<lparr>pc_h := poly_loop (pc_r ctx) (pc_h ctx) inp nb_blocks end\<rparr>"

definition crypto_poly1305_init :: "crypto_poly1305_ctx \<Rightarrow> u8 list \<Rightarrow> crypto_poly1305_ctx" where
  "crypto_poly1305_init ctx key =
     (let r = load32_le_buf key 4;
          r = r[0 := r ! 0 AND 0x0fffffff];
          r = r[1 := r ! 1 AND 0x0ffffffc, 2 := r ! 2 AND 0x0ffffffc, 3 := r ! 3 AND 0x0ffffffc]
      in ctx\<lparr>pc_h := replicate 5 0, pc_c_idx := 0, pc_r := r, pc_pad := load32_le_buf (drop 16 key) 4\<rparr>)"

text \<open>The loops that copy bytes into the chunk.\<close>

fun fill_chunk :: "crypto_poly1305_ctx \<Rightarrow> u8 list \<Rightarrow> crypto_poly1305_ctx" where
  "fill_chunk ctx [] = ctx"
| "fill_chunk ctx (b # bs) =
     fill_chunk (ctx\<lparr>pc_c := (pc_c ctx)[pc_c_idx ctx := b], pc_c_idx := pc_c_idx ctx + 1\<rparr>) bs"

definition crypto_poly1305_update :: "crypto_poly1305_ctx \<Rightarrow> u8 list \<Rightarrow> crypto_poly1305_ctx" where
  "crypto_poly1305_update ctx message =
     (if length message = 0 then ctx
      else
        let aligned = min (unat (gap (of_nat (pc_c_idx ctx)) 16)) (length message);
            ctx = fill_chunk ctx (take aligned message);
            message = drop aligned message;
            ctx = (if pc_c_idx ctx = 16 then (poly_blocks ctx (pc_c ctx) 1 1)\<lparr>pc_c_idx := 0\<rparr> else ctx);
            nb_blocks = length message div 16;
            ctx = poly_blocks ctx message nb_blocks 1;
            message = drop (nb_blocks * 16) message
        in fill_chunk ctx message)"

text \<open>The authenticator, and the context that is left: wiped.\<close>

definition poly1305_wiped :: crypto_poly1305_ctx where
  "poly1305_wiped = \<lparr>pc_c = replicate 16 0, pc_c_idx = 0, pc_r = replicate 4 0, pc_pad = replicate 4 0,
     pc_h = replicate 5 0\<rparr>"

definition crypto_poly1305_final :: "crypto_poly1305_ctx \<Rightarrow> u8 list \<times> crypto_poly1305_ctx" where
  "crypto_poly1305_final ctx =
     (let ctx = (if pc_c_idx ctx \<noteq> 0 then
              let c = take (pc_c_idx ctx) (pc_c ctx) @ replicate (16 - pc_c_idx ctx) 0;
                  ctx = ctx\<lparr>pc_c := c[pc_c_idx ctx := 1]\<rparr>
              in poly_blocks ctx (pc_c ctx) 1 0
            else ctx);
          c = fold (\<lambda>i c. drop_bit 32 (c + ucast (pc_h ctx ! i))) [0..<4] (5 :: u64);
          c = c + ucast (pc_h ctx ! 4);
          c = drop_bit 2 c * 5;
          (c, mac) = fold (\<lambda>i (c, mac).
              let c = c + (ucast (pc_h ctx ! i) + ucast (pc_pad ctx ! i))
              in (drop_bit 32 c, mac @ store32_le (ucast c))) [0..<4] (c, [])
      in (mac, poly1305_wiped))"

definition crypto_poly1305 :: "crypto_poly1305_ctx \<Rightarrow> u8 list \<Rightarrow> u8 list \<Rightarrow> u8 list" where
  "crypto_poly1305 ctx message key =
     fst (crypto_poly1305_final (crypto_poly1305_update (crypto_poly1305_init ctx key) message))"


subsection \<open>Words without overflow\<close>

lemma uint_add_bounded:
  assumes "uint a \<le> A" "uint b \<le> B" "A + B < 2 ^ LENGTH('a)"
  shows "uint (a + b :: 'a::len word) = uint a + uint b" "uint (a + b) \<le> A + B"
proof -
  show "uint (a + b) = uint a + uint b"
    using assms by (simp add: uint_word_ariths mod_pos_pos_trivial)
  then show "uint (a + b) \<le> A + B" using assms by simp
qed

lemma uint_mult_bounded:
  assumes "uint a \<le> A" "uint b \<le> B" "A * B < 2 ^ LENGTH('a)"
  shows "uint (a * b :: 'a::len word) = uint a * uint b" "uint (a * b) \<le> A * B"
proof -
  have le: "uint a * uint b \<le> A * B"
    using assms uint_ge_0 [of a] by (intro mult_mono) (auto intro: order_trans)
  then show "uint (a * b) = uint a * uint b"
    using assms by (simp add: uint_word_ariths mod_pos_pos_trivial)
  then show "uint (a * b) \<le> A * B" using le by simp
qed

lemma uint_ucast_64: "uint (ucast (w :: u32) :: u64) = uint w"
  by (simp add: uint_up_ucast is_up)

lemma uint_drop_bit_word: "uint (drop_bit n w) = uint (w :: 'a::len word) div 2 ^ n"
proof -
  have "take_bit LENGTH('a) (uint w) = uint w"
    by (rule take_bit_int_eq_self) (simp_all add: uint_lt2p)
  then show ?thesis by (simp only: unsigned_drop_bit_eq drop_bit_eq_div [where ?'a = int])
qed
     
lemma uint_32_bounds: "0 \<le> uint (w :: u32)" "uint (w :: u32) \<le> 2 ^ 32 - 1"
  using uint_range_size [of w] by (simp_all add: word_size)

subsection \<open>One block\<close>

text \<open>The arithmetic of one block, on integers.\<close>

lemma poly_product_value:
  fixes s0 :: int
  assumes "B ^ 4 * 4 = p + 5"
    and "x0 = s0 * r0 + s1 * (5 * q3) + s2 * (5 * q2) + s3 * (5 * q1) + s4 * (q0 * 5)"
    and "x1 = s0 * r1 + s1 * r0 + s2 * (5 * q3) + s3 * (5 * q2) + s4 * (5 * q1)"
    and "x2 = s0 * r2 + s1 * r1 + s2 * r0 + s3 * (5 * q3) + s4 * (5 * q2)"
    and "x3 = s0 * r3 + s1 * r2 + s2 * r1 + s3 * r0 + s4 * (5 * q3)"
    and "x4 = s4 * m"
    and "r0 = 4 * q0 + m" "r1 = 4 * q1" "r2 = 4 * q2" "r3 = 4 * q3"
  shows "(s0 + B * s1 + B ^ 2 * s2 + B ^ 3 * s3 + B ^ 4 * s4) * (r0 + B * r1 + B ^ 2 * r2 + B ^ 3 * r3) =
    x0 + B * x1 + B ^ 2 * x2 + B ^ 3 * x3 + B ^ 4 * x4 +
    p * (s1 * q3 + s2 * q2 + s3 * q1 + s4 * q0 + B * (s2 * q3 + s3 * q2 + s4 * q1)
         + B ^ 2 * (s3 * q3 + s4 * q2) + B ^ 3 * (s4 * q3))"
proof -
  have p: "p = B ^ 4 * 4 - 5" using assms(1) by simp
  show ?thesis unfolding p assms(2-) by algebra
qed

lemma poly_reduce_value:
  fixes x0 :: int
  assumes "B ^ 4 * 4 = p + 5"
    and "u5 = x3 div B + x4" "u0 = u5 div 4 * 5 + x0 mod B"
    and "u1 = u0 div B + x1 mod B + x0 div B" "u2 = u1 div B + x2 mod B + x1 div B"
    and "u3 = u2 div B + x3 mod B + x2 div B" "u4 = u3 div B + u5 mod 4"
  shows "u0 mod B + B * (u1 mod B) + B ^ 2 * (u2 mod B) + B ^ 3 * (u3 mod B) + B ^ 4 * u4 =
    x0 + B * x1 + B ^ 2 * x2 + B ^ 3 * x3 + B ^ 4 * x4 - p * (u5 div 4)"
proof -
  have d: "x0 mod B = x0 - B * (x0 div B)" "x1 mod B = x1 - B * (x1 div B)"
    "x2 mod B = x2 - B * (x2 div B)" "x3 mod B = x3 - B * (x3 div B)"
    "u0 mod B = u0 - B * (u0 div B)" "u1 mod B = u1 - B * (u1 div B)"
    "u2 mod B = u2 - B * (u2 div B)" "u3 mod B = u3 - B * (u3 div B)" "u5 mod 4 = u5 - 4 * (u5 div 4)"
    by (simp_all add: minus_mult_div_eq_mod)
  have p: "p = B ^ 4 * 4 - 5" using assms(1) by simp
  define d0 d1 d2 d3 e0 e1 e2 e3 k where "d0 = x0 div B" "d1 = x1 div B" "d2 = x2 div B" "d3 = x3 div B"
    "e0 = u0 div B" "e1 = u1 div B" "e2 = u2 div B" "e3 = u3 div B" "k = u5 div 4"
  note defs = this
  show ?thesis
    unfolding p d defs [symmetric]
    using assms(2-) unfolding d defs [symmetric] by algebra
qed

lemma uint_and_32: "uint (x AND 0xffffffff :: u64) = uint x mod 2 ^ 32"
proof -
  have "x AND 0xffffffff = take_bit 32 x" by (simp add: take_bit_eq_mask mask_eq_exp_minus_1)
  then show ?thesis by (simp only: unsigned_take_bit_eq take_bit_eq_mod [where ?'a = int])
qed

lemma uint_and_3: "uint (x AND 3 :: u32) = uint x mod 4"
proof -
  have "x AND 3 = take_bit 2 x" by (simp add: take_bit_eq_mask mask_eq_exp_minus_1)
  then have "uint (x AND 3) = uint x mod 2 ^ 2" by (simp only: unsigned_take_bit_eq take_bit_eq_mod [where ?'a = int])
  then show ?thesis by simp
qed

lemma uint_mod_div_bounds:
  fixes x :: int
  assumes "0 \<le> x" shows "0 \<le> x mod 2 ^ 32" "x mod 2 ^ 32 \<le> 2 ^ 32 - 1" "0 \<le> x div 2 ^ 32"
  using assms by (simp_all add: pos_imp_zdiv_nonneg_iff)

text \<open>The number that limbs of 32 bits stand for, and the prime.\<close>

definition limbs_value :: "u32 list \<Rightarrow> int" where
  "limbs_value ws = (\<Sum>i<length ws. 2 ^ (32 * i) * uint (ws ! i))"

lemma limbs_value_5: "limbs_value [a, b, c, d, e] =
  uint a + 2 ^ 32 * uint b + (2 ^ 32) ^ 2 * uint c + (2 ^ 32) ^ 3 * uint d + (2 ^ 32) ^ 4 * uint e"
  by (simp add: limbs_value_def lessThan_Suc numeral_eq_Suc)

abbreviation p1305 :: int where "p1305 \<equiv> 2 ^ 130 - 5"

lemma poly_reduce_words:
  assumes x: "uint x0 \<le> 5 * 2 ^ 61" "uint x1 \<le> 5 * 2 ^ 61" "uint x2 \<le> 5 * 2 ^ 61" "uint x3 \<le> 5 * 2 ^ 61"
    and x4: "uint x4 \<le> 15"
  obtains a b c d e k where "poly_reduce (x0, x1, x2, x3, x4) = [a, b, c, d, e]" "uint e \<le> 4"
    "limbs_value [a, b, c, d, e] = uint x0 + 2 ^ 32 * uint x1 + (2 ^ 32) ^ 2 * uint x2 + (2 ^ 32) ^ 3 * uint x3
       + (2 ^ 32) ^ 4 * uint x4 - p1305 * k"
proof -
  have hi: "0 \<le> uint y div 2 ^ 32" "uint y div 2 ^ 32 \<le> 5 * 2 ^ 29" if "uint y \<le> 5 * 2 ^ 61" for y :: u64
    using that zdiv_mono1 [OF that, of "2 ^ 32"] by (simp_all add: pos_imp_zdiv_nonneg_iff)
  have lo: "0 \<le> uint y mod 2 ^ 32" "uint y mod 2 ^ 32 \<le> 2 ^ 32 - 1" for y :: u64 by simp_all
  have half: "uint (ucast (drop_bit 32 y) :: u32) = uint y div 2 ^ 32" for y :: u64
  proof -
    have "uint y < 2 ^ 64" "0 \<le> uint y" using uint_range_size [of y] by (simp_all add: word_size)
    then have "0 \<le> uint y div 2 ^ 32" "uint y div 2 ^ 32 < 2 ^ 32"
      using zdiv_mono1 [of "uint y" "2 ^ 64 - 1" "2 ^ 32"] by (simp_all add: pos_imp_zdiv_nonneg_iff)
    then show ?thesis
      by (simp only: unsigned_ucast_eq uint_drop_bit_word take_bit_eq_mod [where ?'a = int] len_num1 len_bit0)
        (simp add: mod_pos_pos_trivial)
  qed
  define u5 where "u5 = ucast (drop_bit 32 x3) + x4"
  define u0 where "u0 = (ucast (drop_bit 2 u5 * 5) :: u64) + (x0 AND 0xffffffff)"
  define u1 where "u1 = (ucast (ucast (drop_bit 32 u0) :: u32) :: u64) + (x1 AND 0xffffffff) + drop_bit 32 x0"
  define u2 where "u2 = (ucast (ucast (drop_bit 32 u1) :: u32) :: u64) + (x2 AND 0xffffffff) + drop_bit 32 x1"
  define u3 where "u3 = (ucast (ucast (drop_bit 32 u2) :: u32) :: u64) + (x3 AND 0xffffffff) + drop_bit 32 x2"
  define u4 where "u4 = ucast (drop_bit 32 u3) + (u5 AND 3)"
  have u5: "uint u5 = uint x3 div 2 ^ 32 + uint x4" "uint u5 \<le> 5 * 2 ^ 29 + 15"
    unfolding u5_def using uint_add_bounded [of "ucast (drop_bit 32 x3) :: u32" "5 * 2 ^ 29" x4 15] hi [OF x(4)] x4
    by (simp_all add: half)
  have "uint (drop_bit 2 u5) \<le> 2 ^ 29 + 2 ^ 27 + 3"
    using zdiv_mono1 [OF u5(2), of 4] by (simp add: uint_drop_bit_word)
  then have k: "uint (drop_bit 2 u5 * 5) = uint u5 div 4 * 5" "uint (drop_bit 2 u5 * 5) \<le> (2 ^ 29 + 2 ^ 27 + 3) * 5"
    using uint_mult_bounded [of "drop_bit 2 u5" "2 ^ 29 + 2 ^ 27 + 3" "5 :: u32" 5]
    by (simp_all add: uint_drop_bit_word)
  have u0: "uint u0 = uint u5 div 4 * 5 + uint x0 mod 2 ^ 32" "uint u0 \<le> 2 ^ 33"
    unfolding u0_def
    using uint_add_bounded [of "ucast (drop_bit 2 u5 * 5) :: u64" "(2 ^ 29 + 2 ^ 27 + 3) * 5"
        "x0 AND 0xffffffff" "2 ^ 32 - 1"] k lo(2) [of x0]
    by (simp_all only: uint_ucast_64 uint_and_32) simp_all
  have step: "uint ((ucast (ucast (drop_bit 32 u) :: u32) :: u64) + (y AND 0xffffffff) + drop_bit 32 z) =
        uint u div 2 ^ 32 + uint y mod 2 ^ 32 + uint z div 2 ^ 32 \<and>
      uint ((ucast (ucast (drop_bit 32 u) :: u32) :: u64) + (y AND 0xffffffff) + drop_bit 32 z) \<le> 2 ^ 33 - 1"
    if "uint u \<le> 2 ^ 33" "uint z \<le> 5 * 2 ^ 61" for u y z :: u64
  proof -
    have "uint u div 2 ^ 32 \<le> 2" using zdiv_mono1 [OF that(1), of "2 ^ 32"] by simp
    then have a: "uint ((ucast (ucast (drop_bit 32 u) :: u32) :: u64) + (y AND 0xffffffff)) =
        uint u div 2 ^ 32 + uint y mod 2 ^ 32"
      "uint ((ucast (ucast (drop_bit 32 u) :: u32) :: u64) + (y AND 0xffffffff)) \<le> 2 ^ 32 + 1"
      using uint_add_bounded [of "ucast (ucast (drop_bit 32 u) :: u32) :: u64" 2 "y AND 0xffffffff" "2 ^ 32 - 1"] lo(2) [of y]
      by (simp_all only: uint_ucast_64 uint_and_32 half) simp_all
    then show ?thesis
      using uint_add_bounded [of "ucast (ucast (drop_bit 32 u) :: u32) + (y AND 0xffffffff) :: u64" "2 ^ 32 + 1"
          "drop_bit 32 z" "5 * 2 ^ 29"] hi(2) [OF that(2)]
      by (simp add: uint_drop_bit_word)
  qed
  have u1: "uint u1 = uint u0 div 2 ^ 32 + uint x1 mod 2 ^ 32 + uint x0 div 2 ^ 32" "uint u1 \<le> 2 ^ 33 - 1"
    unfolding u1_def using step [OF u0(2) x(1)] by blast+
  have u2: "uint u2 = uint u1 div 2 ^ 32 + uint x2 mod 2 ^ 32 + uint x1 div 2 ^ 32" "uint u2 \<le> 2 ^ 33 - 1"
    unfolding u2_def using step [of u1 x1 x2] u1(2) x(2) by simp_all
  have u3: "uint u3 = uint u2 div 2 ^ 32 + uint x3 mod 2 ^ 32 + uint x2 div 2 ^ 32" "uint u3 \<le> 2 ^ 33 - 1"
    unfolding u3_def using step [of u2 x2 x3] u2(2) x(3) by simp_all
  have "uint u3 div 2 ^ 32 \<le> 1" using zdiv_mono1 [OF u3(2), of "2 ^ 32"] by simp
  moreover have "uint u5 mod 4 \<le> 3" by simp
  ultimately have u4: "uint u4 = uint u3 div 2 ^ 32 + uint u5 mod 4" "uint u4 \<le> 4"
    unfolding u4_def using uint_add_bounded [of "ucast (drop_bit 32 u3) :: u32" 1 "u5 AND 3" 3]
    by (simp_all add: half uint_and_3)
  have low: "uint (ucast (y AND 0xffffffff) :: u32) = uint y mod 2 ^ 32" for y :: u64
    by (simp only: unsigned_ucast_eq uint_and_32 take_bit_eq_mod [where ?'a = int]) simp
  show ?thesis
  proof (rule that)
    show "poly_reduce (x0, x1, x2, x3, x4) = [ucast (u0 AND 0xffffffff), ucast (u1 AND 0xffffffff),
        ucast (u2 AND 0xffffffff), ucast (u3 AND 0xffffffff), u4]"
      by (simp only: poly_reduce_def prod.case Let_def u5_def u0_def u1_def u2_def u3_def u4_def)
    show "uint u4 \<le> 4" by (rule u4(2))
    show "limbs_value [ucast (u0 AND 0xffffffff), ucast (u1 AND 0xffffffff), ucast (u2 AND 0xffffffff),
          ucast (u3 AND 0xffffffff), u4] =
        uint x0 + 2 ^ 32 * uint x1 + (2 ^ 32) ^ 2 * uint x2 + (2 ^ 32) ^ 3 * uint x3 +
        (2 ^ 32) ^ 4 * uint x4 - p1305 * (uint u5 div 4)"
      unfolding limbs_value_5 low
      by (rule poly_reduce_value [OF _ u5(1) u0(1) u1(1) u2(1) u3(1) u4(1)]) simp
  qed
qed

lemma dot_words:
  fixes a0 a1 a2 a3 :: u64 and b0 b1 b2 b3 t :: u32
  assumes a: "uint a0 \<le> 2 ^ 33 - 2" "uint a1 \<le> 2 ^ 33 - 2" "uint a2 \<le> 2 ^ 33 - 2" "uint a3 \<le> 2 ^ 33 - 2"
    and b: "uint b0 \<le> 5 * 2 ^ 26" "uint b1 \<le> 5 * 2 ^ 26" "uint b2 \<le> 5 * 2 ^ 26" "uint b3 \<le> 5 * 2 ^ 26"
    and t: "uint t \<le> 25 * 2 ^ 26"
  shows "uint (a0 * ucast b0 + a1 * ucast b1 + a2 * ucast b2 + a3 * ucast b3 + ucast t) =
      uint a0 * uint b0 + uint a1 * uint b1 + uint a2 * uint b2 + uint a3 * uint b3 + uint t"
    and "uint (a0 * ucast b0 + a1 * ucast b1 + a2 * ucast b2 + a3 * ucast b3 + ucast t) \<le> 5 * 2 ^ 61"
proof -
  let ?P = "(2 ^ 33 - 2) * (5 * 2 ^ 26) :: int"
  have m: "uint (a * ucast b :: u64) = uint a * uint b" "uint (a * ucast b :: u64) \<le> ?P"
    if "uint a \<le> 2 ^ 33 - 2" "uint b \<le> 5 * 2 ^ 26" for a :: u64 and b :: u32
    using uint_mult_bounded [of a "2 ^ 33 - 2" "ucast b" "5 * 2 ^ 26"] that by (simp_all add: uint_ucast_64)
  note p = m(1) [OF a(1) b(1)] m(1) [OF a(2) b(2)] m(1) [OF a(3) b(3)] m(1) [OF a(4) b(4)]
  note q = m(2) [OF a(1) b(1)] m(2) [OF a(2) b(2)] m(2) [OF a(3) b(3)] m(2) [OF a(4) b(4)]
  note s1 = uint_add_bounded [OF q(1) q(2), simplified]
  note s2 = uint_add_bounded [OF s1(2) q(3), simplified]
  note s3 = uint_add_bounded [OF s2(2) q(4), simplified]
  have t': "uint (ucast t :: u64) \<le> 25 * 2 ^ 26" using t by (simp add: uint_ucast_64)
  note s4 = uint_add_bounded [OF s3(2) t', simplified]
  show "uint (a0 * ucast b0 + a1 * ucast b1 + a2 * ucast b2 + a3 * ucast b3 + ucast t) =
      uint a0 * uint b0 + uint a1 * uint b1 + uint a2 * uint b2 + uint a3 * uint b3 + uint t"
    by (simp only: s4(1) s3(1) s2(1) s1(1) p uint_ucast_64)
  show "uint (a0 * ucast b0 + a1 * ucast b1 + a2 * ucast b2 + a3 * ucast b3 + ucast t) \<le> 5 * 2 ^ 61"
    using s4(2) by simp
qed

text \<open>The preconditions of \<open>poly_blocks\<close>, as its comment gives them, and the value of a block.\<close>

definition clamped :: "u32 list \<Rightarrow> bool" where
  "clamped r \<longleftrightarrow> length r = 4 \<and> uint (r ! 0) \<le> 0x0fffffff \<and>
     (\<forall>i \<in> {1, 2, 3}. uint (r ! i) \<le> 0x0ffffffc \<and> 4 dvd uint (r ! i))"

definition bounded_hash :: "u32 list \<Rightarrow> bool" where
  "bounded_hash h \<longleftrightarrow> length h = 5 \<and> uint (h ! 4) \<le> 4"

definition block_value :: "u8 list \<Rightarrow> int" where
  "block_value inp = le_value (take 16 inp)"

lemma block_value_words:
  assumes "16 \<le> length inp"
  shows "block_value inp = uint (load32_le inp) + 2 ^ 32 * uint (load32_le (drop 4 inp)) +
    (2 ^ 32) ^ 2 * uint (load32_le (drop 8 inp)) + (2 ^ 32) ^ 3 * uint (load32_le (drop 12 inp))"
proof -
  have "take 16 inp = take 4 inp @ take 4 (drop 4 inp) @ take 4 (drop 8 inp) @ take 4 (drop 12 inp)"
    using take_add [of 4 12 inp] take_add [of 4 8 "drop 4 inp"] take_add [of 4 4 "drop 8 inp"] by simp
  then show ?thesis
    using assms by (simp add: block_value_def le_value_append uint_load32_le)
qed

lemma limbs_5:
  assumes "length h = 5"
  shows "limbs_value h = uint (h ! 0) + 2 ^ 32 * uint (h ! 1) + (2 ^ 32) ^ 2 * uint (h ! 2) +
    (2 ^ 32) ^ 3 * uint (h ! 3) + (2 ^ 32) ^ 4 * uint (h ! 4)"
  using assms by (simp add: limbs_value_def lessThan_Suc numeral_eq_Suc)

lemma limbs_4:
  assumes "length h = 4"
  shows "limbs_value h = uint (h ! 0) + 2 ^ 32 * uint (h ! 1) + (2 ^ 32) ^ 2 * uint (h ! 2) +
    (2 ^ 32) ^ 3 * uint (h ! 3)"
  using assms by (simp add: limbs_value_def lessThan_Suc numeral_eq_Suc)

text \<open>The factors that the code derives from \<open>r\<close>.\<close>

lemma clamped_factors:
  assumes "clamped r"
  shows "uint (r ! 0) = 4 * (uint (r ! 0) div 4) + uint (r ! 0) mod 4" "uint (r ! 1) = 4 * (uint (r ! 1) div 4)"
    "uint (r ! 2) = 4 * (uint (r ! 2) div 4)" "uint (r ! 3) = 4 * (uint (r ! 3) div 4)"
    and "uint (r ! 0) \<le> 5 * 2 ^ 26" "uint (r ! 1) \<le> 5 * 2 ^ 26" "uint (r ! 2) \<le> 5 * 2 ^ 26"
      "uint (r ! 3) \<le> 5 * 2 ^ 26"
    and "uint (drop_bit 2 (r ! 0) * 5) = uint (r ! 0) div 4 * 5" "uint (drop_bit 2 (r ! 0) * 5) \<le> 5 * 2 ^ 26"
    and "\<And>i. i \<in> {1, 2, 3} \<Longrightarrow> uint (drop_bit 2 (r ! i) + r ! i) = 5 * (uint (r ! i) div 4)"
    and "\<And>i. i \<in> {1, 2, 3} \<Longrightarrow> uint (drop_bit 2 (r ! i) + r ! i) \<le> 5 * 2 ^ 26"
proof -
  show div: "uint (r ! 0) = 4 * (uint (r ! 0) div 4) + uint (r ! 0) mod 4" "uint (r ! 1) = 4 * (uint (r ! 1) div 4)"
    "uint (r ! 2) = 4 * (uint (r ! 2) div 4)" "uint (r ! 3) = 4 * (uint (r ! 3) div 4)"
    using assms by (simp_all add: clamped_def)
  show "uint (r ! 0) \<le> 5 * 2 ^ 26" "uint (r ! 1) \<le> 5 * 2 ^ 26" "uint (r ! 2) \<le> 5 * 2 ^ 26"
      "uint (r ! 3) \<le> 5 * 2 ^ 26"
    using assms by (simp_all add: clamped_def)
  have le: "uint (drop_bit 2 (r ! i)) \<le> 2 ^ 26 - 1" if "i \<in> {0, 1, 2, 3}" for i
    using that assms zdiv_mono1 [of "uint (r ! i)" "0x0fffffff" 4] by (auto simp: clamped_def uint_drop_bit_word)
  show "uint (drop_bit 2 (r ! 0) * 5) = uint (r ! 0) div 4 * 5" "uint (drop_bit 2 (r ! 0) * 5) \<le> 5 * 2 ^ 26"
    using uint_mult_bounded [of "drop_bit 2 (r ! 0)" "2 ^ 26 - 1" "5 :: u32" 5] le [of 0]
    by (simp_all add: uint_drop_bit_word)
  show "uint (drop_bit 2 (r ! i) + r ! i) = 5 * (uint (r ! i) div 4)"
    "uint (drop_bit 2 (r ! i) + r ! i) \<le> 5 * 2 ^ 26" if "i \<in> {1, 2, 3}" for i
  proof -
    have "uint (r ! i) \<le> 2 ^ 28 - 1" "4 dvd uint (r ! i)" using that assms by (auto simp: clamped_def)
    then have "uint (r ! i) = 4 * (uint (r ! i) div 4)" by simp
    moreover have "uint (drop_bit 2 (r ! i) + r ! i) = uint (drop_bit 2 (r ! i)) + uint (r ! i)"
      "uint (drop_bit 2 (r ! i) + r ! i) \<le> 2 ^ 26 - 1 + (2 ^ 28 - 1)"
      using uint_add_bounded [OF le \<open>uint (r ! i) \<le> 2 ^ 28 - 1\<close>] that by simp_all
    ultimately show "uint (drop_bit 2 (r ! i) + r ! i) = 5 * (uint (r ! i) div 4)"
      "uint (drop_bit 2 (r ! i) + r ! i) \<le> 5 * 2 ^ 26"
      by (simp_all add: uint_drop_bit_word)
  qed
qed

lemma uint_halves_sum:
  "uint (ucast a + ucast b :: u64) = uint a + uint (b :: u32)" "uint (ucast a + ucast b :: u64) \<le> 2 ^ 33 - 2"
  for a :: u32
  using uint_add_bounded [of "ucast a :: u64" "2 ^ 32 - 1" "ucast b" "2 ^ 32 - 1"] uint_32_bounds(2) [of a]
    uint_32_bounds(2) [of b] by (simp_all add: uint_ucast_64)

lemma poly_product_words:
  assumes r: "clamped r" and h: "bounded_hash h" and e: "uint end \<le> 1" and inp: "16 \<le> length inp"
  obtains x0 x1 x2 x3 x4 K where "poly_product r h inp end = (x0, x1, x2, x3, x4)"
    "uint x0 \<le> 5 * 2 ^ 61" "uint x1 \<le> 5 * 2 ^ 61" "uint x2 \<le> 5 * 2 ^ 61" "uint x3 \<le> 5 * 2 ^ 61" "uint x4 \<le> 15"
    "(limbs_value h + block_value inp + 2 ^ 128 * uint end) * limbs_value r =
      uint x0 + 2 ^ 32 * uint x1 + (2 ^ 32) ^ 2 * uint x2 + (2 ^ 32) ^ 3 * uint x3 + (2 ^ 32) ^ 4 * uint x4 + p1305 * K"
proof -
  note f = clamped_factors [OF r]
  define s0 s1 s2 s3 e4 where ss: "s0 = (ucast (h ! 0) + ucast (load32_le inp) :: u64)"
    "s1 = (ucast (h ! 1) + ucast (load32_le (drop 4 inp)) :: u64)"
    "s2 = (ucast (h ! 2) + ucast (load32_le (drop 8 inp)) :: u64)"
    "s3 = (ucast (h ! 3) + ucast (load32_le (drop 12 inp)) :: u64)" "e4 = h ! 4 + end"
  have sb: "uint s0 \<le> 2 ^ 33 - 2" "uint s1 \<le> 2 ^ 33 - 2" "uint s2 \<le> 2 ^ 33 - 2" "uint s3 \<le> 2 ^ 33 - 2"
    unfolding ss by (rule uint_halves_sum(2))+
  have e4: "uint e4 = uint (h ! 4) + uint end" "uint e4 \<le> 5"
    unfolding ss using uint_add_bounded [of "h ! 4" 4 "end" 1] h e by (simp_all add: bounded_hash_def)
  define r0 r1 r2 r3 rr0 rr1 rr2 rr3 where rs: "r0 = r ! 0" "r1 = r ! 1" "r2 = r ! 2" "r3 = r ! 3"
    "rr0 = drop_bit 2 (r ! 0) * 5" "rr1 = drop_bit 2 (r ! 1) + r ! 1" "rr2 = drop_bit 2 (r ! 2) + r ! 2"
    "rr3 = drop_bit 2 (r ! 3) + r ! 3"
  have rb: "uint r0 \<le> 5 * 2 ^ 26" "uint r1 \<le> 5 * 2 ^ 26" "uint r2 \<le> 5 * 2 ^ 26" "uint r3 \<le> 5 * 2 ^ 26"
    "uint rr0 \<le> 5 * 2 ^ 26" "uint rr1 \<le> 5 * 2 ^ 26" "uint rr2 \<le> 5 * 2 ^ 26" "uint rr3 \<le> 5 * 2 ^ 26"
    unfolding rs using f(5-8,10) f(12) [of 1] f(12) [of 2] f(12) [of 3] by simp_all
  have rv: "uint rr0 = uint r0 div 4 * 5" "uint rr1 = 5 * (uint r1 div 4)" "uint rr2 = 5 * (uint r2 div 4)"
    "uint rr3 = 5 * (uint r3 div 4)" "uint (r0 AND 3) = uint r0 mod 4" "uint (r0 AND 3) \<le> 3"
    unfolding rs using f(9) f(11) [of 1] f(11) [of 2] f(11) [of 3] by (simp_all add: uint_and_3)
  have t: "uint (e4 * w) = uint e4 * uint w" "uint (e4 * w) \<le> 25 * 2 ^ 26" if "uint w \<le> 5 * 2 ^ 26" for w
    using uint_mult_bounded [OF e4(2) that] by simp_all
  have x4: "uint (e4 * (r0 AND 3)) = uint e4 * (uint r0 mod 4)" "uint (e4 * (r0 AND 3)) \<le> 15"
    using uint_mult_bounded [OF e4(2) rv(6)] rv(5) by simp_all
  note x0 = dot_words [OF sb rb(1,8,7,6) t(2) [OF rb(5)]] and x1 = dot_words [OF sb rb(2,1,8,7) t(2) [OF rb(6)]]
    and x2 = dot_words [OF sb rb(3,2,1,8) t(2) [OF rb(7)]] and x3 = dot_words [OF sb rb(4,3,2,1) t(2) [OF rb(8)]]
  have P: "(2 ^ 32) ^ 4 * 4 = p1305 + 5" by simp
  note prod = poly_product_value [OF P x0(1) [unfolded t(1) [OF rb(5)] rv] x1(1) [unfolded t(1) [OF rb(6)] rv]
      x2(1) [unfolded t(1) [OF rb(7)] rv] x3(1) [unfolded t(1) [OF rb(8)] rv] x4(1) f(1-4) [folded rs]]
  have R: "limbs_value r = uint r0 + 2 ^ 32 * uint r1 + (2 ^ 32) ^ 2 * uint r2 + (2 ^ 32) ^ 3 * uint r3"
    using r by (subst limbs_4) (simp_all add: clamped_def rs)
  have S: "limbs_value h + block_value inp + 2 ^ 128 * uint end =
      uint s0 + 2 ^ 32 * uint s1 + (2 ^ 32) ^ 2 * uint s2 + (2 ^ 32) ^ 3 * uint s3 + (2 ^ 32) ^ 4 * uint e4"
    unfolding e4(1) block_value_words [OF inp] unfolding ss uint_halves_sum(1) using h
    by (simp add: limbs_5 bounded_hash_def algebra_simps)
  show ?thesis
    by (rule that [OF _ x0(2) x1(2) x2(2) x3(2) x4(2)])
      (simp only: poly_product_def Let_def rs ss, unfold R S, rule prod)
qed

lemma poly_block_words:
  assumes "clamped r" "bounded_hash h" "uint end \<le> 1" "16 \<le> length inp"
  defines "h' \<equiv> poly_reduce (poly_product r h inp end)"
  shows "bounded_hash h'"
    and "limbs_value h' mod p1305 = (limbs_value h + block_value inp + 2 ^ 128 * uint end) * limbs_value r mod p1305"
proof -
  obtain x0 x1 x2 x3 x4 K where x: "poly_product r h inp end = (x0, x1, x2, x3, x4)"
    "uint x0 \<le> 5 * 2 ^ 61" "uint x1 \<le> 5 * 2 ^ 61" "uint x2 \<le> 5 * 2 ^ 61" "uint x3 \<le> 5 * 2 ^ 61" "uint x4 \<le> 15"
    "(limbs_value h + block_value inp + 2 ^ 128 * uint end) * limbs_value r =
      uint x0 + 2 ^ 32 * uint x1 + (2 ^ 32) ^ 2 * uint x2 + (2 ^ 32) ^ 3 * uint x3 + (2 ^ 32) ^ 4 * uint x4 + p1305 * K"
    by (rule poly_product_words [OF assms(1-4)])
  obtain a b c d e k where red: "poly_reduce (x0, x1, x2, x3, x4) = [a, b, c, d, e]" "uint e \<le> 4"
    "limbs_value [a, b, c, d, e] = uint x0 + 2 ^ 32 * uint x1 + (2 ^ 32) ^ 2 * uint x2 + (2 ^ 32) ^ 3 * uint x3
       + (2 ^ 32) ^ 4 * uint x4 - p1305 * k"
    by (rule poly_reduce_words [OF x(2-6)])
  have h': "h' = [a, b, c, d, e]" unfolding h'_def x(1) by (rule red(1))
  then show "bounded_hash h'" using red(2) by (simp add: bounded_hash_def)
  have "(limbs_value h + block_value inp + 2 ^ 128 * uint end) * limbs_value r = limbs_value h' + p1305 * (K + k)"
    unfolding h' red(3) x(7) by (simp add: algebra_simps)
  then show "limbs_value h' mod p1305 = (limbs_value h + block_value inp + 2 ^ 128 * uint end) * limbs_value r mod p1305"
    by (simp only: mod_mult_self2)
qed

end
