(* ===== verification/Poly1305_Correct.thy ===== *)
theory Poly1305_Correct
  imports Poly1305
begin

section \<open>Monocypher: Poly1305 computes what RFC 8439 defines\<close>

text \<open>
  The reference, arithmetic modulo \<open>2 ^ 130 - 5\<close> on integers, and the proof that
  \<open>crypto_poly1305_init\<close>, any sequence of \<open>crypto_poly1305_update\<close> and \<open>crypto_poly1305_final\<close>
  compute it: the context, as bytes arrive, holds the accumulator of the whole blocks and the rest
  of the message, and the last carry subtracts the prime exactly when it is due.
\<close>

subsection \<open>The reference: RFC 8439, section 2.5\<close>

function poly_accumulate :: "int \<Rightarrow> int \<Rightarrow> u8 list \<Rightarrow> int" where
  "poly_accumulate r a msg =
     (if msg = [] then a
      else poly_accumulate r ((a + le_value (take 16 msg @ [1])) * r mod p1305) (drop 16 msg))"
  by auto
termination by (relation "measure (\<lambda>(r, a, msg). length msg)") auto

declare poly_accumulate.simps [simp del]

definition rfc_r :: "u8 list \<Rightarrow> int" where
  "rfc_r key = le_value (take 16 key) AND 0x0ffffffc0ffffffc0ffffffc0fffffff"

definition rfc_poly1305 :: "u8 list \<Rightarrow> u8 list \<Rightarrow> int" where
  "rfc_poly1305 key msg =
     (poly_accumulate (rfc_r key) 0 msg + le_value (take 16 (drop 16 key))) mod 2 ^ 128"

lemma poly_accumulate_Nil [simp]: "poly_accumulate r a [] = a"
  by (simp add: poly_accumulate.simps)

lemma poly_accumulate_cong:
  "a mod p1305 = b mod p1305 \<Longrightarrow> poly_accumulate r a msg mod p1305 = poly_accumulate r b msg mod p1305"
proof (cases "msg = []")
  case False
  assume "a mod p1305 = b mod p1305"
  then have "(a + c) * r mod p1305 = (b + c) * r mod p1305" for c by (intro mod_mult_cong mod_add_cong) simp_all
  then show ?thesis using False by (simp only: poly_accumulate.simps [of r _ msg] if_False)
qed simp

lemma poly_accumulate_block:
  assumes "length x = 16"
  shows "poly_accumulate r a (x @ y) = poly_accumulate r ((a + le_value (x @ [1])) * r mod p1305) y"
  using assms by (subst poly_accumulate.simps) auto

lemma poly_accumulate_append:
  assumes "length x = 16 * n"
  shows "poly_accumulate r a (x @ y) = poly_accumulate r (poly_accumulate r a x) y"
  using assms
proof (induction n arbitrary: x a)
  case (Suc n)
  define u v where "u = take 16 x" and "v = drop 16 x"
  then have "x = u @ v" "length u = 16" "length v = 16 * n" using Suc.prems by simp_all
  then show ?case using Suc.IH [of v] by (simp add: poly_accumulate_block)
qed simp

lemma poly_loop_value:
  assumes "clamped r" "bounded_hash h" "16 * n \<le> length inp"
  shows "bounded_hash (poly_loop r h inp n 1) \<and>
    limbs_value (poly_loop r h inp n 1) mod p1305 =
      poly_accumulate (limbs_value r) (limbs_value h) (take (16 * n) inp) mod p1305"
  using assms(2,3)
proof (induction n arbitrary: h inp)
  case (Suc n)
  let ?h = "poly_reduce (poly_product r h inp 1)"
  have h: "bounded_hash ?h"
    "limbs_value ?h mod p1305 = (limbs_value h + block_value inp + 2 ^ 128 * uint (1 :: u32)) * limbs_value r mod p1305"
    using poly_block_words [OF assms(1) Suc.prems(1), of 1 inp] Suc.prems(2) by simp_all
  have b: "limbs_value h + block_value inp + 2 ^ 128 * uint (1 :: u32) = limbs_value h + le_value (take 16 inp @ [1])"
    using Suc.prems(2) by (simp add: block_value_def le_value_append)
  have "take (16 * Suc n) inp = take 16 inp @ take (16 * n) (drop 16 inp)" by (simp add: take_add)
  then have "poly_accumulate (limbs_value r) (limbs_value h) (take (16 * Suc n) inp) mod p1305 =
      poly_accumulate (limbs_value r) (limbs_value ?h mod p1305) (take (16 * n) (drop 16 inp)) mod p1305"
    using Suc.prems(2) unfolding h(2) b by (simp add: poly_accumulate_block)
  also have "\<dots> = poly_accumulate (limbs_value r) (limbs_value ?h) (take (16 * n) (drop 16 inp)) mod p1305"
    by (rule poly_accumulate_cong) simp
  finally show ?case using Suc.IH [OF h(1), of "drop 16 inp"] Suc.prems(2) by simp
qed simp

subsection \<open>The whole computation\<close>

lemma int_and_limb:
  fixes a m :: int
  assumes "0 \<le> a" "a < 2 ^ 32" "0 \<le> m" "m < 2 ^ 32"
  shows "(a + 2 ^ 32 * x) AND (m + 2 ^ 32 * y) = (a AND m) + 2 ^ 32 * (x AND y)"
proof -
  have c: "b + 2 ^ 32 * z = concat_bit 32 b z" if "0 \<le> b" "b < 2 ^ 32" for b z :: int
    using that by (simp add: concat_bit_eq push_bit_eq_mult take_bit_int_eq_self)
  have "0 \<le> a AND m" "a AND m < 2 ^ 32"
    using assms by (simp_all add: and_nonnegative_int_iff)
  moreover have "concat_bit 32 a x AND concat_bit 32 m y = concat_bit 32 (a AND m) (x AND y)"
    by (rule bit_eqI) (auto simp: bit_concat_bit_iff bit_and_iff)
  ultimately show ?thesis using assms by (simp only: c)
qed

lemma int_and_limbs:
  fixes a b c d :: int
  assumes "0 \<le> a" "a < 2 ^ 32" "0 \<le> b" "b < 2 ^ 32" "0 \<le> c" "c < 2 ^ 32"
    and "0 \<le> m" "m < 2 ^ 32" "0 \<le> m'" "m' < 2 ^ 32"
  shows "(a + 2 ^ 32 * (b + 2 ^ 32 * (c + 2 ^ 32 * d))) AND (m + 2 ^ 32 * (m' + 2 ^ 32 * (m' + 2 ^ 32 * m'))) =
    (a AND m) + 2 ^ 32 * ((b AND m') + 2 ^ 32 * ((c AND m') + 2 ^ 32 * (d AND m')))"
  using assms by (simp only: int_and_limb)

lemma init_r:
  assumes "32 \<le> length key"
  shows "clamped (pc_r (crypto_poly1305_init ctx key))" "limbs_value (pc_r (crypto_poly1305_init ctx key)) = rfc_r key"
    "limbs_value (pc_pad (crypto_poly1305_init ctx key)) = le_value (take 16 (drop 16 key))"
proof -
  let ?w = "\<lambda>i. load32_le (drop (i * 4) key)"
  have r: "pc_r (crypto_poly1305_init ctx key) =
      [?w 0 AND 0x0fffffff, ?w 1 AND 0x0ffffffc, ?w 2 AND 0x0ffffffc, ?w 3 AND 0x0ffffffc]"
    by (simp add: crypto_poly1305_init_def load32_le_buf_def upt_rec)
  have le: "uint (w AND m) \<le> uint m" for w m :: u32 by (metis word_and_le1 word_le_def)
  have dvd: "4 dvd uint (w AND 0x0ffffffc)" for w :: u32
  proof -
    have "take_bit 2 (uint (w AND 0x0ffffffc)) = take_bit 2 (uint w) AND take_bit 2 (0x0ffffffc :: int)"
      by (simp only: unsigned_and_eq take_bit_and) simp
    then have "take_bit 2 (uint (w AND 0x0ffffffc)) = 0" by simp
    then show ?thesis using take_bit_eq_0_iff [of 2 "uint (w AND 0x0ffffffc)"] by simp
  qed
  show "clamped (pc_r (crypto_poly1305_init ctx key))"
    unfolding r clamped_def using le [of _ "0x0fffffff"] le [of _ "0x0ffffffc"] dvd by simp
  have limbs: "limbs_value [a, b, c, d] = uint a + 2 ^ 32 * (uint b + 2 ^ 32 * (uint c + 2 ^ 32 * uint d))" for a b c d
    by (simp add: limbs_4)
  have key: "le_value (take 16 s) = uint (load32_le s) + 2 ^ 32 * (uint (load32_le (drop 4 s)) +
      2 ^ 32 * (uint (load32_le (drop 8 s)) + 2 ^ 32 * uint (load32_le (drop 12 s))))" if "16 \<le> length s" for s
    using block_value_words [OF that] by (simp add: block_value_def)
  have mask: "(0x0ffffffc0ffffffc0ffffffc0fffffff :: int) = 0x0fffffff + 2 ^ 32 * (0x0ffffffc + 2 ^ 32 * (0x0ffffffc + 2 ^ 32 * 0x0ffffffc))"
    by simp
  have w: "0 \<le> uint (w :: u32)" "uint (w :: u32) < 2 ^ 32" for w using uint_range_size [of w] by (simp_all add: word_size)
  have k: "le_value (take 16 key) = uint (?w 0) + 2 ^ 32 * (uint (?w 1) + 2 ^ 32 * (uint (?w 2) + 2 ^ 32 * uint (?w 3)))"
    using key [of key] assms by simp
  have "rfc_r key = (uint (?w 0) AND 0x0fffffff) + 2 ^ 32 * ((uint (?w 1) AND 0x0ffffffc) +
      2 ^ 32 * ((uint (?w 2) AND 0x0ffffffc) + 2 ^ 32 * (uint (?w 3) AND 0x0ffffffc)))"
    unfolding rfc_r_def mask k by (rule int_and_limbs [OF w w w]) simp_all
  then show "limbs_value (pc_r (crypto_poly1305_init ctx key)) = rfc_r key"
    unfolding r limbs unsigned_and_eq by simp
  have pad: "pc_pad (crypto_poly1305_init ctx key) = map (\<lambda>i. load32_le (drop (i * 4) (drop 16 key))) [0, 1, 2, 3]"
    by (simp add: crypto_poly1305_init_def load32_le_buf_def upt_rec)
  show "limbs_value (pc_pad (crypto_poly1305_init ctx key)) = le_value (take 16 (drop 16 key))"
    unfolding pad using assms by (simp add: limbs key)
qed

subsection \<open>Carries\<close>

lemma upt_4: "[0..<4] = [0, 1, 2, 3]"
  by (simp add: upt_conv_Cons)

lemma carry_div:
  fixes c :: int
  assumes "0 < B"
  shows "(((((c + d0) div B + d1) div B + d2) div B + d3) div B + d4) div 4 =
    (c + (d0 + B * d1 + B ^ 2 * d2 + B ^ 3 * d3 + B ^ 4 * d4)) div (B ^ 4 * 4)"
proof -
  have step: "(x + B * y) div B = x div B + y" for x y using assms by simp
  let ?t = "c + (d0 + B * d1 + B ^ 2 * d2 + B ^ 3 * d3 + B ^ 4 * d4)"
  have "?t = (c + d0) + B * (d1 + B * (d2 + B * (d3 + B * d4)))" by (simp add: algebra_simps power_numeral_reduce)
  moreover have "x div (B ^ 4 * 4) = x div B div B div B div B div 4" for x
    using assms by (simp add: power_numeral_reduce zdiv_zmult2_eq)
  ultimately show ?thesis by (simp only: step add.assoc [symmetric])
qed

lemma carry_mod:
  fixes c :: int
  assumes "0 < B" "e0 = c + d0" "e1 = e0 div B + d1" "e2 = e1 div B + d2" "e3 = e2 div B + d3"
  shows "e0 mod B + B * (e1 mod B + B * (e2 mod B + B * (e3 mod B))) =
    (c + (d0 + B * d1 + B ^ 2 * d2 + B ^ 3 * d3)) mod B ^ 4"
proof -
  let ?s = "e0 mod B + B * (e1 mod B + B * (e2 mod B + B * (e3 mod B)))"
  have b: "0 \<le> x mod B + B * y" "x mod B + B * y < B * m" if "0 \<le> y" "y < m" for x y m :: int
  proof -
    show "0 \<le> x mod B + B * y" using assms that by simp
    have "B * (y + 1) \<le> B * m" using assms that by simp
    moreover have "x mod B < B" using assms by simp
    ultimately show "x mod B + B * y < B * m" by (simp add: algebra_simps)
  qed
  have e3: "0 \<le> e3 mod B" "e3 mod B < B" using assms by simp_all
  note s = b [OF b [OF b [OF e3]]]
  have "?s < B ^ 4" using s(2) by (simp add: power_numeral_reduce mult.assoc)
  moreover define f0 f1 f2 f3 where fs: "f0 = e0 div B" "f1 = e1 div B" "f2 = e2 div B" "f3 = e3 div B"
  have m: "e0 mod B = e0 - B * f0" "e1 mod B = e1 - B * f1" "e2 mod B = e2 - B * f2" "e3 mod B = e3 - B * f3"
    unfolding fs by (simp_all add: minus_mult_div_eq_mod)
  have "?s = c + (d0 + B * d1 + B ^ 2 * d2 + B ^ 3 * d3) + B ^ 4 * (- f3)"
    using assms(2-) unfolding m fs [symmetric] by algebra
  ultimately show ?thesis using s(1) by (metis mod_mult_self2 mod_pos_pos_trivial)
qed

lemma final_carry:
  fixes h :: "u32 list"
  assumes "bounded_hash h"
  defines "c \<equiv> fold (\<lambda>i c. drop_bit 32 (c + ucast (h ! i))) [0..<4] (5 :: u64)"
  shows "uint (drop_bit 2 (c + ucast (h ! 4)) * 5) = (limbs_value h + 5) div 2 ^ 130 * 5"
    and "(limbs_value h + 5) div 2 ^ 130 \<le> 1"
proof -
  have step: "uint (drop_bit 32 (a + ucast w)) = (uint a + uint w) div 2 ^ 32"
      "uint (drop_bit 32 (a + ucast w)) \<le> 1" if "uint a \<le> 5" for a :: u64 and w :: u32
  proof -
    have add: "uint (a + ucast w) = uint a + uint w" "uint (a + ucast w) \<le> 5 + (2 ^ 32 - 1)"
      using uint_add_bounded [of a 5 "ucast w" "2 ^ 32 - 1"] that uint_32_bounds(2) [of w]
      by (simp_all add: uint_ucast_64)
    then show "uint (drop_bit 32 (a + ucast w)) = (uint a + uint w) div 2 ^ 32"
      by (simp add: uint_drop_bit_word)
    show "uint (drop_bit 32 (a + ucast w)) \<le> 1"
      using zdiv_mono1 [OF add(2), of "2 ^ 32"] by (simp add: uint_drop_bit_word)
  qed
  define c1 c2 c3 c4 where cs: "c1 = drop_bit 32 ((5 :: u64) + ucast (h ! 0))" "c2 = drop_bit 32 (c1 + ucast (h ! 1))"
    "c3 = drop_bit 32 (c2 + ucast (h ! 2))" "c4 = drop_bit 32 (c3 + ucast (h ! 3))"
  have c: "c = c4" by (simp add: c_def cs upt_4)
  have c1: "uint c1 = (5 + uint (h ! 0)) div 2 ^ 32" "uint c1 \<le> 5"
    using step [of 5 "h ! 0"] unfolding cs by simp_all
  have c2: "uint c2 = (uint c1 + uint (h ! 1)) div 2 ^ 32" "uint c2 \<le> 5"
    using step [OF c1(2), of "h ! 1"] unfolding cs(2) by simp_all
  have c3: "uint c3 = (uint c2 + uint (h ! 2)) div 2 ^ 32" "uint c3 \<le> 5"
    using step [OF c2(2), of "h ! 2"] unfolding cs(3) by simp_all
  have c4: "uint c4 = (uint c3 + uint (h ! 3)) div 2 ^ 32" "uint c4 \<le> 1"
    using step [OF c3(2), of "h ! 3"] unfolding cs(4) by simp_all
  have d: "uint (c4 + ucast (h ! 4)) = uint c4 + uint (h ! 4)" "uint (c4 + ucast (h ! 4)) \<le> 5"
    using uint_add_bounded [OF c4(2), of "ucast (h ! 4)" 4] assms(1)
    by (simp_all add: uint_ucast_64 bounded_hash_def)
  have V: "limbs_value h = uint (h ! 0) + 2 ^ 32 * uint (h ! 1) + (2 ^ 32) ^ 2 * uint (h ! 2) +
    (2 ^ 32) ^ 3 * uint (h ! 3) + (2 ^ 32) ^ 4 * uint (h ! 4)"
    using assms(1) by (intro limbs_5) (simp add: bounded_hash_def)
  have "(limbs_value h + 5) div 2 ^ 130 = (5 + limbs_value h) div ((2 ^ 32) ^ 4 * 4)" by (simp add: add.commute)
  also have "\<dots> = (uint c4 + uint (h ! 4)) div 4"
    unfolding V c4(1) c3(1) c2(1) c1(1) by (rule carry_div [symmetric]) simp
  finally have k: "(limbs_value h + 5) div 2 ^ 130 = uint (c4 + ucast (h ! 4)) div 4" by (simp only: d(1))
  then show "(limbs_value h + 5) div 2 ^ 130 \<le> 1"
    using zdiv_mono1 [OF d(2), of 4] by simp
  then have "uint (drop_bit 2 (c4 + ucast (h ! 4))) \<le> 1"
    unfolding k by (simp add: uint_drop_bit_word)
  then have "uint (drop_bit 2 (c4 + ucast (h ! 4)) * 5) = uint (c4 + ucast (h ! 4)) div 4 * 5"
    using uint_mult_bounded [of "drop_bit 2 (c4 + ucast (h ! 4))" 1 5 5] by (simp add: uint_drop_bit_word)
  then show "uint (drop_bit 2 (c + ucast (h ! 4)) * 5) = (limbs_value h + 5) div 2 ^ 130 * 5"
    unfolding c k .
qed

lemma final_output:
  fixes h pad :: "u32 list" and c :: u64
  assumes c: "uint c \<le> 5"
  defines "mac \<equiv> snd (fold (\<lambda>i (c, mac). let c = c + (ucast (h ! i) + ucast (pad ! i))
      in (drop_bit 32 c, mac @ store32_le (ucast c))) [0..<4] (c, []))"
  shows "length mac = 16"
    and "le_value mac = (uint c + ((uint (h ! 0) + uint (pad ! 0)) + 2 ^ 32 * (uint (h ! 1) + uint (pad ! 1)) +
      (2 ^ 32) ^ 2 * (uint (h ! 2) + uint (pad ! 2)) + (2 ^ 32) ^ 3 * (uint (h ! 3) + uint (pad ! 3)))) mod (2 ^ 32) ^ 4"
proof -
  have step: "uint (a + (ucast v + ucast w)) = uint a + (uint v + uint w) \<and> uint (drop_bit 32 (a + (ucast v + ucast w))) \<le> 5"
    if "uint a \<le> 5" for a :: u64 and v w :: u32
  proof -
    have add: "uint (a + (ucast v + ucast w)) = uint a + (uint v + uint w)"
        "uint (a + (ucast v + ucast w)) \<le> 5 + (2 ^ 33 - 2)"
      using uint_add_bounded [OF that uint_halves_sum(2) [of v w]] by (simp_all add: uint_halves_sum(1))
    then show ?thesis using zdiv_mono1 [OF add(2), of "2 ^ 32"] by (simp add: uint_drop_bit_word)
  qed
  have low: "uint (ucast a :: u32) = uint a mod 2 ^ 32" for a :: u64
    by (simp add: unsigned_ucast_eq take_bit_eq_mod)
  define e0 e1 e2 e3 where es: "e0 = c + (ucast (h ! 0) + ucast (pad ! 0))"
    "e1 = drop_bit 32 e0 + (ucast (h ! 1) + ucast (pad ! 1))"
    "e2 = drop_bit 32 e1 + (ucast (h ! 2) + ucast (pad ! 2))"
    "e3 = drop_bit 32 e2 + (ucast (h ! 3) + ucast (pad ! 3))"
  have mac: "mac = store32_le (ucast e0) @ store32_le (ucast e1) @ store32_le (ucast e2) @ store32_le (ucast e3)"
    by (simp add: mac_def upt_4 es Let_def)
  then show "length mac = 16" by simp
  note e0 = step [OF c, of "h ! 0" "pad ! 0", folded es(1)]
  note e1 = step [OF e0 [THEN conjunct2], of "h ! 1" "pad ! 1", folded es(2)]
  note e2 = step [OF e1 [THEN conjunct2], of "h ! 2" "pad ! 2", folded es(3)]
  note e3 = step [OF e2 [THEN conjunct2], of "h ! 3" "pad ! 3", folded es(4)]
  have "le_value mac = uint e0 mod 2 ^ 32 + 2 ^ 32 * (uint e1 mod 2 ^ 32 + 2 ^ 32 * (uint e2 mod 2 ^ 32 +
      2 ^ 32 * (uint e3 mod 2 ^ 32)))"
    by (simp add: mac le_value_append low)
  also have "\<dots> = (uint c + ((uint (h ! 0) + uint (pad ! 0)) + 2 ^ 32 * (uint (h ! 1) + uint (pad ! 1)) +
      (2 ^ 32) ^ 2 * (uint (h ! 2) + uint (pad ! 2)) + (2 ^ 32) ^ 3 * (uint (h ! 3) + uint (pad ! 3)))) mod (2 ^ 32) ^ 4"
    using e0 e1 e2 e3 by (intro carry_mod) (simp_all only: uint_drop_bit_word, simp_all)
  finally show "le_value mac = \<dots>" .
qed

lemma limbs_bounds:
  assumes "bounded_hash h" shows "0 \<le> limbs_value h" "limbs_value h < 5 * 2 ^ 128"
proof -
  have len: "length h = 5" using assms by (simp add: bounded_hash_def)
  have "uint (h ! i) \<le> 2 ^ 32 - 1" for i by (rule uint_32_bounds)
  from this [of 0] this [of 1] this [of 2] this [of 3]
  show "0 \<le> limbs_value h" "limbs_value h < 5 * 2 ^ 128"
    using assms unfolding limbs_5 [OF len] by (simp_all add: bounded_hash_def)
qed

text \<open>One subtraction of the prime reduces the hash.\<close>

lemma reduce_once:
  fixes V :: int
  assumes "0 \<le> V" "V < 5 * 2 ^ 128"
  shows "V mod p1305 = V - p1305 * ((V + 5) div 2 ^ 130)"
proof (cases "V < p1305")
  case True
  then have "(V + 5) div 2 ^ 130 = 0" using assms by (intro div_pos_pos_trivial) simp_all
  then show ?thesis using True assms by (simp add: mod_pos_pos_trivial)
next
  case False
  then have "(V + 5 - 2 ^ 130) div 2 ^ 130 = 0" using assms by (intro div_pos_pos_trivial) simp_all
  then have "(V + 5) div 2 ^ 130 = 1" using div_mult_self1 [of "2 ^ 130" "V + 5 - 2 ^ 130" 1] by simp
  moreover have "V mod p1305 = (V - p1305) mod p1305" by (rule minus_mod_self2 [symmetric])
  moreover have "(V - p1305) mod p1305 = V - p1305"
    using False assms by (intro mod_pos_pos_trivial) simp_all
  ultimately show ?thesis by (simp only: mult_1_right)
qed

subsection \<open>The context while a message is fed\<close>

text \<open>
  The context after a message \<open>m\<close>: its whole blocks are in the hash, and the rest is in the chunk.
\<close>

definition fed :: "u8 list \<Rightarrow> u8 list \<Rightarrow> crypto_poly1305_ctx \<Rightarrow> bool" where
  "fed key m ctx \<longleftrightarrow> clamped (pc_r ctx) \<and> limbs_value (pc_r ctx) = rfc_r key \<and>
     limbs_value (pc_pad ctx) = le_value (take 16 (drop 16 key)) \<and> length (pc_pad ctx) = 4 \<and>
     length (pc_c ctx) = 16 \<and> bounded_hash (pc_h ctx) \<and> pc_c_idx ctx = length m mod 16 \<and>
     take (pc_c_idx ctx) (pc_c ctx) = drop (16 * (length m div 16)) m \<and>
     limbs_value (pc_h ctx) mod p1305 = poly_accumulate (rfc_r key) 0 (take (16 * (length m div 16)) m) mod p1305"

lemma fill_chunk_eq:
  assumes "pc_c_idx ctx + length bs \<le> length (pc_c ctx)"
  shows "fill_chunk ctx bs = ctx\<lparr>pc_c := overwrite (pc_c ctx) (pc_c_idx ctx) bs, pc_c_idx := pc_c_idx ctx + length bs\<rparr>"
  using assms
proof (induction ctx bs rule: fill_chunk.induct)
  case (2 ctx b bs)
  then show ?case
    by (simp add: overwrite_def take_update_swap drop_update_swap take_Suc_conv_app_nth upd_conv_take_nth_drop)
      (simp add: add.commute)
qed (simp add: overwrite_def)

lemma init_fed:
  assumes "32 \<le> length key" "length (pc_c ctx) = 16"
  shows "fed key [] (crypto_poly1305_init ctx key)"
  using init_r [OF assms(1), of ctx] assms(2)
  by (simp add: fed_def crypto_poly1305_init_def Let_def bounded_hash_def limbs_value_def)

text \<open>Whole blocks that arrive when the chunk is empty.\<close>

lemma fed_blocks:
  assumes f: "fed key m ctx" and m: "length m = 16 * k" and n: "16 * n \<le> length bs"
  shows "fed key (m @ take (16 * n) bs) (poly_blocks ctx bs n 1)"
proof -
  have hash: "bounded_hash (poly_loop (pc_r ctx) (pc_h ctx) bs n 1)"
    "limbs_value (poly_loop (pc_r ctx) (pc_h ctx) bs n 1) mod p1305 =
      poly_accumulate (rfc_r key) (limbs_value (pc_h ctx)) (take (16 * n) bs) mod p1305"
    using poly_loop_value [of "pc_r ctx" "pc_h ctx" n bs] f n by (simp_all add: fed_def)
  have "poly_accumulate (rfc_r key) (limbs_value (pc_h ctx)) (take (16 * n) bs) mod p1305 =
      poly_accumulate (rfc_r key) (poly_accumulate (rfc_r key) 0 m) (take (16 * n) bs) mod p1305"
    using f m by (intro poly_accumulate_cong) (simp add: fed_def)
  also have "\<dots> = poly_accumulate (rfc_r key) 0 (m @ take (16 * n) bs) mod p1305"
    using m by (simp add: poly_accumulate_append)
  finally have acc: "poly_accumulate (rfc_r key) (limbs_value (pc_h ctx)) (take (16 * n) bs) mod p1305 = \<dots>" .
  have "length (m @ take (16 * n) bs) = 16 * (k + n)" using m n by simp
  then have len: "length (m @ take (16 * n) bs) div 16 = k + n" "length (m @ take (16 * n) bs) mod 16 = 0"
    "16 * (k + n) = length (m @ take (16 * n) bs)" by simp_all
  have idx: "pc_c_idx ctx = 0" using f m by (simp add: fed_def)
  show ?thesis
    using f idx hash acc n unfolding fed_def len by (simp add: poly_blocks_def min_absorb2)
qed

text \<open>Bytes that do not complete a block.\<close>

lemma fed_rest:
  assumes f: "fed key m ctx" and n: "length m mod 16 + length bs < 16"
  shows "fed key (m @ bs) (fill_chunk ctx bs)"
proof -
  have "(length m + length bs) div 16 = length m div 16" "(length m + length bs) mod 16 = length m mod 16 + length bs"
  proof -
    have "(16 * (length m div 16) + (length m mod 16 + length bs)) div 16 = length m div 16 + (length m mod 16 + length bs) div 16"
      by (rule div_mult_self4) simp
    then show "(length m + length bs) div 16 = length m div 16" using n by (simp add: add.assoc [symmetric])
    have "(16 * (length m div 16) + (length m mod 16 + length bs)) mod 16 = (length m mod 16 + length bs) mod 16"
      by (rule mod_mult_self4)
    then show "(length m + length bs) mod 16 = length m mod 16 + length bs" using n by (simp add: add.assoc [symmetric])
  qed
  moreover have "pc_c_idx ctx + length bs \<le> length (pc_c ctx)" using f n by (simp add: fed_def)
  ultimately show ?thesis
    using f unfolding fill_chunk_eq [OF \<open>pc_c_idx ctx + length bs \<le> length (pc_c ctx)\<close>]
    by (auto simp: fed_def)
qed

lemma fed_chunk:
  assumes "fed key m ctx" "16 dvd length m" "length c = 16"
  shows "fed key m (ctx\<lparr>pc_c := c\<rparr>)"
proof -
  have "pc_c_idx ctx = 0" using assms(1,2) by (simp add: fed_def)
  then show ?thesis using assms(1,3) by (simp add: fed_def)
qed

lemma gap_16:
  assumes "i < 16" shows "unat (gap (of_nat i) 16) = (if i = 0 then 0 else 16 - i)"
proof -
  have i: "unat (of_nat i :: u64) = i" using assms by (simp add: unat_of_nat)
  have "unat (gap (of_nat i) (2 ^ 4)) < 2 ^ 4" "2 ^ 4 dvd unat (of_nat i :: u64) + unat (gap (of_nat i) (2 ^ 4))"
    by (rule gap_aligns; simp)+
  then have "unat (gap (of_nat i) 16) < 16" "16 dvd i + unat (gap (of_nat i) 16)"
    unfolding i by simp_all
  then obtain k where "i + unat (gap (of_nat i) 16) = 16 * k" "unat (gap (of_nat i) 16) < 16" by (auto elim: dvdE)
  moreover from this assms have "k = 0 \<or> k = 1" by linarith
  ultimately show ?thesis using assms by auto
qed

text \<open>The bytes that complete the chunk.\<close>

lemma fed_complete:
  assumes f: "fed key m ctx" and full: "length m mod 16 + length bs = 16"
  defines "ctx1 \<equiv> fill_chunk ctx bs"
  shows "fed key (m @ bs) ((poly_blocks ctx1 (pc_c ctx1) 1 1)\<lparr>pc_c_idx := 0\<rparr>)"
    and "16 dvd length (m @ bs)" "pc_c_idx ctx1 = 16"
proof -
  let ?m = "take (16 * (length m div 16)) m" and ?chunk = "drop (16 * (length m div 16)) m @ bs"
  have sum: "l = 16 * q + i \<Longrightarrow> i + a = 16 \<Longrightarrow> l + a = 16 * (q + 1)" for l q i a :: nat by simp
  have "length (m @ bs) = 16 * (length m div 16 + 1)"
    unfolding length_append by (rule sum [OF _ full]) simp
  then show dvd: "16 dvd length (m @ bs)" by (metis dvd_triv_left)
  have "length ?chunk = length m mod 16 + length bs"
    unfolding length_append length_drop by (simp only: minus_mult_div_eq_mod)
  with full have len: "length ?chunk = 16" by simp
  have ctx1: "ctx1 = ctx\<lparr>pc_c := ?chunk, pc_c_idx := 16\<rparr>"
    unfolding ctx1_def using f full by (subst fill_chunk_eq) (auto simp: fed_def overwrite_def)
  then show "pc_c_idx ctx1 = 16" by simp
  have "length ?m = 16 * (length m div 16)" by simp
  moreover have "fed key ?m (ctx\<lparr>pc_c_idx := 0\<rparr>)" using f by (simp add: fed_def)
  ultimately have "fed key (?m @ take (16 * 1) ?chunk) (poly_blocks (ctx\<lparr>pc_c_idx := 0\<rparr>) ?chunk 1 1)"
    using len by (intro fed_blocks) simp_all
  moreover have "take (16 * 1) ?chunk = ?chunk" using len by (intro take_all) simp
  then have "?m @ take (16 * 1) ?chunk = m @ bs" by (simp only: append_assoc [symmetric] append_take_drop_id)
  moreover have "(poly_blocks ctx1 (pc_c ctx1) 1 1)\<lparr>pc_c_idx := 0\<rparr> =
      (poly_blocks (ctx\<lparr>pc_c_idx := 0\<rparr>) ?chunk 1 1)\<lparr>pc_c := ?chunk\<rparr>"
    by (simp add: ctx1 poly_blocks_def)
  ultimately show "fed key (m @ bs) ((poly_blocks ctx1 (pc_c ctx1) 1 1)\<lparr>pc_c_idx := 0\<rparr>)"
    using len dvd fed_chunk by metis
qed

lemma update_fed:
  assumes f: "fed key m ctx"
  shows "fed key (m @ msg) (crypto_poly1305_update ctx msg)"
proof (cases "msg = []")
  case True
  then show ?thesis using f by (simp add: crypto_poly1305_update_def)
next
  case False
  let ?i = "length m mod 16"
  define a where "a = min (unat (gap (of_nat (pc_c_idx ctx)) 16)) (length msg)"
  define ctx1 where "ctx1 = fill_chunk ctx (take a msg)"
  define ctx2 where "ctx2 = (if pc_c_idx ctx1 = 16 then (poly_blocks ctx1 (pc_c ctx1) 1 1)\<lparr>pc_c_idx := 0\<rparr> else ctx1)"
  have idx: "pc_c_idx ctx = ?i" "length (pc_c ctx) = 16" using f by (simp_all add: fed_def)
  have a: "a = min (if ?i = 0 then 0 else 16 - ?i) (length msg)"
    unfolding a_def idx by (simp add: gap_16)
  have two: "fed key (m @ take a msg) ctx2 \<and> (16 dvd length (m @ take a msg) \<or> a = length msg)"
  proof (cases "?i + a = 16")
    case True
    moreover have "length (take a msg) = a" using a by simp
    ultimately show ?thesis
      using fed_complete [OF f, of "take a msg"] unfolding ctx2_def ctx1_def by simp
  next
    case False
    then have "?i + length (take a msg) < 16" using a by auto
    then have "fed key (m @ take a msg) ctx1" unfolding ctx1_def by (rule fed_rest [OF f])
    moreover from this have "pc_c_idx ctx1 = length (m @ take a msg) mod 16" unfolding fed_def by blast
    then have "pc_c_idx ctx1 \<noteq> 16" using mod_less_divisor [of 16 "length (m @ take a msg)"] by linarith
    moreover have "16 dvd length (m @ take a msg) \<or> a = length msg"
      using False a by (auto simp: min_def split: if_splits)
    ultimately show ?thesis by (simp add: ctx2_def)
  qed
  define rest where "rest = drop a msg"
  define n where "n = length rest div 16"
  have upd: "crypto_poly1305_update ctx msg = fill_chunk (poly_blocks ctx2 rest n 1) (drop (n * 16) rest)"
    using False by (simp add: crypto_poly1305_update_def Let_def a_def ctx1_def ctx2_def rest_def n_def)
  have msg: "m @ msg = (m @ take a msg) @ take (16 * n) rest @ drop (16 * n) rest"
    by (simp only: rest_def append_take_drop_id append_assoc)
  show ?thesis
  proof (cases "rest = []")
    case True
    then show ?thesis using two by (simp add: upd n_def poly_blocks_def rest_def)
  next
    case False
    then obtain k where k: "length (m @ take a msg) = 16 * k" using two by (auto simp: rest_def elim: dvdE)
    have "16 * n \<le> length rest" by (simp add: n_def)
    with two k have "fed key ((m @ take a msg) @ take (16 * n) rest) (poly_blocks ctx2 rest n 1)"
      by (intro fed_blocks) auto
    moreover have "length ((m @ take a msg) @ take (16 * n) rest) mod 16 = 0"
      using k \<open>16 * n \<le> length rest\<close> by (simp only: length_append length_take min_absorb2) simp
    moreover have "length (drop (16 * n) rest) < 16" by (simp add: n_def minus_mult_div_eq_mod)
    ultimately show ?thesis
      unfolding upd msg append_assoc [symmetric] mult.commute [of n] by (intro fed_rest) simp_all
  qed
qed

subsection \<open>The authenticator\<close>

lemma final_value:
  assumes h: "bounded_hash (pc_h ctx)" and p: "length (pc_pad ctx) = 4" and idx: "pc_c_idx ctx = 0"
  shows "le_value (fst (crypto_poly1305_final ctx)) = (limbs_value (pc_h ctx) mod p1305 + limbs_value (pc_pad ctx)) mod 2 ^ 128"
    and "length (fst (crypto_poly1305_final ctx)) = 16"
proof -
  let ?h = "pc_h ctx" and ?p = "pc_pad ctx" and ?k = "(limbs_value (pc_h ctx) + 5) div 2 ^ 130"
  define c where "c = drop_bit 2 (fold (\<lambda>i c. drop_bit 32 (c + ucast (?h ! i))) [0..<4] (5 :: u64) + ucast (?h ! 4)) * 5"
  have c: "uint c = ?k * 5" "uint c \<le> 5" unfolding c_def using final_carry [OF h] by simp_all
  have mac: "fst (crypto_poly1305_final ctx) = snd (fold (\<lambda>i (c, mac). let c = c + (ucast (?h ! i) + ucast (?p ! i))
      in (drop_bit 32 c, mac @ store32_le (ucast c))) [0..<4] (c, []))"
    using idx by (simp add: crypto_poly1305_final_def c_def Let_def split: prod.split)
  show "length (fst (crypto_poly1305_final ctx)) = 16" unfolding mac by (rule final_output(1) [OF c(2)])
  have V: "limbs_value ?h = uint (?h ! 0) + 2 ^ 32 * uint (?h ! 1) + (2 ^ 32) ^ 2 * uint (?h ! 2) +
      (2 ^ 32) ^ 3 * uint (?h ! 3) + (2 ^ 32) ^ 4 * uint (?h ! 4)"
    using h by (intro limbs_5) (simp add: bounded_hash_def)
  have B: "(2 :: int) ^ 128 = (2 ^ 32) ^ 4" by simp
  have "limbs_value ?h mod p1305 + limbs_value ?p =
      uint c + ((uint (?h ! 0) + uint (?p ! 0)) + 2 ^ 32 * (uint (?h ! 1) + uint (?p ! 1)) +
      (2 ^ 32) ^ 2 * (uint (?h ! 2) + uint (?p ! 2)) + (2 ^ 32) ^ 3 * (uint (?h ! 3) + uint (?p ! 3)))
      + (2 ^ 32) ^ 4 * (uint (?h ! 4) - 4 * ?k)"
    using reduce_once [OF limbs_bounds [OF h]] limbs_4 [OF p] V c(1) by (simp add: algebra_simps)
  from this show "le_value (fst (crypto_poly1305_final ctx)) = (limbs_value ?h mod p1305 + limbs_value ?p) mod 2 ^ 128"
    unfolding mac final_output(2) [OF c(2)] B by (simp only: mod_mult_self2)
qed

lemma poly_accumulate_reduced:
  "a mod p1305 = a \<Longrightarrow> poly_accumulate r a msg mod p1305 = poly_accumulate r a msg"
proof (induction r a msg rule: poly_accumulate.induct)
  case (1 r a msg)
  then show ?case
    by (cases "msg = []") (simp_all add: poly_accumulate.simps [of r a msg])
qed

lemma rest_accumulated:
  assumes "length m mod 16 \<noteq> 0"
  shows "poly_accumulate r a m = (poly_accumulate r a (take (16 * (length m div 16)) m) +
    le_value (drop (16 * (length m div 16)) m @ [1])) * r mod p1305"
proof -
  let ?x = "take (16 * (length m div 16)) m" and ?y = "drop (16 * (length m div 16)) m"
  have y: "length ?y = length m mod 16" by (simp add: minus_mult_div_eq_mod)
  have "poly_accumulate r a (?x @ ?y) = poly_accumulate r (poly_accumulate r a ?x) ?y"
    by (rule poly_accumulate_append [of _ "length m div 16"]) simp
  moreover have "?y \<noteq> []" "take 16 ?y = ?y" "drop 16 ?y = []"
    using y assms by (auto intro!: take_all drop_all simp del: length_drop)
  then have "poly_accumulate r b ?y = (b + le_value (?y @ [1])) * r mod p1305" for b
    by (simp only: poly_accumulate.simps [of r b ?y] if_False poly_accumulate_Nil)
  ultimately show ?thesis by (simp only: append_take_drop_id)
qed

lemma fed_final:
  assumes f: "fed key m ctx"
  shows "le_value (fst (crypto_poly1305_final ctx)) = rfc_poly1305 key m"
    and "length (fst (crypto_poly1305_final ctx)) = 16"
proof -
  let ?x = "take (16 * (length m div 16)) m" and ?y = "drop (16 * (length m div 16)) m"
  have pad: "limbs_value (pc_pad ctx) = le_value (take 16 (drop 16 key))" "length (pc_pad ctx) = 4"
    using f by (simp_all add: fed_def)
  have "\<exists>ctx'. crypto_poly1305_final ctx = crypto_poly1305_final ctx' \<and> pc_c_idx ctx' = 0 \<and>
      bounded_hash (pc_h ctx') \<and> pc_pad ctx' = pc_pad ctx \<and>
      limbs_value (pc_h ctx') mod p1305 = poly_accumulate (rfc_r key) 0 m"
  proof (cases "length m mod 16 = 0")
    case True
    then have "16 * (length m div 16) = length m" by (metis add_0_right mult_div_mod_eq)
    then have "?x = m" by simp
    then show ?thesis
      using f True poly_accumulate_reduced [of 0 "rfc_r key" m] by (intro exI [of _ ctx]) (simp add: fed_def)
  next
    case False
    let ?i = "pc_c_idx ctx"
    define chunk where "chunk = (take ?i (pc_c ctx) @ replicate (16 - ?i) 0)[?i := 1]"
    have i: "?i = length m mod 16" "?i < 16" "take ?i (pc_c ctx) = ?y" "length ?y = ?i"
      using f by (auto simp: fed_def minus_mult_div_eq_mod)
    then have chunk: "chunk = ?y @ [1] @ replicate (15 - ?i) 0"
      unfolding chunk_def i(3) by (simp add: list_update_append Suc_diff_Suc [symmetric] del: length_drop)
    let ?h = "poly_reduce (poly_product (pc_r ctx) (pc_h ctx) chunk 0)"
    have h: "bounded_hash ?h" "limbs_value ?h mod p1305 = (limbs_value (pc_h ctx) + block_value chunk) * rfc_r key mod p1305"
      using poly_block_words [of "pc_r ctx" "pc_h ctx" 0 chunk] f i chunk by (simp_all add: fed_def)
    have "block_value chunk = le_value (?y @ [1])"
      using i chunk by (simp add: block_value_def le_value_append)
    then have "limbs_value ?h mod p1305 = (limbs_value (pc_h ctx) mod p1305 + le_value (?y @ [1])) * rfc_r key mod p1305"
      unfolding h(2) by (intro mod_mult_cong mod_add_cong) simp_all
    also have "\<dots> = (poly_accumulate (rfc_r key) 0 ?x + le_value (?y @ [1])) * rfc_r key mod p1305"
      using f poly_accumulate_reduced [of 0 "rfc_r key" ?x] by (simp add: fed_def)
    also have "\<dots> = poly_accumulate (rfc_r key) 0 m"
      by (rule rest_accumulated [OF False, symmetric])
    finally have "limbs_value ?h mod p1305 = poly_accumulate (rfc_r key) 0 m" .
    moreover have "crypto_poly1305_final ctx = crypto_poly1305_final (ctx\<lparr>pc_h := ?h, pc_c_idx := 0\<rparr>)"
      unfolding crypto_poly1305_final_def Let_def chunk_def poly_blocks_def using False i(1) by simp
    ultimately show ?thesis using h(1) by (intro exI [of _ "ctx\<lparr>pc_h := ?h, pc_c_idx := 0\<rparr>"]) simp
  qed
  then obtain ctx' where ctx': "crypto_poly1305_final ctx = crypto_poly1305_final ctx'" "pc_c_idx ctx' = 0"
    "bounded_hash (pc_h ctx')" "pc_pad ctx' = pc_pad ctx" "limbs_value (pc_h ctx') mod p1305 = poly_accumulate (rfc_r key) 0 m"
    by blast
  then show "le_value (fst (crypto_poly1305_final ctx)) = rfc_poly1305 key m" "length (fst (crypto_poly1305_final ctx)) = 16"
    using final_value [of ctx'] pad by (simp_all add: rfc_poly1305_def)
qed

text \<open>
  C20: The authenticator.  However the message is split over the calls, the bytes that the code computes
  with four limbs of 32 bits and lazy reduction are the number that RFC 8439 defines: the message,
  read as the coefficients of a polynomial, evaluated at the clamped key modulo 2 ^ 130 - 5.
\<close>

theorem poly1305_chunks:
  assumes "32 \<le> length key" "length (pc_c ctx) = 16"
  shows "let mac = fst (crypto_poly1305_final
      (fold (\<lambda>msg ctx. crypto_poly1305_update ctx msg) msgs (crypto_poly1305_init ctx key)))
    in length mac = 16 \<and> le_value mac = rfc_poly1305 key (concat msgs)"
proof -
  have "fed key (m @ concat msgs) (fold (\<lambda>msg ctx. crypto_poly1305_update ctx msg) msgs ctx)"
    if "fed key m ctx" for m ctx
    using that
  proof (induction msgs arbitrary: m ctx)
    case (Cons x msgs)
    from Cons.IH [OF update_fed [OF Cons.prems, of x]] show ?case by simp
  qed simp
  from fed_final [OF this [OF init_fed [OF assms(1,2)]]]
  show ?thesis by (simp add: Let_def)
qed

lemma poly1305_chunks_witness:
  "let mac = fst (crypto_poly1305_final
      (fold (\<lambda>msg ctx. crypto_poly1305_update ctx msg) [[1, 2], replicate 20 3]
        (crypto_poly1305_init poly1305_wiped (replicate 32 4))))
    in length mac = 16 \<and> le_value mac = rfc_poly1305 (replicate 32 4) (1 # 2 # replicate 20 3)"
  using poly1305_chunks [of "replicate 32 4" poly1305_wiped "[[1, 2], replicate 20 3]"]
  by (simp add: poly1305_wiped_def Let_def)

corollary crypto_poly1305_correct:
  assumes "32 \<le> length key" "length (pc_c ctx) = 16"
  shows "length (crypto_poly1305 ctx msg key) = 16" "le_value (crypto_poly1305 ctx msg key) = rfc_poly1305 key msg"
  using fed_final [OF update_fed [OF init_fed [OF assms], of msg]]
  by (simp_all add: crypto_poly1305_def)

end
