(* ===== verification/Aead.thy ===== *)
theory Aead
  imports Chacha20 Poly1305_Correct
begin

section \<open>Monocypher: authenticated encryption\<close>

text \<open>
  The section \<open>Authenticated encryption\<close> of \<open>common/monocypher.cpp\<close>, and the test of the
  repository that calls it, \<open>test_src/MonocipherTest.cpp\<close>.  The context of Poly1305 that
  \<open>lock_auth\<close> keeps on the stack starts with whatever is there, so it is an argument; so are the
  buffers that the functions overwrite or leave as they are.
\<close>

subsection \<open>Definitions\<close>

record crypto_aead_ctx =
  ac_counter :: u64
  ac_key :: "u8 list"
  ac_nonce :: "u8 list"

definition zero :: "u8 list" where
  "zero = replicate 128 0"

definition lock_auth :: "crypto_poly1305_ctx \<Rightarrow> u8 list \<Rightarrow> u8 list \<Rightarrow> u8 list \<Rightarrow> u8 list" where
  "lock_auth poly_ctx auth_key ad cipher_text =
     (let ad_size = of_nat (length ad); text_size = of_nat (length cipher_text);
          sizes = store64_le ad_size @ store64_le text_size;
          poly_ctx = crypto_poly1305_init poly_ctx auth_key;
          poly_ctx = crypto_poly1305_update poly_ctx ad;
          poly_ctx = crypto_poly1305_update poly_ctx (take (unat (gap ad_size 16)) zero);
          poly_ctx = crypto_poly1305_update poly_ctx cipher_text;
          poly_ctx = crypto_poly1305_update poly_ctx (take (unat (gap text_size 16)) zero);
          poly_ctx = crypto_poly1305_update poly_ctx sizes
      in fst (crypto_poly1305_final poly_ctx))"

definition crypto_aead_init_x :: "u8 list \<Rightarrow> u8 list \<Rightarrow> crypto_aead_ctx" where
  "crypto_aead_init_x key nonce =
     \<lparr>ac_counter = 0, ac_key = crypto_chacha20_h key nonce, ac_nonce = take 8 (drop 16 nonce)\<rparr>"

definition crypto_aead_init_djb :: "u8 list \<Rightarrow> u8 list \<Rightarrow> crypto_aead_ctx" where
  "crypto_aead_init_djb key nonce = \<lparr>ac_counter = 0, ac_key = take 32 key, ac_nonce = take 8 nonce\<rparr>"

definition crypto_aead_init_ietf :: "u8 list \<Rightarrow> u8 list \<Rightarrow> crypto_aead_ctx" where
  "crypto_aead_init_ietf key nonce =
     \<lparr>ac_counter = push_bit 32 (ucast (load32_le nonce)), ac_key = take 32 key, ac_nonce = take 8 (drop 4 nonce)\<rparr>"

definition crypto_aead_write :: "crypto_poly1305_ctx \<Rightarrow> crypto_aead_ctx \<Rightarrow> u8 list \<Rightarrow> u8 list \<Rightarrow>
    u8 list \<times> u8 list \<times> crypto_aead_ctx" where
  "crypto_aead_write poly_ctx ctx ad plain_text =
     (let auth_key = fst (crypto_chacha20_djb None 64 (ac_key ctx) (ac_nonce ctx) (ac_counter ctx));
          cipher_text = fst (crypto_chacha20_djb (Some plain_text) (length plain_text)
            (ac_key ctx) (ac_nonce ctx) (ac_counter ctx + 1));
          mac = lock_auth poly_ctx auth_key ad cipher_text
      in (cipher_text, mac, ctx\<lparr>ac_key := take 32 (drop 32 auth_key)\<rparr>))"

definition crypto_aead_read :: "crypto_poly1305_ctx \<Rightarrow> crypto_aead_ctx \<Rightarrow> u8 list \<Rightarrow> u8 list \<Rightarrow> u8 list \<Rightarrow>
    u8 list \<Rightarrow> int \<times> u8 list \<times> crypto_aead_ctx" where
  "crypto_aead_read poly_ctx ctx plain_text mac ad cipher_text =
     (let auth_key = fst (crypto_chacha20_djb None 64 (ac_key ctx) (ac_nonce ctx) (ac_counter ctx));
          real_mac = lock_auth poly_ctx auth_key ad cipher_text;
          mismatch = crypto_verify16 mac real_mac
      in if mismatch = 0 then
           (mismatch,
            fst (crypto_chacha20_djb (Some cipher_text) (length cipher_text)
              (ac_key ctx) (ac_nonce ctx) (ac_counter ctx + 1)),
            ctx\<lparr>ac_key := take 32 (drop 32 auth_key)\<rparr>)
         else (mismatch, plain_text, ctx))"

definition crypto_aead_lock :: "crypto_poly1305_ctx \<Rightarrow> u8 list \<Rightarrow> u8 list \<Rightarrow> u8 list \<Rightarrow> u8 list \<Rightarrow>
    u8 list \<times> u8 list" where
  "crypto_aead_lock poly_ctx key nonce ad plain_text =
     (let ctx = crypto_aead_init_x key nonce;
          (cipher_text, mac, ctx) = crypto_aead_write poly_ctx ctx ad plain_text
      in (cipher_text, mac))"

definition crypto_aead_unlock :: "crypto_poly1305_ctx \<Rightarrow> u8 list \<Rightarrow> u8 list \<Rightarrow> u8 list \<Rightarrow> u8 list \<Rightarrow>
    u8 list \<Rightarrow> u8 list \<Rightarrow> int \<times> u8 list" where
  "crypto_aead_unlock poly_ctx plain_text mac key nonce ad cipher_text =
     (let ctx = crypto_aead_init_x key nonce;
          (mismatch, plain_text, ctx) = crypto_aead_read poly_ctx ctx plain_text mac ad cipher_text
      in (mismatch, plain_text))"

text \<open>
  \<open>TEST(Monocipher_EncryptDecrypt, 1)\<close>: the source text, what \<open>getrandom\<close> gives for the key and the
  nonce (\<open>None\<close> when it fails, which ends the process), and the stack at the two calls.  The test
  yields the exit code, or the status of the decryption with the assertion if it is reached.
\<close>

definition string_bytes :: "string \<Rightarrow> u8 list" where
  "string_bytes s = map (\<lambda>c. of_nat (of_char c)) s"

definition bytes_string :: "u8 list \<Rightarrow> string" where
  "bytes_string bs = map (\<lambda>b. char_of (unat b)) bs"

definition Monocipher_EncryptDecrypt :: "string \<Rightarrow> u8 list option \<Rightarrow> u8 list option \<Rightarrow>
    crypto_poly1305_ctx \<Rightarrow> crypto_poly1305_ctx \<Rightarrow> nat + int \<times> bool option" where
  "Monocipher_EncryptDecrypt source random_key random_nonce poly_ctx poly_ctx' =
     (case random_key of None \<Rightarrow> Inl 3 | Some key \<Rightarrow>
      (case random_nonce of None \<Rightarrow> Inl 7 | Some nonce \<Rightarrow>
        let message = string_bytes source; msgSize = length message;
            (encrypted, mac) = crypto_aead_lock poly_ctx key nonce [] message;
            (status, decrypted) =
              crypto_aead_unlock poly_ctx' (replicate msgSize 0) mac key nonce [] encrypted
        in Inr (status, if status = 0 then Some (bytes_string decrypted = source) else None)))"

subsection \<open>The authenticator of a message\<close>

text \<open>
  RFC 8439, section 2.8: the authenticated data and the cipher text, each padded to a multiple of
  16 bytes, and their sizes.
\<close>

definition pad16 :: "u8 list \<Rightarrow> u8 list" where
  "pad16 x = x @ replicate ((16 - length x mod 16) mod 16) 0"

definition mac_data :: "u8 list \<Rightarrow> u8 list \<Rightarrow> u8 list" where
  "mac_data ad cipher_text =
     pad16 ad @ pad16 cipher_text @ store64_le (of_nat (length ad)) @ store64_le (of_nat (length cipher_text))"

definition one_time_key :: "crypto_aead_ctx \<Rightarrow> u8 list" where
  "one_time_key ctx = take 32 (map (keystream (ac_key ctx) (ac_nonce ctx) (ac_counter ctx)) [0..<64])"


lemma complement_16: "(l + g) mod 16 = 0 \<Longrightarrow> g < 16 \<Longrightarrow> g = (16 - l mod 16) mod (16 :: nat)"
proof -
  assume a: "(l + g) mod 16 = 0" "g < 16"
  then have "(l mod 16 + g) mod 16 = 0" by (simp add: mod_add_left_eq)
  then obtain k where k: "l mod 16 + g = 16 * k" by (auto elim: dvdE)
  have "l mod 16 < 16" by simp
  with k a have "k = 0 \<or> k = 1" by linarith
  then show ?thesis using k a(2) by (cases "l mod 16 = 0") auto
qed

lemma gap_pads: "x @ take (unat (gap (of_nat (length x)) 16)) zero = pad16 x"
proof -
  define g where "g = unat (gap (of_nat (length x)) 16)"
  have g: "g < 16" "16 dvd unat (of_nat (length x) :: u64) + g"
    unfolding g_def using gap_aligns [of 4 "of_nat (length x)"] by simp_all
  have bits: "n mod 16 = take_bit 4 n" for n :: nat by (simp add: take_bit_eq_mod)
  have "take_bit 4 (unat (of_nat (length x) :: u64)) = take_bit 4 (length x)"
    by (simp add: unsigned_of_nat)
  then have "(length x + g) mod 16 = (unat (of_nat (length x) :: u64) + g) mod 16"
    by (intro mod_add_cong) (simp_all only: bits)
  also have "\<dots> = 0" using g(2) by (rule dvd_imp_mod_0)
  finally have "g = (16 - length x mod 16) mod 16" using g(1) by (rule complement_16)
  then show ?thesis using g(1) by (simp add: pad16_def zero_def flip: g_def)
qed

lemma lock_auth_value:
  assumes "32 \<le> length auth_key" "length (pc_c poly_ctx) = 16"
  shows "length (lock_auth poly_ctx auth_key ad cipher_text) = 16"
    and "le_value (lock_auth poly_ctx auth_key ad cipher_text) = rfc_poly1305 auth_key (mac_data ad cipher_text)"
proof -
  have "fed auth_key (((((([] @ ad) @ take (unat (gap (of_nat (length ad)) 16)) zero) @ cipher_text) @
      take (unat (gap (of_nat (length cipher_text)) 16)) zero) @ (store64_le (of_nat (length ad)) @
      store64_le (of_nat (length cipher_text))))) (crypto_poly1305_update (crypto_poly1305_update
      (crypto_poly1305_update (crypto_poly1305_update (crypto_poly1305_update
      (crypto_poly1305_init poly_ctx auth_key) ad) (take (unat (gap (of_nat (length ad)) 16)) zero)) cipher_text)
      (take (unat (gap (of_nat (length cipher_text)) 16)) zero)) (store64_le (of_nat (length ad)) @
      store64_le (of_nat (length cipher_text))))"
    by (intro update_fed init_fed assms)
  from fed_final [OF this]
  show "length (lock_auth poly_ctx auth_key ad cipher_text) = 16"
    "le_value (lock_auth poly_ctx auth_key ad cipher_text) = rfc_poly1305 auth_key (mac_data ad cipher_text)"
    unfolding append_Nil gap_pads append_assoc [of "pad16 ad" cipher_text]
    by (simp_all add: lock_auth_def Let_def mac_data_def gap_pads)
qed

lemma le_value_inj: "length xs = length ys \<Longrightarrow> le_value xs = le_value ys \<longleftrightarrow> xs = ys"
proof (induction xs ys rule: list_induct2)
  case (Cons x xs y ys)
  have digit: "(uint b + 256 * a) mod 256 = uint b" for b :: u8 and a
    using uint_range_size [of b] by (simp add: word_size)
  have "uint x + 256 * a = uint y + 256 * b \<longleftrightarrow> uint x = uint y \<and> a = b" for a b
  proof
    assume eq: "uint x + 256 * a = uint y + 256 * b"
    then have "uint x = uint y" by (metis digit)
    with eq show "uint x = uint y \<and> a = b" by simp
  qed simp
  then show ?case using Cons.IH by (simp add: word_uint_eq_iff)
qed simp

subsection \<open>Reading and writing\<close>

definition next_key :: "crypto_aead_ctx \<Rightarrow> crypto_aead_ctx" where
  "next_key ctx = ctx\<lparr>ac_key := map (\<lambda>i. keystream (ac_key ctx) (ac_nonce ctx) (ac_counter ctx) (32 + i)) [0..<32]\<rparr>"

definition xor_stream :: "crypto_aead_ctx \<Rightarrow> u8 list \<Rightarrow> u8 list" where
  "xor_stream ctx text =
     map (\<lambda>i. keystream (ac_key ctx) (ac_nonce ctx) (ac_counter ctx + 1) i XOR text ! i) [0..<length text]"

lemma xor_stream_twice [simp]: "xor_stream ctx (xor_stream ctx x) = x"
  by (rule nth_equalityI)
    (simp_all add: xor_stream_def xor.left_commute [of _ "_ :: u8"] flip: xor.assoc)

lemma length_xor_stream [simp]: "length (xor_stream ctx x) = length x"
  by (simp add: xor_stream_def)

lemma write_key: "take 32 (drop 32 (map f [0..<64])) = map (\<lambda>i. f (32 + i)) [0..<32]"
  by (rule nth_equalityI) simp_all

lemma rfc_one_time_key: "rfc_poly1305 (map f [0..<64]) m = rfc_poly1305 (take 32 (map f [0..<64])) m"
  by (simp add: rfc_poly1305_def rfc_r_def take_map drop_map min_def)

text \<open>What is written: the cipher text, the authenticator of RFC 8439, and a context with a new key.\<close>

lemma aead_write_value:
  assumes "length (pc_c poly_ctx) = 16"
  obtains mac where "crypto_aead_write poly_ctx ctx ad plain_text = (xor_stream ctx plain_text, mac, next_key ctx)"
    "length mac = 16" "le_value mac = rfc_poly1305 (one_time_key ctx) (mac_data ad (xor_stream ctx plain_text))"
proof -
  let ?key = "map (keystream (ac_key ctx) (ac_nonce ctx) (ac_counter ctx)) [0..<64]"
  let ?mac = "lock_auth poly_ctx ?key ad (xor_stream ctx plain_text)"
  have "crypto_aead_write poly_ctx ctx ad plain_text = (xor_stream ctx plain_text, ?mac, next_key ctx)"
    using chacha20_djb_value [of "Some plain_text" "length plain_text" "ac_key ctx" "ac_nonce ctx" "ac_counter ctx + 1"]
    by (simp add: crypto_aead_write_def Let_def chacha20_keystream write_key next_key_def xor_stream_def
        text_fits_def text_byte_def)
  then show ?thesis
    using lock_auth_value [of ?key poly_ctx ad "xor_stream ctx plain_text"] assms
    by (intro that) (simp_all add: one_time_key_def rfc_one_time_key)
qed

text \<open>
  What is read: the text when the authenticator is the one of the key, the data and the cipher text,
  and otherwise nothing: the buffer and the context stay as they are.
\<close>

lemma aead_read_value:
  assumes "length (pc_c poly_ctx) = 16" "16 \<le> length mac"
  shows "crypto_aead_read poly_ctx ctx plain_text mac ad cipher_text =
    (if le_value (take 16 mac) = rfc_poly1305 (one_time_key ctx) (mac_data ad cipher_text)
     then (0, xor_stream ctx cipher_text, next_key ctx) else (- 1, plain_text, ctx))"
proof -
  let ?key = "map (keystream (ac_key ctx) (ac_nonce ctx) (ac_counter ctx)) [0..<64]"
  let ?mac = "lock_auth poly_ctx ?key ad cipher_text"
  have mac: "length ?mac = 16" "le_value ?mac = rfc_poly1305 (one_time_key ctx) (mac_data ad cipher_text)"
    using lock_auth_value [of ?key poly_ctx ad cipher_text] assms
    by (simp_all add: one_time_key_def rfc_one_time_key)
  then have "crypto_verify16 mac ?mac =
      (if le_value (take 16 mac) = rfc_poly1305 (one_time_key ctx) (mac_data ad cipher_text) then 0 else - 1)"
    using assms(2) le_value_inj [of "take 16 mac" ?mac] by (simp add: crypto_verify16_eq)
  then show ?thesis
    using chacha20_djb_value [of "Some cipher_text" "length cipher_text" "ac_key ctx" "ac_nonce ctx" "ac_counter ctx + 1"]
    by (simp add: crypto_aead_read_def Let_def chacha20_keystream write_key next_key_def xor_stream_def
        text_fits_def text_byte_def)
qed

text \<open>Both ends stay in step: what one writes with a context, the other reads with an equal one.\<close>

lemma aead_write_read:
  assumes "length (pc_c poly_ctx) = 16" "length (pc_c poly_ctx') = 16"
    and "crypto_aead_write poly_ctx ctx ad plain_text = (cipher_text, mac, ctx')"
  shows "crypto_aead_read poly_ctx' ctx buffer mac ad cipher_text = (0, plain_text, ctx')"
proof -
  obtain mac' where w: "crypto_aead_write poly_ctx ctx ad plain_text = (xor_stream ctx plain_text, mac', next_key ctx)"
    "length mac' = 16" "le_value mac' = rfc_poly1305 (one_time_key ctx) (mac_data ad (xor_stream ctx plain_text))"
    by (rule aead_write_value [OF assms(1)])
  then show ?thesis
    using assms(3) aead_read_value [OF assms(2), of mac ctx buffer ad cipher_text] by simp
qed

text \<open>A series of messages, each written and then read, with the statuses and the texts.\<close>

fun exchange :: "(u8 list \<times> u8 list) list \<Rightarrow> crypto_poly1305_ctx \<Rightarrow> crypto_aead_ctx \<Rightarrow> crypto_aead_ctx \<Rightarrow>
    (int \<times> u8 list) list \<times> crypto_aead_ctx \<times> crypto_aead_ctx" where
  "exchange [] poly_ctx w r = ([], w, r)"
| "exchange ((ad, text) # ms) poly_ctx w r =
     (let (cipher_text, mac, w) = crypto_aead_write poly_ctx w ad text;
          (status, read_text, r) = crypto_aead_read poly_ctx r [] mac ad cipher_text;
          (rest, w, r) = exchange ms poly_ctx w r
      in ((status, read_text) # rest, w, r))"

text \<open>
  C23: A series of messages.  Each text, encrypted and authenticated at one end, is decrypted
  unchanged at the other end, where the context changes its key in step with the first one: the
  statuses are all 0 and both ends have the same context after the series.
\<close>

theorem aead_stream:
  assumes "length (pc_c poly_ctx) = 16"
  shows "\<exists>ctx'. exchange ms poly_ctx ctx ctx = (map (\<lambda>(ad, text). (0, text)) ms, ctx', ctx')"
proof (induction ms arbitrary: ctx)
  case (Cons m ms)
  obtain ad t where m: "m = (ad, t)" by (cases m)
  obtain c mac ctx' where w: "crypto_aead_write poly_ctx ctx ad t = (c, mac, ctx')" by (rule prod_cases3)
  note r = aead_write_read [OF assms assms w]
  from Cons.IH [of ctx'] obtain ctx'' where
    "exchange ms poly_ctx ctx' ctx' = (map (\<lambda>(ad, text). (0, text)) ms, ctx'', ctx'')" ..
  then show ?case by (simp add: m w r)
qed simp

lemma aead_stream_witness:
  "\<exists>ctx'. exchange [([1, 2], [3, 4, 5]), ([], [6])] poly1305_wiped
      (crypto_aead_init_x (replicate 32 7) (replicate 24 9)) (crypto_aead_init_x (replicate 32 7) (replicate 24 9)) =
    ([(0, [3, 4, 5]), (0, [6])], ctx', ctx')"
  using aead_stream [of poly1305_wiped "[([1, 2], [3, 4, 5]), ([], [6])]"] by (simp add: poly1305_wiped_def)

text \<open>
  C22: What a receiver accepts.  The call yields a text only when the authenticator is the one that RFC 8439
  gives for the one-time key, the authenticated data and the cipher text; any other authenticator gives
  the status -1, and the buffer of the caller is not touched.
\<close>

theorem aead_unlock_value:
  assumes "length (pc_c poly_ctx) = 16" "16 \<le> length mac"
  shows "crypto_aead_unlock poly_ctx buffer mac key nonce ad cipher_text =
    (if le_value (take 16 mac) = rfc_poly1305 (one_time_key (crypto_aead_init_x key nonce)) (mac_data ad cipher_text)
     then (0, xor_stream (crypto_aead_init_x key nonce) cipher_text) else (- 1, buffer))"
  using aead_read_value [OF assms, of "crypto_aead_init_x key nonce"]
  by (simp add: crypto_aead_unlock_def Let_def)

lemma aead_unlock_value_witness:
  "crypto_aead_unlock poly1305_wiped [0] (replicate 16 1) [] [] [] [8] =
    (if le_value (replicate 16 1) = rfc_poly1305 (one_time_key (crypto_aead_init_x [] [])) (mac_data [] [8])
     then (0, xor_stream (crypto_aead_init_x [] []) [8]) else (- 1, [0]))"
  using aead_unlock_value [of poly1305_wiped "replicate 16 1" "[0]" "[]" "[]" "[]" "[8]"]
  by (simp add: poly1305_wiped_def)

lemma aead_roundtrip:
  assumes "length (pc_c poly_ctx) = 16" "length (pc_c poly_ctx') = 16"
    and "crypto_aead_lock poly_ctx key nonce ad plain_text = (cipher_text, mac)"
  shows "crypto_aead_unlock poly_ctx' buffer mac key nonce ad cipher_text = (0, plain_text)"
proof -
  let ?ctx = "crypto_aead_init_x key nonce"
  obtain ctx' where "crypto_aead_write poly_ctx ?ctx ad plain_text = (cipher_text, mac, ctx')"
    using assms(3) by (auto simp: crypto_aead_lock_def Let_def split: prod.splits)
  from aead_write_read [OF assms(1,2) this] show ?thesis by (simp add: crypto_aead_unlock_def Let_def)
qed

lemma bytes_string_bytes [simp]: "bytes_string (string_bytes s) = s"
proof -
  have "char_of (unat (of_nat (of_char c) :: u8)) = c" for c
    by (simp add: unat_of_nat take_bit_nat_eq_self)
  then show ?thesis by (simp add: bytes_string_def string_bytes_def comp_def)
qed

corollary Monocipher_EncryptDecrypt_passes:
  assumes "length (pc_c poly_ctx) = 16" "length (pc_c poly_ctx') = 16"
  shows "Monocipher_EncryptDecrypt source (Some key) (Some nonce) poly_ctx poly_ctx' = Inr (0, Some True)"
proof -
  obtain c mac where lock: "crypto_aead_lock poly_ctx key nonce [] (string_bytes source) = (c, mac)" by force
  show ?thesis
    using aead_roundtrip [OF assms lock] by (simp add: Monocipher_EncryptDecrypt_def Let_def lock)
qed

end
