(* ===== verification/Spec2Isabelle.thy ===== *)
theory Spec2Isabelle
  imports Programs Connecting Line_Reader Aead
begin

text \<open>
  A model of the client and the server of ClientServer (C++), with the theorems that make them
  correct. The names are those of the sources; paths below are relative to \<open>src\<close>.

  \<^bold>\<open>The program.\<close> A client authenticates itself at an acceptor of the server, over a named pipe or over
  TCP, and gets a session of its own, with which it shares two keys. Its task builder reads a file of
  requests, numbers the lines and packs them into subtasks, which are compressed and encrypted. The
  client sends them one by one and prints what comes back. A session decrypts a batch, hands it over to
  the task controller, whose workers answer the requests by the policy of the server, and sends
  the answers. A policy echoes a request or looks for the ad with the highest bid for its keywords.

  \<^bold>\<open>The theories\<close>, in the order in which they build on each other.

  \<^item> \<open>Prelude\<close>: exceptions and other failures (\<open>exn\<close>), results \<open>exn + 'a\<close> with \<open>bindE\<close>, the operations of
    \<open>std::string\<close>; the collections of rules that later proofs use.
  \<^item> \<open>Char_Conv\<close>, \<open>Doubles\<close> (\<open>common/IOUtility\<close>): numbers and text, integers with their width, bids as
    \<open>double\<close>. Round trips, and that cents are read exactly.
  \<^item> \<open>Headers\<close> (\<open>common/Header\<close>): the header of 44 bytes and its codec; the round trip with its defect.
  \<^item> \<open>Splitting\<close> (\<open>common/Utility.h\<close>), \<open>Line_Reader\<close> (\<open>common/Lines\<close> and what is derived from it): each loop
    equals a reference on the remaining text.
  \<^item> \<open>Messages\<close> (\<open>common/Tcp\<close>, \<open>common/Fifo\<close>): a message that is sent arrives, in whatever pieces it is read.
  \<^item> \<open>Ads\<close>, \<open>Transactions\<close>, \<open>Policies\<close> (\<open>business\<close>, \<open>policy\<close>): the map of the ads and its invariant; the
    reply to a request, equal to a specification without the caches of the thread, and maximal.
  \<^item> \<open>Tasks\<close>, \<open>Task_Controller\<close> (\<open>Task\<close>, \<open>TaskController\<close>): a step relation over every interleaving of the
    workers. Each position is worked on once, tasks finish in order with the answers of the policy,
    and the workers come to rest; what ends or hangs the server is proved as well.
  \<^item> \<open>Thread_Pool\<close> (\<open>common/ThreadPoolBase\<close>, \<open>ThreadPoolSessions\<close>, \<open>common/Runnable.h\<close>): no object is lost or
    run twice, and the limits of the pool.
  \<^item> \<open>Compression\<close>, \<open>Crypto\<close>, \<open>Crypto_Operations\<close>, \<open>Encryptor_Tuples\<close> (\<open>common/Compression*\<close>, \<open>common/Crypto*\<close>):
    keys, signatures, access, and the round trip of a message through both encryptors.
  \<^item> \<open>Sessions\<close>, \<open>Tcp_Sessions\<close> (\<open>Session\<close>, \<open>FifoSession\<close>, \<open>TcpSession\<close>): a turn from the request to the reply,
    and the handlers of a TCP session as a step relation.
  \<^item> \<open>Task_Builder\<close>, \<open>Clients\<close> (\<open>client_src\<close>): the subtasks are the numbered lines, in order and each once; the
    handshake and a whole turn together with the session.
  \<^item> \<open>Servers\<close> (\<open>Server\<close>, \<open>FifoAcceptor\<close>, \<open>TcpAcceptor\<close>): the map of the sessions and the pool agree, sessions
    are authenticated, and a client that is accepted shares its keys.
  \<^item> \<open>Logger\<close>, \<open>Options\<close> (\<open>common/Logger\<close>, \<open>common/*Options\<close>): what is logged; the options as a parse leaves them.
  \<^item> \<open>Transport\<close> (\<open>common/Fifo\<close>, \<open>common/Tcp\<close>, the pipes of \<open>FifoAcceptor\<close> and \<open>FifoSession\<close>): opening pipes and sockets.
    \<open>Connecting\<close> (the constructors of \<open>TcpClient\<close> and \<open>FifoClient\<close>, \<open>TcpAcceptor::start\<close>): no client is left half-made.
  \<^item> \<open>Heartbeat\<close>, \<open>Client_Life\<close> (\<open>client_src/TcpClientHeartbeat\<close>, \<open>Client::stop\<close>): beats do not overlap; the
    objects of a client in its pool, and that stopping them ends unless the heartbeat is blocked.
  \<^item> \<open>Monocypher\<close>, \<open>Chacha20\<close>, \<open>Poly1305\<close>, \<open>Poly1305_Correct\<close>, \<open>Aead\<close> (\<open>common/monocypher\<close>, \<open>test_src/MonocipherTest\<close>): words
    and bytes, the stream cipher, the authenticator and their combination, on machine words. The cipher is the
    exclusive or with a key stream, the limbs do not overflow and compute the authenticator of RFC 8439, and
    both ends of a stream of messages stay in step; the test of the repository passes.
  \<^item> \<open>Programs\<close> (both \<open>main\<close>, \<open>common/Metrics\<close>, \<open>common/Chronometer.h\<close>): how the programs end and what they report.

  \<^bold>\<open>How the code is translated.\<close> An object is a record of its members and a method a function from the
  record; static and thread-local variables are fields of a record that is passed along. \<open>throw\<close>, a failed
  \<open>assert\<close> and undefined behaviour are values of \<open>exn\<close>, and \<open>std_exception\<close> tells what a handler for
  \<open>std::exception\<close> catches. Threads and asynchronous operations are inductive step relations, a step
  for each atomic access or handler; their theorems hold in every reachable state. Fields that only
  record what has happened (the tasks finished, the messages sent) serve the statements.

  \<^bold>\<open>The interfaces\<close> are locales: \<open>wire_enum\<close>, \<open>line_source\<close>, \<open>request_policy\<close>, \<open>pool_get\<close> and \<open>cipher\<close> state what a
  client of a virtual function or a template relies on, and every implementation interprets them.

  \<^bold>\<open>Parameters.\<close> The operating system, the clock, random bytes and the libraries are arguments:
  results of \<open>read\<close>, \<open>write\<close>, \<open>open\<close> and \<open>poll\<close> are lists, the errors of the sockets are arguments of the handlers;
  libsodium, Crypto++, LZ4, Snappy, ZSTD and the JSON values are records of functions. What is relied on is a
  hypothesis (\<open>sodium_ok\<close>, \<open>cryptopp_ok\<close>, \<open>compress_lib_ok\<close>, \<open>json_ok\<close>), and the witnesses use libraries that meet it.

  \<^bold>\<open>Loops.\<close> Where the number of turns depends on the environment the list of its results bounds the recursion, and
  \<open>None\<close> says that the results are used up and the code still waits. \<open>createSubtask\<close> has fuel for the lines it takes; one
  more than the number of lines that are left is enough (\<open>collectBatch_ends\<close>). The steps of the workers, of a stopped
  client and of a stopped heartbeat are shown well-founded by measures.

  \<^bold>\<open>Not modelled.\<close> Of \<open>common/monocypher\<close>, a vendored library, the hash BLAKE2b, Argon2, the curves and the signatures
  are called by nothing in the repository. The debug log, the reading of
  files and of the build time, the printing of initial vectors, signal masks and named mutexes are input and output without a decision of the program. Tests and scripts are not part of it.
  Memory that the C++ object model releases or moves appears only where the code depends on it: in the weak
  pointers of the encryptors and of the objects in a pool.
\<close>

end
